(* ===== verification/Prelude.thy ===== *)
theory Prelude
  imports Main "HOL-Library.Word" "HOL-Library.Sublist"
begin

text \<open>
  Shared vocabulary of the development: the names of the machine types the module uses, the
  nginx result codes as a datatype, bit masks over 64-bit words, and the lemmas on words, lists
  and flattened arrays that several components need.
\<close>

unbundle bit_operations_syntax

section \<open>Machine types\<close>

text \<open>
  A C \<open>u_char\<close> is a HOL \<^typ>\<open>char\<close>: both have exactly the 256 values of one byte.  A byte
  string with its length (\<open>ngx_str_t\<close>, or a pointer and a \<open>size_t\<close>) is a list of bytes.
  \<open>uint64_t\<close> and the 64-bit \<open>ngx_uint_t\<close> are 64-bit words where bits or wrap-around matter.
  \<open>time_t\<close> is an integer with its range written out where it matters.
\<close>

type_synonym byte = char
type_synonym bytes = "char list"
type_synonym u64 = "64 word"
type_synonym time_t = int

abbreviation byte_val :: "byte \<Rightarrow> nat" where
  "byte_val c \<equiv> of_char c"

text \<open>
  Result codes.  A phase handler returns one of nginx's symbolic codes or an HTTP status; the
  numeric values of the symbolic codes belong to nginx and are not used by the module.
\<close>

datatype ngx_rc = NGX_OK | NGX_ERROR | NGX_DECLINED | NGX_DONE | NGX_HTTP nat

section \<open>Fact collections\<close>

named_theorems mask_simps \<open>bits of category and term masks\<close>
named_theorems flat_simps \<open>indices into the flattened goto table\<close>

section \<open>Bit masks\<close>

text \<open>The C expression \<open>(uint64_t) 1 << n\<close> for \<open>n < 64\<close>.\<close>

definition bit_at :: "nat \<Rightarrow> u64" where
  "bit_at n = push_bit n 1"

lemma bit_bit_at [mask_simps]: "bit (bit_at n) k \<longleftrightarrow> k = n \<and> n < 64"
  by (auto simp: bit_at_def bit_simps)

lemma bit_u64_bound: "bit (w :: u64) k \<Longrightarrow> k < 64"
  using bit_imp_le_length [of w k] by simp

lemma bit_or_u64 [mask_simps]: "bit ((a :: u64) OR b) k \<longleftrightarrow> bit a k \<or> bit b k"
  by (simp add: bit_or_iff)

lemma bit_and_u64 [mask_simps]: "bit ((a :: u64) AND b) k \<longleftrightarrow> bit a k \<and> bit b k"
  by (simp add: bit_and_iff)

lemma bit_not_u64 [mask_simps]: "bit (NOT (a :: u64)) k \<longleftrightarrow> k < 64 \<and> \<not> bit a k"
  by (simp add: bit_not_iff)

lemma u64_eq_0_iff: "(w :: u64) = 0 \<longleftrightarrow> (\<forall>k. \<not> bit w k)"
  by (auto simp: bit_eq_iff dest: bit_u64_bound)

lemma u64_neq_0_iff: "(w :: u64) \<noteq> 0 \<longleftrightarrow> (\<exists>k. bit w k)"
  by (simp add: u64_eq_0_iff)

lemma and_bit_at_neq_0 [mask_simps]:
  "n < 64 \<Longrightarrow> ((w :: u64) AND bit_at n \<noteq> 0) \<longleftrightarrow> bit w n"
  by (auto simp: u64_neq_0_iff mask_simps)

lemma and_bit_at_eq_0 [mask_simps]:
  "n < 64 \<Longrightarrow> ((w :: u64) AND bit_at n = 0) \<longleftrightarrow> \<not> bit w n"
  using and_bit_at_neq_0 [of n w] by blast

lemma and_eq_self_iff: "((a :: u64) AND b = b) \<longleftrightarrow> (\<forall>k. bit b k \<longrightarrow> bit a k)"
  by (auto simp: bit_eq_iff mask_simps dest: bit_u64_bound)

section \<open>Folds that build a mask\<close>

text \<open>
  A C loop \<open>for (...) if (p(x)) mask |= 1 << f(x)\<close> over a table is the recursion below; its
  result holds exactly the bits of the selected rows.
\<close>

fun mask_of :: "('a \<Rightarrow> bool) \<Rightarrow> ('a \<Rightarrow> nat) \<Rightarrow> 'a list \<Rightarrow> u64 \<Rightarrow> u64" where
  "mask_of p f [] m = m"
| "mask_of p f (x # xs) m = mask_of p f xs (if p x then m OR bit_at (f x) else m)"

lemma bit_mask_of [mask_simps]:
  "bit (mask_of p f xs m) k \<longleftrightarrow> bit m k \<or> (k < 64 \<and> (\<exists>x \<in> set xs. p x \<and> f x = k))"
  by (induction xs arbitrary: m) (auto simp: mask_simps)

section \<open>Flattened two-dimensional arrays\<close>

lemma flat_index_less [flat_simps]:
  "(s :: nat) < n \<Longrightarrow> b < 256 \<Longrightarrow> s * 256 + b < n * 256"
proof -
  assume "s < n" and "b < 256"
  then have "Suc s * 256 \<le> n * 256" by (intro mult_right_mono) auto
  with \<open>b < 256\<close> show ?thesis by simp
qed

lemma flat_index_inj [flat_simps]:
  "b < 256 \<Longrightarrow> c < 256 \<Longrightarrow> (s :: nat) * 256 + b = t * 256 + c \<longleftrightarrow> s = t \<and> b = c"
proof -
  assume b: "b < 256" and c: "c < 256"
  show ?thesis
  proof
    assume eq: "s * 256 + b = t * 256 + c"
    have "(s * 256 + b) div 256 = s" and "(t * 256 + c) div 256 = t" using b c by auto
    with eq have "s = t" by simp
    with eq show "s = t \<and> b = c" by simp
  qed simp
qed

lemma byte_val_less [simp]: "byte_val c < 256"
  by (metis of_char_of of_char_mod_256 mod_less_divisor zero_less_numeral)

lemma byte_val_inj: "byte_val c = byte_val d \<longleftrightarrow> c = d"
  by simp

section \<open>Lists\<close>

lemma find_eq_None: "find Q xs = None \<longleftrightarrow> (\<forall>x \<in> set xs. \<not> Q x)"
  by (auto simp: find_None_iff)

lemma find_SomeD: "find Q xs = Some x \<Longrightarrow> x \<in> set xs \<and> Q x"
  by (metis find_Some_iff nth_mem)

lemma find_map: "find P (map f xs) = map_option f (find (P \<circ> f) xs)"
  by (induction xs) simp_all

lemma find_prefixes: "find P (prefixes xs) = Some u \<Longrightarrow> prefix u xs \<and> P u \<and> (\<forall>v. strict_prefix v u \<longrightarrow> \<not> P v)"
proof (induction xs arbitrary: P u)
  case (Cons x xs)
  show ?case
  proof (cases "P []")
    case True
    then show ?thesis using Cons.prems by auto
  next
    case False
    then obtain w where w: "find (P \<circ> (#) x) (prefixes xs) = Some w" "u = x # w" using Cons.prems by (auto simp: find_map)
    have "\<not> P v" if "strict_prefix v u" for v
      using that Cons.IH [OF w(1)] False w(2) by (cases v) auto
    then show ?thesis using Cons.IH [OF w(1)] w(2) by simp
  qed
qed (auto split: if_splits)

lemma find_sorted: "find P xs = Some c \<Longrightarrow> sorted_wrt R xs \<Longrightarrow> d \<in> set xs \<Longrightarrow> P d \<Longrightarrow> d = c \<or> R c d"
  by (induction xs) (auto split: if_splits)

lemma list_all2_choice:
  assumes "list_all2 P xs zs" and "\<And>x z. P x z \<Longrightarrow> \<exists>y. Q x y \<and> R y z"
  shows "\<exists>ys. list_all2 Q xs ys \<and> list_all2 R ys zs"
  using assms(1)
proof (induction rule: list_all2_induct)
  case (Cons x xs z zs)
  obtain y ys where "Q x y" "R y z" "list_all2 Q xs ys" "list_all2 R ys zs" using Cons assms(2) by blast
  then show ?case by (intro exI [of _ "y # ys"]) simp
qed simp

end
