(* ===== verification/Patterns.thy ===== *)
theory Patterns
  imports Prelude
begin

text \<open>
  The compiled-in signature tables of \<open>src/ngx_http_shield_patterns.h\<close>: the category enum, the
  match flags, the 26 signature arrays, the category table, the AND-rule term arrays, the rule
  table and the two mask functions computed from the category table.  The last section shows what
  the scanner relies on of these tables.
\<close>

section \<open>Types\<close>

text \<open>
  A signature is a string literal with its length \<open>sizeof(str) - 1\<close>, so the length is always
  that of the literal: a signature is the list of its bytes.  Bytes that are not plain printable
  characters are written \<open>CHR 0x..\<close> (the C escapes \<open>\t\<close>, \<open>\n\<close>, \<open>\r\<close>, \<open>\v\<close>, \<open>\f\<close>, the
  quote, the backslash and the UTF-8 bytes of two ideographic full stops).
\<close>

type_synonym ngx_http_shield_sig_t = bytes

datatype ngx_http_shield_cat_e =
    CAT_SQLI
  | CAT_XSS
  | CAT_TRAVERSAL
  | CAT_OVERLONG
  | CAT_CMDI
  | CAT_LFI_RFI
  | CAT_CRLF
  | CAT_NULLBYTE
  | CAT_TEMPLATE
  | CAT_DESERIAL
  | CAT_SHELLSHOCK
  | CAT_PHP_RCE
  | CAT_JAVA_RCE
  | CAT_JAVA_EVAL
  | CAT_RAILS_YAML
  | CAT_DRUPAL
  | CAT_VBULLETIN
  | CAT_XMLRPC
  | CAT_SSI
  | CAT_IMAGETRAGICK
  | CAT_HTTPOXY
  | CAT_RANGE_DOS
  | CAT_SENSITIVE_FILE
  | CAT_WEBSHELL
  | CAT_SSRF_META
  | CAT_NOSQL
  | CAT_SSTI
  | CAT_EXPLOIT_PATH
  | CAT_CTRL_CHAR
  | CAT_DOTFILE

text \<open>The value of the enum constant, which is the bit position in every category mask.\<close>

fun cat_val :: "ngx_http_shield_cat_e \<Rightarrow> nat" where
  "cat_val CAT_SQLI = 0"
| "cat_val CAT_XSS = 1"
| "cat_val CAT_TRAVERSAL = 2"
| "cat_val CAT_OVERLONG = 3"
| "cat_val CAT_CMDI = 4"
| "cat_val CAT_LFI_RFI = 5"
| "cat_val CAT_CRLF = 6"
| "cat_val CAT_NULLBYTE = 7"
| "cat_val CAT_TEMPLATE = 8"
| "cat_val CAT_DESERIAL = 9"
| "cat_val CAT_SHELLSHOCK = 10"
| "cat_val CAT_PHP_RCE = 11"
| "cat_val CAT_JAVA_RCE = 12"
| "cat_val CAT_JAVA_EVAL = 13"
| "cat_val CAT_RAILS_YAML = 14"
| "cat_val CAT_DRUPAL = 15"
| "cat_val CAT_VBULLETIN = 16"
| "cat_val CAT_XMLRPC = 17"
| "cat_val CAT_SSI = 18"
| "cat_val CAT_IMAGETRAGICK = 19"
| "cat_val CAT_HTTPOXY = 20"
| "cat_val CAT_RANGE_DOS = 21"
| "cat_val CAT_SENSITIVE_FILE = 22"
| "cat_val CAT_WEBSHELL = 23"
| "cat_val CAT_SSRF_META = 24"
| "cat_val CAT_NOSQL = 25"
| "cat_val CAT_SSTI = 26"
| "cat_val CAT_EXPLOIT_PATH = 27"
| "cat_val CAT_CTRL_CHAR = 28"
| "cat_val CAT_DOTFILE = 29"

definition CAT_N :: nat where
  "CAT_N = 30"

definition all_cats :: "ngx_http_shield_cat_e list" where
  "all_cats = [CAT_SQLI, CAT_XSS, CAT_TRAVERSAL, CAT_OVERLONG, CAT_CMDI, CAT_LFI_RFI, CAT_CRLF, CAT_NULLBYTE, CAT_TEMPLATE, CAT_DESERIAL, CAT_SHELLSHOCK, CAT_PHP_RCE, CAT_JAVA_RCE, CAT_JAVA_EVAL, CAT_RAILS_YAML, CAT_DRUPAL, CAT_VBULLETIN, CAT_XMLRPC, CAT_SSI, CAT_IMAGETRAGICK, CAT_HTTPOXY, CAT_RANGE_DOS, CAT_SENSITIVE_FILE, CAT_WEBSHELL, CAT_SSRF_META, CAT_NOSQL, CAT_SSTI, CAT_EXPLOIT_PATH, CAT_CTRL_CHAR, CAT_DOTFILE]"

text \<open>The enum constants are ordered by their values.\<close>

lemma all_cats_nth: "all_cats ! cat_val k = k"
  by (cases k) (simp_all add: all_cats_def)

lemma cat_val_inject [simp]: "cat_val k = cat_val k' \<longleftrightarrow> k = k'"
  using all_cats_nth by metis

instantiation ngx_http_shield_cat_e :: linorder
begin

definition less_eq_cat_def: "k \<le> k' \<longleftrightarrow> cat_val k \<le> cat_val k'"

definition less_cat_def: "k < k' \<longleftrightarrow> cat_val k < cat_val k'"

instance
  by standard (auto simp: less_eq_cat_def less_cat_def)

end

text \<open>Which normalized buffer a table applies to, and where it must not be applied.\<close>

definition MATCH_DECODED :: u64 where "MATCH_DECODED = 1"
definition MATCH_RAW :: u64 where "MATCH_RAW = 2"
definition NO_BODY :: u64 where "NO_BODY = 4"
definition NO_QUERY :: u64 where "NO_QUERY = 8"

record ngx_http_shield_catdef_t =
  cd_cat :: ngx_http_shield_cat_e
  cd_name :: bytes
  cd_sigs :: "ngx_http_shield_sig_t list"
  cd_match :: u64

record ngx_http_shield_ruledef_t =
  rd_cat :: ngx_http_shield_cat_e
  rd_name :: bytes
  rd_terms :: "ngx_http_shield_sig_t list"
  rd_match :: u64

section \<open>Signature arrays\<close>

definition ngx_http_shield_sqli :: "ngx_http_shield_sig_t list" where
  \<open>ngx_http_shield_sqli = [
    ''union select'',
    ''union all select'',
    ''union distinct select'',
    ''union/**/select'',
    ''union'' @ [CHR 0x09] @ ''select'',
    ''union'' @ [CHR 0x0A] @ ''select'',
    ''union'' @ [CHR 0x0D] @ ''select'',
    ''union'' @ [CHR 0x0B] @ ''select'',
    ''union'' @ [CHR 0x0C] @ ''select'',
    ''or/**/1=1'',
    ''and/**/sleep('',
    ''select/**/sleep('',
    [CHR 0x27] @ '' or 1=1'',
    ''" or 1=1'',
    ''or '' @ [CHR 0x27] @ ''1'' @ [CHR 0x27] @ ''='' @ [CHR 0x27] @ ''1'',
    ''or "1"="1'',
    ''or 1=1--'',
    ''or 1=1#'',
    ''or 1=1/*'',
    '') or ('' @ [CHR 0x27] @ ''1'' @ [CHR 0x27] @ ''='' @ [CHR 0x27] @ ''1'',
    [CHR 0x27] @ '' or '' @ [CHR 0x27, CHR 0x27] @ ''='' @ [CHR 0x27],
    [CHR 0x27] @ '' and '' @ [CHR 0x27] @ ''1'' @ [CHR 0x27] @ ''='' @ [CHR 0x27] @ ''1'',
    [CHR 0x27] @ '' and sleep('',
    [CHR 0x27] @ '' or sleep('',
    ''" and sleep('',
    ''" or sleep('',
    '') and sleep('',
    '') or sleep('',
    '';sleep('',
    ''select sleep('',
    '' or sleep('',
    '' and sleep('',
    ''admin'' @ [CHR 0x27] @ ''--'',
    [CHR 0x27] @ ''='' @ [CHR 0x27, CHR 0x27] @ '') or'',
    ''pg_sleep('',
    ''benchmark('',
    ''waitfor delay'',
    ''dbms_pipe.receive_message'',
    ''information_schema'',
    ''group_concat('',
    ''load_file('',
    ''into outfile'',
    ''into dumpfile'',
    ''extractvalue('',
    ''updatexml('',
    ''procedure analyse('',
    ''; drop table'',
    ''; drop database'',
    ''xp_cmdshell'',
    ''sp_oacreate'',
    ''sp_oamethod'',
    ''openrowset('',
    ''opendatasource('',
    ''pg_read_file('',
    ''pg_read_binary_file('',
    ''pg_write_file('',
    ''lo_import('',
    ''lo_export('',
    ''dbms_java.runjava'',
    ''dbms_scheduler.create_job'',
    ''utl_file.'',
    ''utl_tcp.'',
    ''ctxsys.drithsx.sn'',
    ''utl_inaddr'',
    ''utl_http.request'',
    ''json_arrayagg('',
    ''/**/union/**/'',
    ''/*!50000'',
    ''0x53514c'']\<close>

definition ngx_http_shield_xss :: "ngx_http_shield_sig_t list" where
  \<open>ngx_http_shield_xss = [
    ''<script'',
    ''</script'',
    ''javascript:'',
    ''vbscript:'',
    ''onerror='',
    ''onload='',
    ''onmouseover='',
    ''onfocus='',
    ''ontoggle='',
    ''onbeforetoggle='',
    ''onanimationstart='',
    ''onpointerover='',
    ''onmouseenter='',
    ''onwheel='',
    ''onbegin='',
    ''onstart='',
    ''onauxclick='',
    ''onpointerenter='',
    ''onbeforeinput='',
    ''onpageshow='',
    ''onhashchange='',
    ''document.cookie'',
    ''document.location'',
    ''window.location'',
    ''<svg/onload'',
    ''<svg onload'',
    ''<iframe'',
    ''<img src=x'',
    ''<body onload'',
    ''<details open onto'',
    ''<object data='',
    ''<embed src='',
    ''<base href='',
    ''<math href='',
    ''xlink:href='',
    ''data:text/html'',
    ''<video onerror'',
    ''<audio onerror'',
    ''formaction='',
    ''srcdoc='',
    ''expression('',
    ''fromcharcode('',
    ''eval(atob('',
    ''alert(document.'',
    ''<script>alert'',
    ''javascript&colon;'',
    ''javascript&#58;'',
    ''javascript&#x3a;'']\<close>

definition ngx_http_shield_traversal :: "ngx_http_shield_sig_t list" where
  \<open>ngx_http_shield_traversal = [
    ''../'',
    ''..'' @ [CHR 0x5C],
    ''....//'',
    ''....'' @ [CHR 0x5C, CHR 0x5C],
    ''..;/'',
    ''.%2e/'',
    ''%2e%2e/'',
    ''..%2f'',
    ''..%5c'',
    ''.%%32%65'']\<close>

definition ngx_http_shield_overlong :: "ngx_http_shield_sig_t list" where
  \<open>ngx_http_shield_overlong = [
    ''%c0%af'',
    ''%e0%80%af'',
    ''%f0%80%80%af'',
    ''%f8%80%80%80%af'',
    ''%fc%80%80%80%80%af'',
    ''%c0%2f'',
    ''%e0%80%2f'',
    ''%c1%9c'',
    ''%c0%9c'',
    ''%e0%80%9c'',
    ''%c1%1c'',
    ''%c0%ae'',
    ''%e0%80%ae'',
    ''%f0%80%80%ae'',
    ''%c0%80'',
    ''%e0%80%80'',
    ''%u002f'',
    ''%u005c'',
    ''%u002e'',
    ''%u0025'']\<close>

definition ngx_http_shield_cmdi :: "ngx_http_shield_sig_t list" where
  \<open>ngx_http_shield_cmdi = [
    '';wget '',
    '';curl '',
    ''&&wget '',
    ''&&curl '',
    ''||wget '',
    ''||curl '',
    ''|wget '',
    ''|curl '',
    ''|sh '',
    ''|bash '',
    ''&&cat '',
    '';cat '',
    '';id;'',
    '';id '',
    '';uname'',
    '';whoami'',
    '';sh '',
    '';busybox '',
    ''|busybox '',
    ''$(id)'',
    ''$(curl'',
    ''$(wget'',
    ''$(cat '',
    ''$(whoami'',
    ''$(uname'',
    ''`wget'',
    ''`curl'',
    ''`id`'',
    ''/bin/sh'',
    ''/bin/bash'',
    ''bash -i'',
    ''sh -c '',
    ''/dev/tcp/'',
    ''${ifs}'',
    ''$ifs$'',
    '';nc '',
    ''nc -e'',
    ''ncat -e'',
    '';python -c'',
    '';perl -e'',
    ''chmod 777'',
    ''chmod +x'',
    ''cmd.exe?/c'',
    ''cmd.exe /c'',
    ''/c powershell'',
    ''powershell -e'',
    ''powershell -enc'',
    ''powershell.exe -enc'',
    ''base64 -d'',
    ''certutil -urlcache'',
    ''certutil.exe -urlcache'',
    ''/winnt/system32'']\<close>

definition ngx_http_shield_lfi_rfi :: "ngx_http_shield_sig_t list" where
  \<open>ngx_http_shield_lfi_rfi = [
    ''php://input'',
    ''php://filter'',
    ''php://fd'',
    ''data://text'',
    ''expect://'',
    ''zip://'',
    ''phar://'',
    ''glob://'',
    ''rar://'',
    ''ogg://'',
    ''compress.zlib://'',
    ''compress.bzip2://'',
    ''gopher://'',
    ''dict://'',
    ''file:///etc/'',
    ''pearcmd.php'']\<close>

definition ngx_http_shield_crlf :: "ngx_http_shield_sig_t list" where
  \<open>ngx_http_shield_crlf = [
    ''%0d%0a'',
    ''%0a%0d'',
    [CHR 0x0D, CHR 0x0A] @ ''set-cookie'',
    [CHR 0x0D, CHR 0x0A] @ ''location:'',
    [CHR 0x0D, CHR 0x0A] @ ''content-length'',
    ''%0d%0aset-cookie'',
    ''%0d%0alocation:'',
    ''%0d%0acontent-length'',
    ''%0aset-cookie'',
    ''%e5%98%8a%e5%98%8d'',
    ''%u000d%u000a'']\<close>

definition ngx_http_shield_nullbyte :: "ngx_http_shield_sig_t list" where
  \<open>ngx_http_shield_nullbyte = [
    ''%00'',
    ''%2500'',
    ''%25%30%30'',
    ''%u0000'',
    ''%252e%252e'',
    ''%252f'',
    ''%255c'',
    ''%25%32%65'',
    ''%25%32%66'',
    ''%25252e'',
    ''%25252f'',
    ''%252500'']\<close>

definition ngx_http_shield_template :: "ngx_http_shield_sig_t list" where
  \<open>ngx_http_shield_template = [
    ''${jndi:'',
    ''jndi:ldap:'',
    ''jndi:rmi:'',
    ''jndi:dns:'',
    ''jndi:iiop:'',
    ''jndi:ldaps:'',
    ''jndi:nis:'',
    ''${env:'',
    ''${lower:'',
    ''${upper:'',
    ''${sys:'',
    ''${date:'',
    ''${ctx:'',
    ''${main:'',
    ''${base64:'',
    ''${marker:'',
    ''${::-'',
    ''${${'',
    ''${${lower:'',
    ''#{7*7}'']\<close>

definition ngx_http_shield_deserial :: "ngx_http_shield_sig_t list" where
  \<open>ngx_http_shield_deserial = [
    ''ro0ab'',
    ''aced0005'',
    ''o:21:"jdatabasedrivermysqli"'',
    ''o:24:"guzzlehttp'',
    ''jdbcrowsetimpl'',
    ''templatesimpl'',
    ''com.sun.org.apache.xalan'',
    ''badattributevalueexpexception'',
    ''org.apache.commons.collections.functors'',
    ''org.apache.commons.collections4.functors'',
    ''com.mchange.v2.c3p0'',
    ''bsh.interpreter'',
    ''groovy.lang.groovyshell'',
    ''javax.el.elprocessor'',
    ''<java.lang.processbuilder'',
    ''<work:workcontext'',
    ''"@type":"com.sun.'',
    ''"@type":"java.lang'',
    ''"@type":"org.apache'',
    ''"@type":"ch.qos.logback'',
    ''"@type":"com.alibaba'',
    ''system "file:'',
    ''system '' @ [CHR 0x27] @ ''file:'',
    ''system "http:'',
    ''system '' @ [CHR 0x27] @ ''http:'']\<close>

definition ngx_http_shield_shellshock :: "ngx_http_shield_sig_t list" where
  \<open>ngx_http_shield_shellshock = [
    ''() { :;}'',
    ''() { :; }'',
    ''() {:;}'',
    ''(){ :;}'',
    ''(){:;}'',
    ''() { :'' @ [CHR 0x09] @ '';}'',
    ''() { _;} >_[$($())]'',
    ''() { _; } >_[$($())]'',
    ''() { ignored;}'',
    ''() { test;}'',
    ''() { echo'',
    ''() { /bin/'',
    ''() { curl'',
    ''() { wget'',
    ''() { :;} ;'']\<close>

definition ngx_http_shield_php_rce :: "ngx_http_shield_sig_t list" where
  \<open>ngx_http_shield_php_rce = [
    ''-d allow_url_include'',
    ''-d auto_prepend_file'',
    ''-d auto_append_file'',
    ''-d allow_url_fopen'',
    ''-dsafe_mode'',
    ''eval-stdin.php'',
    ''invokefunction&function=call_user_func_array'',
    ''s=/index/'' @ [CHR 0x5C] @ ''think'',
    ''think'' @ [CHR 0x5C] @ ''app/invokefunction'',
    ''?a=fetch&content=<?php'',
    ''<?php system('',
    ''<?php eval('',
    ''<?php passthru('',
    ''php_value auto_prepend'',
    ''/phppath/php'',
    ''allow_url_include=1'']\<close>

definition ngx_http_shield_java_rce :: "ngx_http_shield_sig_t list" where
  \<open>ngx_http_shield_java_rce = [
    ''%{(#'',
    ''${(#'',
    ''(#_memberaccess'',
    ''#_memberaccess['',
    ''ognl.ognlcontext'',
    ''(#context['',
    ''@ognl.ognlruntime@'',
    ''struts.devmode'',
    ''redirect:${'',
    ''action:${'',
    ''class.module.classloader'',
    ''class['' @ [CHR 0x27] @ ''module'' @ [CHR 0x27] @ '']'',
    ''class.classloader'',
    ''@java.lang.runtime@getruntime().exec('',
    ''@ognl.ognlcontext@default_member_access'',
    ''@org.apache.commons.io.ioutils@'',
    ''com.opensymphony.webwork.servletactioncontext'',
    ''(#cmd='',
    ''new java.lang.processbuilder('']\<close>

definition ngx_http_shield_java_eval :: "ngx_http_shield_sig_t list" where
  \<open>ngx_http_shield_java_eval = [
    ''java.lang.runtime'',
    ''getruntime().exec'',
    ''runtime.getruntime'',
    ''java.lang.processbuilder'',
    ''new processbuilder'',
    ''t(java.lang.runtime)'',
    ''javax.script.scriptengine'',
    ''freemarker.template.utility.execute'',
    ''<#assign'',
    ''com.opensymphony.xwork2'',
    ''javax.naming.initialcontext'']\<close>

definition ngx_http_shield_rails_yaml :: "ngx_http_shield_sig_t list" where
  \<open>ngx_http_shield_rails_yaml = [
    ''!ruby/object:'',
    ''!ruby/hash:'',
    ''!ruby/struct:'']\<close>

definition ngx_http_shield_drupal :: "ngx_http_shield_sig_t list" where
  \<open>ngx_http_shield_drupal = [
    ''[#post_render]'',
    ''[#markup]'',
    ''[#lazy_builder]'',
    ''#post_render]='']\<close>

definition ngx_http_shield_vbulletin :: "ngx_http_shield_sig_t list" where
  \<open>ngx_http_shield_vbulletin = [
    ''widgetconfig[code]'',
    ''widgetconfig['' @ [CHR 0x27] @ ''code'' @ [CHR 0x27] @ '']'']\<close>

definition ngx_http_shield_xmlrpc :: "ngx_http_shield_sig_t list" where
  \<open>ngx_http_shield_xmlrpc = [
    ''system.multicall'']\<close>

definition ngx_http_shield_ssi :: "ngx_http_shield_sig_t list" where
  \<open>ngx_http_shield_ssi = [
    ''<!--#exec'',
    ''<!--#include virtual'',
    ''<!--#include file'']\<close>

definition ngx_http_shield_imagetragick :: "ngx_http_shield_sig_t list" where
  \<open>ngx_http_shield_imagetragick = [
    ''push graphic-context'',
    ''fill '' @ [CHR 0x27] @ ''url(https'',
    ''fill '' @ [CHR 0x27] @ ''url(|'']\<close>

definition ngx_http_shield_sensitive_file :: "ngx_http_shield_sig_t list" where
  \<open>ngx_http_shield_sensitive_file = [
    ''/etc/passwd'',
    ''/etc/shadow'',
    ''/etc/hosts'',
    ''/etc/group'',
    ''/proc/self/environ'',
    ''/proc/self/cmdline'',
    ''/proc/self/fd/'',
    ''/proc/self/maps'',
    ''/proc/self/status'',
    ''/proc/self/mountinfo'',
    ''/proc/net/tcp'',
    ''/etc/machine-id'',
    ''/etc/hostname'',
    ''/etc/resolv.conf'',
    ''/etc/sudoers'',
    ''/etc/environment'',
    ''/etc/crontab'',
    ''/etc/ssh/sshd_config'',
    ''/etc/nginx/nginx.conf'',
    ''/etc/letsencrypt/'',
    ''/web-inf/web.xml'',
    ''/var/run/secrets/kubernetes.io/serviceaccount/'',
    ''/var/log/auth.log'',
    ''/var/log/secure'',
    ''/var/lib/docker/containers/'',
    ''win.ini'',
    ''boot.ini'',
    [CHR 0x5C] @ ''windows'' @ [CHR 0x5C] @ ''system32'',
    ''/windows/win.ini'',
    ''/.env'',
    ''/.git/'',
    ''/.svn/'',
    ''/.hg/'',
    ''/.bzr/'',
    ''wp-config.php.bak'',
    ''wp-config.php.save'',
    ''wp-config.php.swp'',
    ''wp-config.php.orig'',
    ''wp-config.php~'',
    ''/.aws/credentials'',
    ''/.ssh/id_rsa'',
    ''/.ssh/id_dsa'',
    ''/.ssh/authorized_keys'',
    ''/.ds_store'',
    ''/.htaccess'',
    ''/.htdigest'',
    ''/.htpasswd'',
    ''/.bash_history'',
    ''/.mysql_history'',
    ''/.npmrc'',
    ''/.dockercfg'',
    ''/.docker/config.json'',
    ''/.kube/config'',
    ''/backup.sql'',
    ''/dump.sql'',
    ''/database.sql'',
    ''/.git-credentials'',
    ''/config/database.yml'',
    ''/.env.production'',
    ''/.env.local'',
    ''/.env.bak'',
    ''/config.php.bak'',
    ''/config.php.swp'',
    ''/config.php~'',
    ''/settings.py.bak'',
    ''/.idea/workspace.xml'',
    ''/.vscode/sftp.json'',
    ''/.circleci/config.yml'',
    ''/.travis.yml'',
    ''/.netrc'',
    ''/.pgpass'',
    ''/.my.cnf'',
    ''/id_rsa'',
    ''/id_ed25519'',
    ''/.ftpconfig'',
    ''/.google_authenticator'',
    ''/.s3cfg'',
    ''/.boto'',
    ''/.credentials'',
    ''/.deployment-secrets.txt'',
    ''/.cargo/credentials'',
    ''/.config/pip/pip.conf'',
    ''/.config/composer/auth.json'',
    ''/.composer/auth.json'',
    ''/.gsutil/'',
    ''/.minikube/'',
    ''/.password-store/'',
    ''/.secrets'',
    ''/composer.json.bak'',
    ''/artisan.bak'',
    ''/.aws/'',
    ''/.azure/'',
    ''/.docker/'',
    ''/.gnupg/'',
    ''/.kube/'',
    ''/.ssh/'',
    ''/.config/gcloud/'',
    ''/.config/gh/'',
    ''/.gem/credentials'',
    ''/.pypirc'',
    ''/.rediscli_history'',
    ''/.psql_history'',
    ''/.python_history'',
    ''/terraform.tfstate'',
    ''/config/master.key'',
    ''/app/etc/env.php'',
    ''/storage/logs/laravel.log'',
    ''/.claude/'',
    ''/.cursor/'',
    ''/.continue/'',
    ''/.aider/'',
    ''/.roo/'',
    ''/.zed/'',
    ''/.cline/'',
    ''/.kiro/'',
    ''/.windsurf/'',
    ''/.rovodev/'',
    ''/.codex/'',
    ''/.opencode/'',
    ''/.a0proj/'',
    ''/.plandex/'',
    ''/.fabric/'',
    ''/.n8n/'',
    ''/.junie/'',
    ''/.gemini/'',
    ''/.openclaw/'',
    ''/.clawdbot/'',
    ''/.trustclaw/'',
    ''/.zeroclaw/'',
    ''/.warp/'',
    ''/.qwen_code/'',
    ''/.crush/'',
    ''/.terraform/'',
    ''/.dockerenv'']\<close>

definition ngx_http_shield_webshell :: "ngx_http_shield_sig_t list" where
  \<open>ngx_http_shield_webshell = [
    ''c99.php'',
    ''r57.php'',
    ''wso.php'',
    ''b374k'',
    ''alfa.php'',
    ''/shell.php?cmd='',
    ''/cmd.php?cmd='',
    ''/shell.jsp'',
    ''/cmd.jsp'',
    ''/tunnel.jsp'',
    ''filesman'',
    ''indoxploit'',
    ''p0wny'',
    ''weevely'',
    ''antsword'',
    ''behinder'',
    ''regeorg'',
    ''gel4y'',
    ''aspxspy'',
    ''wshell.php'',
    ''mini.php?'',
    ''ghost_eye'',
    ''bloodsec'',
    ''marijuana_shell'',
    ''kacak_shell'',
    ''wpyii2'',
    ''smevk'',
    ''xleet'',
    ''spinstall0.aspx'',
    ''turkshell.php'']\<close>

definition ngx_http_shield_ssrf_meta :: "ngx_http_shield_sig_t list" where
  \<open>ngx_http_shield_ssrf_meta = [
    ''169.254.169.254'',
    ''100.100.100.200'',
    ''192.0.0.192'',
    ''metadata.google.internal'',
    ''/latest/meta-data/'',
    ''/latest/user-data'',
    ''/latest/dynamic/instance-identity'',
    ''/metadata/v1/'',
    ''/metadata/instance'',
    ''/computemetadata/v1/'',
    ''/opc/v1/instance'',
    ''2852039166'',
    ''0xa9fea9fe'',
    ''025177524776'',
    ''0251.0376.0251.0376'',
    ''0251.254.169.254'',
    ''0xa9.0xfe.0xa9.0xfe'',
    ''[::ffff:a9fe:a9fe]'',
    ''[0:0:0:0:0:ffff:a9fe:a9fe]'',
    ''[0:0:0:0:0:ffff:169.254.169.254]'',
    ''169'' @ [CHR 0xE3, CHR 0x80, CHR 0x82] @ ''254'' @ [CHR 0xE3, CHR 0x80, CHR 0x82] @ ''169'' @ [CHR 0xE3, CHR 0x80, CHR 0x82] @ ''254'',
    ''169'' @ [CHR 0xEF, CHR 0xBD, CHR 0xA1] @ ''254'' @ [CHR 0xEF, CHR 0xBD, CHR 0xA1] @ ''169'' @ [CHR 0xEF, CHR 0xBD, CHR 0xA1] @ ''254'',
    ''instance-data/latest/'',
    ''169.254.170.2/v2'',
    ''metadata.packet.net/userdata'',
    ''/2009-04-04/meta-data/'',
    ''rancher-metadata/'',
    ''/latest/api/token'',
    ''/latest/meta-data/iam/security-credentials/'',
    ''metadata-flavor: google'',
    ''metadata-flavor:google'',
    ''127.0.0.1:2375'',
    ''2130706433:2375'',
    ''0x7f000001:2375'',
    ''0177.0.0.1:2375'',
    ''017700000001:2375'',
    ''[::1]:2375'',
    ''[0:0:0:0:0:ffff:127.0.0.1]:2375'',
    ''127.0.0.1:2379'',
    ''localhost:9001/2018-06-01/runtime/'']\<close>

definition ngx_http_shield_nosql :: "ngx_http_shield_sig_t list" where
  \<open>ngx_http_shield_nosql = [
    ''[$ne]'',
    ''[$gt]'',
    ''[$lt]'',
    ''[$regex]'',
    ''[$where]'',
    ''[$exists]'',
    ''{"$where":'',
    ''{"$where" :'',
    ''$where:function'',
    ''$func:'',
    [CHR 0x27] @ '';return true;var'']\<close>

definition ngx_http_shield_ssti :: "ngx_http_shield_sig_t list" where
  \<open>ngx_http_shield_ssti = [
    ''{{7*7}}'',
    ''${7*7}'',
    ''#{7*7}'',
    ''*{7*7}'',
    ''{{7*'' @ [CHR 0x27] @ ''7'' @ [CHR 0x27] @ ''}}'',
    ''<%= 7*7'',
    ''{{config'',
    ''{{request'',
    ''{{self'',
    ''{{'' @ [CHR 0x27, CHR 0x27] @ ''.__class__'',
    ''{{().__class__'',
    ''${t(java'',
    ''#set($'',
    ''[[${'']\<close>

definition ngx_http_shield_exploit_path :: "ngx_http_shield_sig_t list" where
  \<open>ngx_http_shield_exploit_path = [
    ''/wls-wsat/'',
    ''/mgmt/tm/util/bash'',
    ''/mgmt/shared/authn/login'',
    ''/hipreport.esp'',
    ''/remote/fgt_lang'',
    ''/+cscoe+/'',
    ''/dana-na/'',
    ''/cgi-bin/luci'',
    ''/boaform/admin/formlogin'',
    ''/gponform/diag_form'',
    ''/hnap1/'',
    ''/setup.cgi?next_file'',
    ''/solr/admin/cores'',
    ''/actuator/gateway/routes'',
    ''/_ignition/execute-solution'',
    ''/api/jsonws/invoke'',
    ''/console/css/%252e'',
    ''autodiscover.json?@'',
    ''autodiscover.json%3f@'',
    ''/owa/auth/x.'',
    ''/vpns/portal/scripts'',
    ''/securityrealm/user/admin/descriptorbyname'',
    ''/config/getuser?index='',
    ''/tmui/login.jsp/..;/'',
    ''/hsqldb%0a'',
    ''/ui/vropspluginui/rest/services/uploadova'',
    ''/ui/vropspluginui/rest/services/getstatus'',
    ''/analytics/telemetry/ph/api/hyper/send'',
    ''/webtools/control/xmlrpc'',
    ''/webtools/control/programexport'',
    ''/gwtest/formssso?event='',
    ''/vpn/../vpns/'',
    ''/newbm.pl'',
    ''/remote/fgt_lang?lang=/../'',
    ''sslvpn_websession'',
    ''/api/v1/totp/user-backup-code/../'',
    ''/moveitisapi/moveitisapi.dll'',
    ''/guestaccess.aspx'',
    ''/app/rest/debug/authenticationtest.jsp'',
    ''/json/setup-restore'',
    ''/setup/setupadministrator.action'',
    ''/dana-ws/saml20.ws'',
    ''/_async/asyncresponseservice'',
    ''/goform/set_limitclient_cfg'',
    ''/setupwizard.aspx/'',
    '';.jsp'',
    ''/res/../admin/diagnostic.jsp'',
    ''/oauth/idp/.well-known/openid-configuration'',
    ''/databases/upgrademysqlstatus'',
    ''/developmentserver/metadatauploader'',
    ''/_layouts/15/toolpane.aspx'',
    ''/apps/graphapi/vendor/microsoft/'',
    ''/nmapi/recurringreport'']\<close>

section \<open>The category table\<close>

definition TABLE :: "ngx_http_shield_cat_e \<Rightarrow> bytes \<Rightarrow> ngx_http_shield_sig_t list \<Rightarrow> u64
    \<Rightarrow> ngx_http_shield_catdef_t" where
  "TABLE c nm arr m = \<lparr>cd_cat = c, cd_name = nm, cd_sigs = arr, cd_match = m\<rparr>"

definition ngx_http_shield_categories :: "ngx_http_shield_catdef_t list" where
  "ngx_http_shield_categories = [
    TABLE CAT_SQLI ''sqli'' ngx_http_shield_sqli (MATCH_DECODED),
    TABLE CAT_XSS ''xss'' ngx_http_shield_xss (MATCH_DECODED OR NO_BODY OR NO_QUERY),
    TABLE CAT_TRAVERSAL ''traversal'' ngx_http_shield_traversal (MATCH_DECODED OR MATCH_RAW OR NO_BODY),
    TABLE CAT_OVERLONG ''overlong'' ngx_http_shield_overlong (MATCH_RAW),
    TABLE CAT_CMDI ''cmdi'' ngx_http_shield_cmdi (MATCH_DECODED OR NO_BODY),
    TABLE CAT_LFI_RFI ''lfi'' ngx_http_shield_lfi_rfi (MATCH_DECODED OR NO_BODY),
    TABLE CAT_CRLF ''crlf'' ngx_http_shield_crlf (MATCH_DECODED OR MATCH_RAW),
    TABLE CAT_NULLBYTE ''nullbyte'' ngx_http_shield_nullbyte (MATCH_RAW),
    TABLE CAT_TEMPLATE ''template'' ngx_http_shield_template (MATCH_DECODED OR NO_BODY),
    TABLE CAT_DESERIAL ''deserial'' ngx_http_shield_deserial (MATCH_DECODED),
    TABLE CAT_SHELLSHOCK ''shellshock'' ngx_http_shield_shellshock (MATCH_DECODED),
    TABLE CAT_PHP_RCE ''php_rce'' ngx_http_shield_php_rce (MATCH_DECODED OR NO_BODY),
    TABLE CAT_JAVA_RCE ''java_rce'' ngx_http_shield_java_rce (MATCH_DECODED OR MATCH_RAW OR NO_BODY),
    TABLE CAT_JAVA_EVAL ''java_eval'' ngx_http_shield_java_eval (MATCH_DECODED OR NO_BODY),
    TABLE CAT_RAILS_YAML ''rails_yaml'' ngx_http_shield_rails_yaml (MATCH_DECODED),
    TABLE CAT_DRUPAL ''drupal'' ngx_http_shield_drupal (MATCH_DECODED),
    TABLE CAT_VBULLETIN ''vbulletin'' ngx_http_shield_vbulletin (MATCH_DECODED),
    TABLE CAT_XMLRPC ''xmlrpc'' ngx_http_shield_xmlrpc (MATCH_DECODED),
    TABLE CAT_SSI ''ssi'' ngx_http_shield_ssi (MATCH_DECODED),
    TABLE CAT_IMAGETRAGICK ''imagetragick'' ngx_http_shield_imagetragick (MATCH_DECODED),
    TABLE CAT_SENSITIVE_FILE ''sensitive_file'' ngx_http_shield_sensitive_file (MATCH_DECODED OR NO_BODY OR NO_QUERY),
    TABLE CAT_WEBSHELL ''webshell'' ngx_http_shield_webshell (MATCH_DECODED),
    TABLE CAT_SSRF_META ''ssrf_meta'' ngx_http_shield_ssrf_meta (MATCH_DECODED),
    TABLE CAT_NOSQL ''nosql'' ngx_http_shield_nosql (MATCH_DECODED OR MATCH_RAW),
    TABLE CAT_SSTI ''ssti'' ngx_http_shield_ssti (MATCH_DECODED OR MATCH_RAW),
    TABLE CAT_EXPLOIT_PATH ''exploit_path'' ngx_http_shield_exploit_path (MATCH_DECODED OR MATCH_RAW OR NO_BODY)]"

definition NCATEGORIES :: nat where
  "NCATEGORIES = length ngx_http_shield_categories"

text \<open>The two masks folded into the skip mask of a body scan and of a query-bearing scan.\<close>

definition ngx_http_shield_no_body_mask :: u64 where
  "ngx_http_shield_no_body_mask =
     mask_of (\<lambda>c. cd_match c AND NO_BODY \<noteq> 0) (\<lambda>c. cat_val (cd_cat c)) ngx_http_shield_categories 0"

definition ngx_http_shield_no_query_mask :: u64 where
  "ngx_http_shield_no_query_mask =
     mask_of (\<lambda>c. cd_match c AND NO_QUERY \<noteq> 0) (\<lambda>c. cat_val (cd_cat c)) ngx_http_shield_categories 0"

text \<open>Names of the four structural categories, which have no table row.\<close>

definition NAME_HTTPOXY :: bytes where "NAME_HTTPOXY = ''httpoxy''"
definition NAME_RANGE_DOS :: bytes where "NAME_RANGE_DOS = ''range_dos''"
definition NAME_CTRL_CHAR :: bytes where "NAME_CTRL_CHAR = ''ctrl_char''"
definition NAME_DOTFILE :: bytes where "NAME_DOTFILE = ''dotfile''"

section \<open>AND-rules\<close>

definition ngx_http_shield_rule_ofbiz :: "ngx_http_shield_sig_t list" where
  \<open>ngx_http_shield_rule_ofbiz = [
    ''requirepasswordchange=y'',
    ''/webtools/control/'']\<close>

definition ngx_http_shield_rule_metabase :: "ngx_http_shield_sig_t list" where
  \<open>ngx_http_shield_rule_metabase = [
    ''jdbc:h2:'',
    ''init='']\<close>

definition ngx_http_shield_rule_jenkins_cli :: "ngx_http_shield_sig_t list" where
  \<open>ngx_http_shield_rule_jenkins_cli = [
    ''/cli?'',
    ''remoting=true'']\<close>

definition ngx_http_shield_rule_vmware_ssti :: "ngx_http_shield_sig_t list" where
  \<open>ngx_http_shield_rule_vmware_ssti = [
    ''/catalog-portal/ui/oauth/verify'',
    ''${'']\<close>

definition ngx_http_shield_rule_ssrf_wildcard_dns :: "ngx_http_shield_sig_t list" where
  \<open>ngx_http_shield_rule_ssrf_wildcard_dns = [
    ''.nip.io'',
    ''169-254-169-254'']\<close>

definition ngx_http_shield_rule_coldfusion_cfclient :: "ngx_http_shield_sig_t list" where
  \<open>ngx_http_shield_rule_coldfusion_cfclient = [
    ''/cf_scripts/scripts/ajax/ckeditor/plugins/filemanager/'',
    ''_cfclient=true'']\<close>

definition RULE :: "ngx_http_shield_cat_e \<Rightarrow> bytes \<Rightarrow> ngx_http_shield_sig_t list \<Rightarrow> u64
    \<Rightarrow> ngx_http_shield_ruledef_t" where
  "RULE c nm arr m = \<lparr>rd_cat = c, rd_name = nm, rd_terms = arr, rd_match = m\<rparr>"

definition ngx_http_shield_rules :: "ngx_http_shield_ruledef_t list" where
  "ngx_http_shield_rules = [
    RULE CAT_EXPLOIT_PATH ''ofbiz_authbypass'' ngx_http_shield_rule_ofbiz (MATCH_DECODED),
    RULE CAT_DESERIAL ''metabase_jdbc_rce'' ngx_http_shield_rule_metabase (MATCH_DECODED),
    RULE CAT_EXPLOIT_PATH ''jenkins_cli_read'' ngx_http_shield_rule_jenkins_cli (MATCH_DECODED),
    RULE CAT_EXPLOIT_PATH ''vmware_wsone_ssti'' ngx_http_shield_rule_vmware_ssti (MATCH_DECODED),
    RULE CAT_SSRF_META ''ssrf_wildcard_dns'' ngx_http_shield_rule_ssrf_wildcard_dns (MATCH_DECODED),
    RULE CAT_EXPLOIT_PATH ''coldfusion_cfclient'' ngx_http_shield_rule_coldfusion_cfclient (MATCH_DECODED)]"

definition NRULES :: nat where
  "NRULES = length ngx_http_shield_rules"

text \<open>
  The compile-time term count \<open>NGX_HTTP_SHIELD_NRULE_TERMS\<close>, which sums five of the six term
  arrays (the array of the last rule is not among its \<open>sizeof\<close> terms).
\<close>

definition NRULE_TERMS :: nat where
  "NRULE_TERMS = length ngx_http_shield_rule_ofbiz + length ngx_http_shield_rule_metabase
     + length ngx_http_shield_rule_jenkins_cli + length ngx_http_shield_rule_vmware_ssti
     + length ngx_http_shield_rule_ssrf_wildcard_dns"

definition AC_ALPHABET :: nat where "AC_ALPHABET = 256"
definition AC_MAX_STATES :: nat where "AC_MAX_STATES = 65535"


text \<open>The compile-time assertions: an array type of that size, which a negative size would reject.\<close>

definition ngx_http_shield_cat_fits_in_mask :: int where
  "ngx_http_shield_cat_fits_in_mask = (if CAT_N \<le> 64 then 1 else - 1)"

definition ngx_http_shield_rule_terms_fit_in_mask :: int where
  "ngx_http_shield_rule_terms_fit_in_mask = (if NRULE_TERMS \<le> 64 then 1 else - 1)"

lemma masks_compile: "0 < ngx_http_shield_cat_fits_in_mask" "0 < ngx_http_shield_rule_terms_fit_in_mask"
  by code_simp+

text \<open>The asserted number is not the number of terms: those of one rule are missing from the sum.\<close>

lemma nrule_terms_undercount: "NRULE_TERMS + 2 = length (concat (map rd_terms ngx_http_shield_rules))"
  by code_simp

end
