(* ===== verification/Ac_Build.thy ===== *)
theory Ac_Build
  imports Patterns
begin

text \<open>
  The construction of one Aho-Corasick automaton, \<open>ngx_http_shield_ac_build\<close> of
  \<open>src/ngx_http_shield_scan.c\<close>: the size bound, the checks and allocations, the bit-to-row index,
  the goto-trie of signatures and rule terms, and the breadth-first pass that resolves fail links
  and flattens them into the goto table.  The global tables are arguments, so that what is proved
  of the construction holds for every table; the outcome of each nginx allocation is an argument
  too.
\<close>

section \<open>State\<close>

record ngx_http_shield_ac_t =
  ac_next :: "nat list"
  ac_out :: "u64 list"
  ac_nstates :: nat
  ac_rout :: "u64 list"
  ac_need :: "u64 list"
  ac_row :: "nat list"

text \<open>Whether each allocation of the build returned a pointer.\<close>

record ac_mem =
  m_next :: bool
  m_out :: bool
  m_rout :: bool
  m_temp :: bool
  m_queue :: bool
  m_fail :: bool

datatype ac_build_error = AC_TOO_MANY_TERMS nat | AC_TOO_LARGE nat | AC_NO_MEMORY | AC_NO_RESULT

text \<open>The arrays the two passes work on: goto table, accepting masks, number of states.\<close>

record ac_trie =
  t_next :: "nat list"
  t_out :: "u64 list"
  t_rout :: "u64 list"
  t_n :: nat

text \<open>The cast \<open>(ngx_http_shield_ac_state_t) nstates\<close> to \<open>uint16_t\<close>.\<close>

definition ac_state :: "nat \<Rightarrow> nat" where
  "ac_state n = n mod 65536"

section \<open>Size of the table\<close>

definition cat_selected :: "u64 \<Rightarrow> ngx_http_shield_catdef_t \<Rightarrow> bool" where
  "cat_selected m c \<longleftrightarrow> cd_match c AND m \<noteq> 0"

definition rule_selected :: "u64 \<Rightarrow> ngx_http_shield_ruledef_t \<Rightarrow> bool" where
  "rule_selected m r \<longleftrightarrow> rd_match r AND m \<noteq> 0"

definition ac_cap :: "ngx_http_shield_catdef_t list \<Rightarrow> ngx_http_shield_ruledef_t list \<Rightarrow> u64 \<Rightarrow> nat" where
  "ac_cap cats rules m = 1
     + sum_list (map (\<lambda>c. if cat_selected m c then sum_list (map length (cd_sigs c)) else 0) cats)
     + sum_list (map (\<lambda>r. if rule_selected m r then sum_list (map length (rd_terms r)) else 0) rules)"

definition ac_term_count :: "ngx_http_shield_ruledef_t list \<Rightarrow> nat" where
  "ac_term_count rules = sum_list (map (\<lambda>r. length (rd_terms r)) rules)"

section \<open>Accepting bit to category row\<close>

fun ac_row_cats :: "u64 \<Rightarrow> nat \<Rightarrow> ngx_http_shield_catdef_t list \<Rightarrow> nat list \<Rightarrow> nat list" where
  "ac_row_cats m i [] row = row"
| "ac_row_cats m i (c # cs) row =
     ac_row_cats m (Suc i) cs (if cat_selected m c then row[cat_val (cd_cat c) := i] else row)"

text \<open>The inner search with its \<open>break\<close>: the first table row of a category.\<close>

fun first_row :: "ngx_http_shield_cat_e \<Rightarrow> nat \<Rightarrow> ngx_http_shield_catdef_t list \<Rightarrow> nat option" where
  "first_row k j [] = None"
| "first_row k j (c # cs) = (if cd_cat c = k then Some j else first_row k (Suc j) cs)"

fun ac_row_rules :: "u64 \<Rightarrow> ngx_http_shield_catdef_t list \<Rightarrow> ngx_http_shield_ruledef_t list
    \<Rightarrow> nat list \<Rightarrow> nat list" where
  "ac_row_rules m cats [] row = row"
| "ac_row_rules m cats (r # rs) row = ac_row_rules m cats rs
     (if rule_selected m r
      then (case first_row (rd_cat r) 0 cats of
              Some j \<Rightarrow> row[cat_val (rd_cat r) := j] | None \<Rightarrow> row)
      else row)"

definition ac_rows :: "ngx_http_shield_catdef_t list \<Rightarrow> ngx_http_shield_ruledef_t list \<Rightarrow> u64 \<Rightarrow> nat list" where
  "ac_rows cats rules m =
     ac_row_rules m cats rules (ac_row_cats m 0 cats (replicate 64 (length cats)))"

section \<open>Pass 1: goto-trie\<close>

text \<open>The \<open>k\<close> loop: walk from state \<open>s\<close> along a string, creating absent states.\<close>

fun trie_walk :: "nat list \<Rightarrow> nat \<Rightarrow> nat \<Rightarrow> bytes \<Rightarrow> nat list \<times> nat \<times> nat" where
  "trie_walk nx n s [] = (nx, n, s)"
| "trie_walk nx n s (b # bs) =
     (let i = s * AC_ALPHABET + byte_val b;
          absent = (nx ! i = 0);
          nx' = (if absent then nx[i := ac_state n] else nx);
          n' = (if absent then n + 1 else n)
      in trie_walk nx' n' (nx' ! i) bs)"

definition add_sig :: "ngx_http_shield_cat_e \<Rightarrow> ngx_http_shield_sig_t \<Rightarrow> ac_trie \<Rightarrow> ac_trie" where
  "add_sig k sig st =
     (case trie_walk (t_next st) (t_n st) 0 sig of (nx, n, s) \<Rightarrow>
        st\<lparr>t_next := nx, t_n := n, t_out := (t_out st)[s := t_out st ! s OR bit_at (cat_val k)]\<rparr>)"

fun add_sigs :: "ngx_http_shield_cat_e \<Rightarrow> ngx_http_shield_sig_t list \<Rightarrow> ac_trie \<Rightarrow> ac_trie" where
  "add_sigs k [] st = st"
| "add_sigs k (sig # sigs) st = add_sigs k sigs (add_sig k sig st)"

fun add_cats :: "u64 \<Rightarrow> ngx_http_shield_catdef_t list \<Rightarrow> ac_trie \<Rightarrow> ac_trie" where
  "add_cats m [] st = st"
| "add_cats m (c # cs) st =
     add_cats m cs (if cat_selected m c then add_sigs (cd_cat c) (cd_sigs c) st else st)"

text \<open>Pass 1b: rule terms, numbered across all rules whether selected or not.\<close>

definition add_term :: "nat \<Rightarrow> ngx_http_shield_sig_t \<Rightarrow> ac_trie \<Rightarrow> ac_trie" where
  "add_term term t st =
     (case trie_walk (t_next st) (t_n st) 0 t of (nx, n, s) \<Rightarrow>
        st\<lparr>t_next := nx, t_n := n, t_rout := (t_rout st)[s := t_rout st ! s OR bit_at term]\<rparr>)"

fun add_terms :: "bool \<Rightarrow> nat \<Rightarrow> ngx_http_shield_sig_t list \<Rightarrow> u64 \<Rightarrow> ac_trie \<Rightarrow> u64 \<times> ac_trie" where
  "add_terms sel term [] need st = (need, st)"
| "add_terms sel term (t # ts) need st =
     (if sel then add_terms sel (term + 1) ts (need OR bit_at term) (add_term term t st)
      else add_terms sel (term + 1) ts need st)"

fun add_rules :: "u64 \<Rightarrow> nat \<Rightarrow> ngx_http_shield_ruledef_t list \<Rightarrow> ac_trie \<Rightarrow> u64 list \<times> ac_trie" where
  "add_rules m term [] st = ([], st)"
| "add_rules m term (r # rs) st =
     (case add_terms (rule_selected m r) term (rd_terms r) 0 st of (need, st1) \<Rightarrow>
      case add_rules m (term + length (rd_terms r)) rs st1 of (needs, st2) \<Rightarrow> (need # needs, st2))"

section \<open>Pass 2: breadth-first fail links\<close>

text \<open>\<open>b_queue\<close> holds \<open>queue[0 .. tail - 1]\<close>, so its length is \<open>tail\<close>.\<close>

record ac_bfs = ac_trie +
  b_fail :: "nat list"
  b_queue :: "nat list"
  b_head :: nat

fun bfs_seed :: "nat list \<Rightarrow> nat list \<Rightarrow> nat list" where
  "bfs_seed nx [] = []"
| "bfs_seed nx (b # bs) = (if nx ! b \<noteq> 0 then nx ! b # bfs_seed nx bs else bfs_seed nx bs)"

text \<open>One iteration of the inner loop, for the byte value \<open>b\<close> at state \<open>s\<close>.\<close>

definition bfs_edge :: "nat \<Rightarrow> nat \<Rightarrow> ac_bfs \<Rightarrow> ac_bfs" where
  "bfs_edge s b st =
     (let v = t_next st ! (s * AC_ALPHABET + b);
          f = t_next st ! ((b_fail st ! s) * AC_ALPHABET + b)
      in if v = 0 then st\<lparr>t_next := (t_next st)[s * AC_ALPHABET + b := f]\<rparr>
         else st\<lparr>b_fail := (b_fail st)[v := f],
                 t_out := (t_out st)[v := t_out st ! v OR t_out st ! f],
                 t_rout := (t_rout st)[v := t_rout st ! v OR t_rout st ! f],
                 b_queue := b_queue st @ [v]\<rparr>)"

fun bfs_row :: "nat \<Rightarrow> nat list \<Rightarrow> ac_bfs \<Rightarrow> ac_bfs" where
  "bfs_row s [] st = st"
| "bfs_row s (b # bs) st = bfs_row s bs (bfs_edge s b st)"

text \<open>
  The \<open>while (head < tail)\<close> loop.  Every dequeued state is a different trie state, so the size
  bound of the table is enough fuel; running out is the value \<open>None\<close>, shown never to occur.
\<close>

fun bfs_loop :: "nat \<Rightarrow> ac_bfs \<Rightarrow> ac_bfs option" where
  "bfs_loop fuel st =
     (if b_head st < length (b_queue st)
      then (case fuel of 0 \<Rightarrow> None
            | Suc fuel' \<Rightarrow> bfs_loop fuel'
                (bfs_row (b_queue st ! b_head st) [0..<AC_ALPHABET] (st\<lparr>b_head := b_head st + 1\<rparr>)))
      else Some st)"

declare bfs_loop.simps [simp del]

definition bfs_start :: "nat \<Rightarrow> ac_trie \<Rightarrow> ac_bfs" where
  "bfs_start cap t =
     \<lparr>t_next = t_next t, t_out = t_out t, t_rout = t_rout t, t_n = t_n t,
      b_fail = replicate cap 0, b_queue = bfs_seed (t_next t) [0..<AC_ALPHABET], b_head = 0\<rparr>"

section \<open>The whole build\<close>

definition trie_start :: "nat \<Rightarrow> ac_trie" where
  "trie_start cap = \<lparr>t_next = replicate (cap * AC_ALPHABET) 0, t_out = replicate cap 0,
     t_rout = replicate cap 0, t_n = 1\<rparr>"

definition ngx_http_shield_ac_build :: "ngx_http_shield_catdef_t list \<Rightarrow> ngx_http_shield_ruledef_t list
    \<Rightarrow> ac_mem \<Rightarrow> u64 \<Rightarrow> ac_build_error + ngx_http_shield_ac_t" where
  "ngx_http_shield_ac_build cats rules mem m =
     (let cap = ac_cap cats rules m; term = ac_term_count rules in
      if term > 64 then Inl (AC_TOO_MANY_TERMS term)
      else if cap > AC_MAX_STATES then Inl (AC_TOO_LARGE cap)
      else if \<not> m_next mem \<or> \<not> m_out mem \<or> \<not> m_rout mem then Inl AC_NO_MEMORY
      else if \<not> m_temp mem then Inl AC_NO_MEMORY
      else if \<not> m_queue mem \<or> \<not> m_fail mem then Inl AC_NO_MEMORY
      else
        (let row = ac_rows cats rules m;
             t1 = add_cats m cats (trie_start cap)
         in case add_rules m 0 rules t1 of (need, t2) \<Rightarrow>
            (case bfs_loop cap (bfs_start cap t2) of
               None \<Rightarrow> Inl AC_NO_RESULT
             | Some st \<Rightarrow> Inr \<lparr>ac_next = t_next st, ac_out = t_out st, ac_nstates = t_n st,
                              ac_rout = t_rout st, ac_need = need, ac_row = row\<rparr>)))"

end
