(* ===== verification/Ac_Trie.thy ===== *)
theory Ac_Trie
  imports Ac_Build
begin

text \<open>
  What pass 1 of the build produces.  A trie is read through the list \<open>W\<close> of the strings its
  states stand for: state \<open>s\<close> stands for \<open>W ! s\<close>.  The theory gives the interface of the strings of
  a trie (a prefix-closed set, with the longest suffix of an input that lies in it) and shows that
  walking, adding signatures and adding rule terms keep a state list that represents the table.
\<close>

section \<open>Prefix-closed sets and longest suffixes\<close>

text \<open>The longest suffix of a string that lies in \<open>T\<close> (the empty string if no other does).\<close>

fun lsuf :: "'a list set \<Rightarrow> 'a list \<Rightarrow> 'a list" where
  "lsuf T [] = []"
| "lsuf T (a # u) = (if a # u \<in> T then a # u else lsuf T u)"

locale prefix_set =
  fixes T :: "'a list set"
  assumes Nil_in: "[] \<in> T"
    and closed: "u @ [b] \<in> T \<Longrightarrow> u \<in> T"
begin

lemma lsuf_in: "lsuf T u \<in> T"
  by (induction u) (auto simp: Nil_in)

lemma suffix_lsuf: "suffix (lsuf T u) u"
  by (induction u) (auto intro: suffix_ConsI)

lemma lsuf_self: "u \<in> T \<Longrightarrow> lsuf T u = u"
  by (cases u) auto

lemma lsuf_greatest: "suffix p u \<Longrightarrow> p \<in> T \<Longrightarrow> suffix p (lsuf T u)"
  by (induction u) (auto simp: suffix_Cons)

lemma lsuf_snoc: "lsuf T (u @ [b]) = lsuf T (lsuf T u @ [b])"
proof (induction u)
  case (Cons a u)
  show ?case
  proof (cases "a # u \<in> T")
    case False
    then have "a # u @ [b] \<notin> T" using closed [of "a # u" b] by auto
    with False Cons.IH show ?thesis by simp
  qed simp
qed simp

lemma suffix_lsuf_iff: "p \<in> T \<Longrightarrow> suffix p u \<longleftrightarrow> suffix p (lsuf T u)"
  using lsuf_greatest suffix_lsuf suffix_order.trans by blast

lemma lsuf_tl_snoc: "x \<noteq> [] \<Longrightarrow> lsuf T (tl (x @ [b])) = lsuf T (lsuf T (tl x) @ [b])"
  using lsuf_snoc [of "tl x" b] by simp

lemma lsuf_step: "x \<in> T \<Longrightarrow> x \<noteq> [] \<Longrightarrow> x @ [b] \<notin> T \<Longrightarrow> lsuf T (x @ [b]) = lsuf T (lsuf T (tl x) @ [b])"
  using lsuf_tl_snoc [of x b] by (cases x) auto

lemma length_lsuf_tl: "x \<noteq> [] \<Longrightarrow> length (lsuf T (tl x)) < length x"
  using suffix_length_le [OF suffix_lsuf [of "tl x"]] by (cases x) auto

lemma lsuf_snoc_cases:
  "lsuf T (u @ [b]) = [] \<or> (\<exists>x. lsuf T (u @ [b]) = x @ [b] \<and> suffix x u \<and> x \<in> T)"
proof (cases "lsuf T (u @ [b])" rule: rev_cases)
  case (snoc x c)
  have "suffix (x @ [c]) (u @ [b])" using suffix_lsuf [of "u @ [b]"] snoc by simp
  then have "c = b" and "suffix x u" by (auto simp: suffix_def)
  moreover have "x \<in> T" using lsuf_in [of "u @ [b]"] snoc closed by metis
  ultimately show ?thesis using snoc by blast
qed simp

text \<open>
  The strings of a set \<open>P\<close> of patterns that end where an input ends are those ending where its
  longest suffix ends: matching a longer input never needs more than the current state.
\<close>

lemma pattern_suffix_cases:
  assumes "x \<in> T" and "x \<noteq> []" and "p \<in> T"
  shows "suffix p x \<longleftrightarrow> p = x \<or> suffix p (lsuf T (tl x))"
proof -
  obtain a y where "x = a # y" using assms(2) by (cases x) auto
  then show ?thesis using suffix_lsuf_iff [OF assms(3), of y] by (auto simp: suffix_Cons)
qed

end

section \<open>States as strings\<close>

definition trie_rep :: "nat \<Rightarrow> bytes list \<Rightarrow> nat list \<Rightarrow> bool" where
  "trie_rep cap W nx \<longleftrightarrow>
     length nx = cap * 256 \<and> length W \<le> cap \<and> W \<noteq> [] \<and> W ! 0 = [] \<and> distinct W
     \<and> (\<forall>u b. u @ [b] \<in> set W \<longrightarrow> u \<in> set W)
     \<and> (\<forall>s < length W. \<forall>b. if nx ! (s * 256 + byte_val b) = 0 then W ! s @ [b] \<notin> set W
          else nx ! (s * 256 + byte_val b) < length W
               \<and> W ! (nx ! (s * 256 + byte_val b)) = W ! s @ [b])
     \<and> (\<forall>i. length W * 256 \<le> i \<and> i < cap * 256 \<longrightarrow> nx ! i = 0)"

lemma trie_repD:
  assumes "trie_rep cap W nx"
  shows "length nx = cap * 256" and "length W \<le> cap" and "0 < length W" and "W ! 0 = []"
    and "distinct W" and "u @ [b] \<in> set W \<Longrightarrow> u \<in> set W"
  using assms by (auto simp: trie_rep_def)

lemma trie_rep_prefix_set: "trie_rep cap W nx \<Longrightarrow> prefix_set (set W)"
proof unfold_locales
  assume rep: "trie_rep cap W nx"
  show "[] \<in> set W" using trie_repD(3,4) [OF rep] nth_mem by metis
  show "u @ [b] \<in> set W \<Longrightarrow> u \<in> set W" for u b by (rule trie_repD(6) [OF rep])
qed

lemma trie_rep_edge:
  assumes "trie_rep cap W nx" and "s < length W" and "nx ! (s * 256 + byte_val b) \<noteq> 0"
  shows "nx ! (s * 256 + byte_val b) < length W"
    and "W ! (nx ! (s * 256 + byte_val b)) = W ! s @ [b]"
  using assms by (auto simp: trie_rep_def split: if_splits)

lemma trie_rep_no_edge:
  assumes "trie_rep cap W nx" and "s < length W" and "nx ! (s * 256 + byte_val b) = 0"
  shows "W ! s @ [b] \<notin> set W"
  using assms by (auto simp: trie_rep_def split: if_splits)

lemma trie_rep_row_zero:
  "trie_rep cap W nx \<Longrightarrow> length W * 256 \<le> i \<Longrightarrow> i < cap * 256 \<Longrightarrow> nx ! i = 0"
  by (simp add: trie_rep_def)

lemma trie_rep_start:
  assumes "0 < cap"
  shows "trie_rep cap [[]] (replicate (cap * 256) 0)"
proof -
  have "byte_val b < cap * 256" for b
    using flat_index_less [of 0 cap "byte_val b"] assms by simp
  then show ?thesis using assms by (auto simp: trie_rep_def)
qed

lemma trie_repI:
  assumes "length nx = cap * 256" and "length W \<le> cap" and "W \<noteq> []" and "W ! 0 = []" and "distinct W"
    and "\<And>u b. u @ [b] \<in> set W \<Longrightarrow> u \<in> set W"
    and "\<And>s b. s < length W \<Longrightarrow> if nx ! (s * 256 + byte_val b) = 0 then W ! s @ [b] \<notin> set W
          else nx ! (s * 256 + byte_val b) < length W
               \<and> W ! (nx ! (s * 256 + byte_val b)) = W ! s @ [b]"
    and "\<And>i. length W * 256 \<le> i \<Longrightarrow> i < cap * 256 \<Longrightarrow> nx ! i = 0"
  shows "trie_rep cap W nx"
  unfolding trie_rep_def using assms by blast

text \<open>Creating one absent state.\<close>

lemma new_state_edge:
  assumes rep: "trie_rep cap W nx" and s: "s < length W" and cap: "length W < cap"
    and absent: "nx ! (s * 256 + byte_val b) = 0" and t: "t < length (W @ [W ! s @ [b]])"
  defines "W' \<equiv> W @ [W ! s @ [b]]" and "nx' \<equiv> nx[s * 256 + byte_val b := length W]"
  shows "if nx' ! (t * 256 + byte_val c) = 0 then W' ! t @ [c] \<notin> set W'
    else nx' ! (t * 256 + byte_val c) < length W' \<and> W' ! (nx' ! (t * 256 + byte_val c)) = W' ! t @ [c]"
proof -
  let ?i = "s * 256 + byte_val b" and ?n = "length W" and ?j = "t * 256 + byte_val c"
  note D = trie_repD [OF rep]
  have i: "?i < cap * 256" using flat_index_less [of s cap "byte_val b"] s cap by simp
  consider "t = ?n" | "t < ?n" "t = s" "c = b" | "t < ?n" "\<not> (t = s \<and> c = b)" using t by fastforce
  then show ?thesis
  proof cases
    case 1
    have j: "?j < cap * 256" using flat_index_less [of t cap "byte_val c"] 1 cap by simp
    have "?j \<noteq> ?i" using 1 s by (auto simp: flat_simps)
    then have "nx' ! ?j = 0" using trie_rep_row_zero [OF rep _ j] 1 by (simp add: nx'_def)
    moreover have "W' ! t @ [c] \<notin> set W" using D(6) trie_rep_no_edge [OF rep s absent] 1 by (auto simp: W'_def)
    moreover have "W' ! t @ [c] \<noteq> W ! s @ [b]" using 1 by (auto simp: W'_def)
    ultimately show ?thesis using 1 by (simp add: W'_def)
  next
    case 2
    then show ?thesis using i D(1,3) s by (simp add: nth_append W'_def nx'_def)
  next
    case 3
    then have ne: "?j \<noteq> ?i" by (auto simp: flat_simps)
    have diff: "W ! t @ [c] \<noteq> W ! s @ [b]" using 3 D(5) s by (auto simp: nth_eq_iff_index_eq)
    show ?thesis using trie_rep_no_edge [OF rep 3(1)] trie_rep_edge [OF rep 3(1)] diff ne 3(1)
      by (cases "nx ! ?j = 0") (auto simp: nth_append W'_def nx'_def intro: less_SucI)
  qed
qed

lemma trie_rep_new_state:
  assumes rep: "trie_rep cap W nx" and s: "s < length W" and cap: "length W < cap"
    and absent: "nx ! (s * 256 + byte_val b) = 0"
  shows "trie_rep cap (W @ [W ! s @ [b]]) (nx[s * 256 + byte_val b := length W])"
    (is "trie_rep cap ?W ?nx")
proof (rule trie_repI)
  note D = trie_repD [OF rep]
  have fresh: "W ! s @ [b] \<notin> set W" by (rule trie_rep_no_edge [OF rep s absent])
  show "?nx ! j = 0" if "length ?W * 256 \<le> j" "j < cap * 256" for j
  proof -
    have "s * 256 + byte_val b < length W * 256" using flat_index_less [of s "length W" "byte_val b"] s by simp
    then have "s * 256 + byte_val b \<noteq> j" using that by simp
    then show ?thesis using trie_rep_row_zero [OF rep _ that(2)] that by simp
  qed
  show "u \<in> set ?W" if "u @ [c] \<in> set ?W" for u c
    using that D(6) nth_mem [OF s] by auto
  show "length ?nx = cap * 256" using D(1) by simp
  show "?W ! 0 = []" using D(3,4) by (simp add: nth_append)
  show "distinct ?W" using D(5) fresh by simp
  show "length ?W \<le> cap" using cap by simp
  show "?W \<noteq> []" by simp
qed (rule new_state_edge [OF rep s cap absent])

lemma trie_walk_rep:
  assumes "trie_rep cap W nx" and "s < length W" and "length W + length bs \<le> cap"
    and "cap \<le> 65535"
    and "trie_walk nx (length W) s bs = (nx', n', s')"
  shows "\<exists>W'. prefix W W' \<and> length W' = n' \<and> trie_rep cap W' nx' \<and> s' < n'
           \<and> W' ! s' = W ! s @ bs \<and> n' \<le> length W + length bs"
  using assms
proof (induction bs arbitrary: W nx s)
  case Nil
  then show ?case by auto
next
  case (Cons b bs)
  let ?i = "s * 256 + byte_val b"
  note rep = Cons.prems(1) and s = Cons.prems(2)
  have i: "?i < cap * 256"
    using flat_index_less [of s cap "byte_val b"] s trie_repD(2) [OF rep] by simp
  show ?case
  proof (cases "nx ! ?i = 0")
    case True
    let ?W = "W @ [W ! s @ [b]]" and ?nx = "nx[?i := length W]"
    have st: "ac_state (length W) = length W" using Cons.prems(3,4) by (simp add: ac_state_def)
    have rep': "trie_rep cap ?W ?nx"
      using trie_rep_new_state [OF rep s _ True] Cons.prems(3) by simp
    have eq: "trie_walk ?nx (length ?W) (length W) bs = (nx', n', s')"
      using Cons.prems(5) True st i trie_repD(1) [OF rep] by (simp add: AC_ALPHABET_def)
    obtain W' where "prefix ?W W'" "length W' = n'" "trie_rep cap W' nx'" "s' < n'"
        "W' ! s' = ?W ! length W @ bs" "n' \<le> length ?W + length bs"
      using Cons.IH [OF rep' _ _ Cons.prems(4) eq] Cons.prems(3) by auto
    then show ?thesis using append_prefixD [of W "[W ! s @ [b]]" W'] by (intro exI [of _ W']) auto
  next
    case False
    note e = trie_rep_edge [OF rep s False]
    have eq: "trie_walk nx (length W) (nx ! ?i) bs = (nx', n', s')"
      using Cons.prems(5) False by (simp add: AC_ALPHABET_def)
    show ?thesis using Cons.IH [OF rep e(1) _ Cons.prems(4) eq] Cons.prems(3) e(2) by auto
  qed
qed

section \<open>Tables as sets of marked strings\<close>

text \<open>
  \<open>ac_rep\<close> relates a pass-1 state to the marks put on strings so far: \<open>P\<close> holds a pair of a
  category bit and a signature for every accepted signature, \<open>R\<close> a pair of a term id and a term.
\<close>

definition marks :: "bytes list \<Rightarrow> u64 list \<Rightarrow> (nat \<times> bytes) set \<Rightarrow> bool" where
  "marks W ws P \<longleftrightarrow> (\<forall>s < length W. \<forall>k. bit (ws ! s) k \<longleftrightarrow> (k, W ! s) \<in> P)
     \<and> (\<forall>s. length W \<le> s \<and> s < length ws \<longrightarrow> ws ! s = 0) \<and> snd ` P \<subseteq> set W"

definition ac_rep :: "nat \<Rightarrow> bytes list \<Rightarrow> (nat \<times> bytes) set \<Rightarrow> (nat \<times> bytes) set \<Rightarrow> ac_trie \<Rightarrow> bool" where
  "ac_rep cap W P R st \<longleftrightarrow> trie_rep cap W (t_next st) \<and> t_n st = length W
     \<and> length (t_out st) = cap \<and> length (t_rout st) = cap
     \<and> marks W (t_out st) P \<and> marks W (t_rout st) R"

lemma marks_extend:
  assumes m: "marks W ws P" and pre: "prefix W W'" and d: "distinct W'" and len: "length W' \<le> length ws"
  shows "marks W' ws P"
proof -
  obtain V where V: "W' = W @ V" using pre by (auto simp: prefix_def)
  have "bit (ws ! s) k \<longleftrightarrow> (k, W' ! s) \<in> P" if s: "s < length W'" for s k
  proof (cases "s < length W")
    case True
    then show ?thesis using m V by (simp add: marks_def nth_append)
  next
    case False
    then have "W' ! s \<in> set V" using s V by (simp add: nth_append)
    then have "W' ! s \<notin> set W" using d V by auto
    then have "(k, W' ! s) \<notin> P" using m by (force simp: marks_def)
    moreover have "ws ! s = 0" using False s len m by (auto simp: marks_def)
    ultimately show ?thesis by simp
  qed
  then show ?thesis using m V by (auto simp: marks_def)
qed

lemma marks_add:
  assumes m: "marks W ws P" and d: "distinct W" and s: "s < length W" and len: "length W \<le> length ws"
    and k: "k < 64"
  shows "marks W (ws[s := ws ! s OR bit_at k]) (insert (k, W ! s) P)"
proof -
  have "bit (ws[s := ws ! s OR bit_at k] ! t) j \<longleftrightarrow> (j, W ! t) \<in> insert (k, W ! s) P"
    if t: "t < length W" for t j
  proof (cases "t = s")
    case True
    then show ?thesis using m s len k by (auto simp: marks_def mask_simps)
  next
    case False
    then have "W ! t \<noteq> W ! s" using d t s by (simp add: nth_eq_iff_index_eq)
    then show ?thesis using m t False by (simp add: marks_def)
  qed
  then show ?thesis using m s by (auto simp: marks_def)
qed

lemma cat_val_less_30: "cat_val k < 30"
  by (cases k) simp_all

lemma cat_val_less [simp]: "cat_val k < 64"
  using cat_val_less_30 [of k] by simp

lemma ac_rep_walk:
  assumes "ac_rep cap W P R st" and "length W + length p \<le> cap" and "cap \<le> 65535"
    and "trie_walk (t_next st) (t_n st) 0 p = (nx, n, s)"
  shows "\<exists>W'. ac_rep cap W' P R (st\<lparr>t_next := nx, t_n := n\<rparr>) \<and> prefix W W' \<and> s < length W'
           \<and> W' ! s = p \<and> length W' \<le> length W + length p"
proof -
  have rep: "trie_rep cap W (t_next st)" and n: "t_n st = length W"
    using assms(1) by (auto simp: ac_rep_def)
  from trie_walk_rep [OF rep trie_repD(3) [OF rep] assms(2,3)] assms(4) n trie_repD(4) [OF rep]
  obtain W' where W': "prefix W W'" "length W' = n" "trie_rep cap W' nx" "s < n" "W' ! s = p"
      "n \<le> length W + length p" by auto
  have d: "distinct W'" and le: "length W' \<le> cap" using trie_repD(2,5) [OF W'(3)] by auto
  have "ac_rep cap W' P R (st\<lparr>t_next := nx, t_n := n\<rparr>)"
    using assms(1) W' d le by (auto simp: ac_rep_def intro: marks_extend)
  then show ?thesis using W' by blast
qed

lemma add_sig_rep:
  assumes "ac_rep cap W P R st" and "length W + length sig \<le> cap" and "cap \<le> 65535"
  shows "\<exists>W'. ac_rep cap W' (insert (cat_val k, sig) P) R (add_sig k sig st)
           \<and> length W' \<le> length W + length sig"
proof -
  obtain nx n s where w: "trie_walk (t_next st) (t_n st) 0 sig = (nx, n, s)" by (metis prod_cases3)
  from ac_rep_walk [OF assms w] obtain W' where
    W': "ac_rep cap W' P R (st\<lparr>t_next := nx, t_n := n\<rparr>)" "s < length W'" "W' ! s = sig"
      "length W' \<le> length W + length sig" by auto
  then have "trie_rep cap W' nx" by (simp add: ac_rep_def)
  then have "distinct W'" and "length W' \<le> cap" using trie_repD(2,5) by auto
  with W' show ?thesis
    using marks_add [of W' "t_out st" P s "cat_val k"]
    by (intro exI [of _ W']) (auto simp: ac_rep_def add_sig_def w)
qed

lemma add_term_rep:
  assumes "ac_rep cap W P R st" and "length W + length t \<le> cap" and "cap \<le> 65535" and "i < 64"
  shows "\<exists>W'. ac_rep cap W' P (insert (i, t) R) (add_term i t st)
           \<and> length W' \<le> length W + length t"
proof -
  obtain nx n s where w: "trie_walk (t_next st) (t_n st) 0 t = (nx, n, s)" by (metis prod_cases3)
  from ac_rep_walk [OF assms(1,2,3) w] obtain W' where
    W': "ac_rep cap W' P R (st\<lparr>t_next := nx, t_n := n\<rparr>)" "s < length W'" "W' ! s = t"
      "length W' \<le> length W + length t" by auto
  then have "trie_rep cap W' nx" by (simp add: ac_rep_def)
  then have "distinct W'" and "length W' \<le> cap" using trie_repD(2,5) by auto
  with W' show ?thesis
    using marks_add [of W' "t_rout st" R s i] assms(4)
    by (intro exI [of _ W']) (auto simp: ac_rep_def add_term_def w)
qed

section \<open>The whole table\<close>

definition sig_marks :: "u64 \<Rightarrow> ngx_http_shield_catdef_t list \<Rightarrow> (nat \<times> bytes) set" where
  "sig_marks m cats = {(cat_val (cd_cat c), p) | c p. c \<in> set cats \<and> cat_selected m c \<and> p \<in> set (cd_sigs c)}"

fun term_marks :: "u64 \<Rightarrow> nat \<Rightarrow> ngx_http_shield_ruledef_t list \<Rightarrow> (nat \<times> bytes) set" where
  "term_marks m i [] = {}"
| "term_marks m i (r # rs) =
     (if rule_selected m r then set (zip [i..<i + length (rd_terms r)] (rd_terms r)) else {})
     \<union> term_marks m (i + length (rd_terms r)) rs"

fun rule_needs :: "u64 \<Rightarrow> nat \<Rightarrow> ngx_http_shield_ruledef_t list \<Rightarrow> nat set list" where
  "rule_needs m i [] = []"
| "rule_needs m i (r # rs) =
     (if rule_selected m r then {i..<i + length (rd_terms r)} else {})
     # rule_needs m (i + length (rd_terms r)) rs"

lemma length_rule_needs: "length (rule_needs m i rs) = length rs"
  by (induction rs arbitrary: i) auto

lemma sig_marks_Nil [simp]: "sig_marks m [] = {}"
  by (simp add: sig_marks_def)

lemma sig_marks_Cons:
  "sig_marks m (c # cs) =
     (if cat_selected m c then {cat_val (cd_cat c)} \<times> set (cd_sigs c) else {}) \<union> sig_marks m cs"
  by (auto simp: sig_marks_def)

lemma add_sigs_rep:
  assumes "ac_rep cap W P R st" and "length W + sum_list (map length sigs) \<le> cap" and "cap \<le> 65535"
  shows "\<exists>W'. ac_rep cap W' (P \<union> {cat_val k} \<times> set sigs) R (add_sigs k sigs st)
           \<and> length W' \<le> length W + sum_list (map length sigs)"
  using assms
proof (induction sigs arbitrary: W P st)
  case (Cons p sigs)
  obtain W1 where W1: "ac_rep cap W1 (insert (cat_val k, p) P) R (add_sig k p st)"
      "length W1 \<le> length W + length p"
    using add_sig_rep [OF Cons.prems(1) _ Cons.prems(3), of p k] Cons.prems(2) by auto
  obtain W2 where W2: "ac_rep cap W2 (insert (cat_val k, p) P \<union> {cat_val k} \<times> set sigs) R
        (add_sigs k sigs (add_sig k p st))" "length W2 \<le> length W1 + sum_list (map length sigs)"
    using Cons.IH [OF W1(1) _ Cons.prems(3)] Cons.prems(2) W1(2) by auto
  have "insert (cat_val k, p) P \<union> {cat_val k} \<times> set sigs = P \<union> {cat_val k} \<times> set (p # sigs)" by auto
  with W1 W2 show ?case by (intro exI [of _ W2]) auto
qed auto

lemma add_cats_rep:
  assumes "ac_rep cap W P R st" and "cap \<le> 65535"
    and "length W + sum_list (map (\<lambda>c. if cat_selected m c then sum_list (map length (cd_sigs c)) else 0) cats) \<le> cap"
  shows "\<exists>W'. ac_rep cap W' (P \<union> sig_marks m cats) R (add_cats m cats st)
           \<and> length W' \<le> length W + sum_list (map (\<lambda>c. if cat_selected m c then sum_list (map length (cd_sigs c)) else 0) cats)"
  using assms
proof (induction cats arbitrary: W P st)
  case (Cons c cs)
  show ?case
  proof (cases "cat_selected m c")
    case True
    obtain W1 where W1: "ac_rep cap W1 (P \<union> {cat_val (cd_cat c)} \<times> set (cd_sigs c)) R (add_sigs (cd_cat c) (cd_sigs c) st)"
        "length W1 \<le> length W + sum_list (map length (cd_sigs c))"
      using add_sigs_rep [OF Cons.prems(1) _ Cons.prems(2), of "cd_sigs c" "cd_cat c"] Cons.prems(3) True by auto
    show ?thesis using Cons.IH [OF W1(1) Cons.prems(2)] Cons.prems(3) W1(2) True
      by (fastforce simp: sig_marks_Cons Un_assoc)
  next
    case False
    then show ?thesis using Cons.IH [OF Cons.prems(1,2)] Cons.prems(3) by (simp add: sig_marks_Cons)
  qed
qed auto

lemma add_terms_unselected: "add_terms False i ts need st = (need, st)"
  by (induction ts arbitrary: i) auto

lemma add_terms_rep:
  assumes "ac_rep cap W P R st" and "length W + sum_list (map length ts) \<le> cap" and "cap \<le> 65535"
    and "i + length ts \<le> 64"
  shows "\<exists>W' st' nd. add_terms True i ts need st = (nd, st')
           \<and> ac_rep cap W' P (R \<union> set (zip [i..<i + length ts] ts)) st'
           \<and> length W' \<le> length W + sum_list (map length ts)
           \<and> (\<forall>k. bit nd k \<longleftrightarrow> bit need k \<or> k \<in> {i..<i + length ts})"
  using assms
proof (induction ts arbitrary: i need W R st)
  case (Cons t ts)
  obtain W1 where W1: "ac_rep cap W1 P (insert (i, t) R) (add_term i t st)" "length W1 \<le> length W + length t"
    using add_term_rep [OF Cons.prems(1) _ Cons.prems(3), of t i] Cons.prems(2,4) by auto
  obtain W2 st' nd where R2: "add_terms True (i + 1) ts (need OR bit_at i) (add_term i t st) = (nd, st')"
      "ac_rep cap W2 P (insert (i, t) R \<union> set (zip [i + 1..<i + 1 + length ts] ts)) st'"
      "length W2 \<le> length W1 + sum_list (map length ts)"
      "\<forall>k. bit nd k \<longleftrightarrow> bit (need OR bit_at i) k \<or> k \<in> {i + 1..<i + 1 + length ts}"
    using Cons.IH [OF W1(1), where need = "need OR bit_at i" and i = "i + 1"] Cons.prems(2,3,4) W1(2) by auto
  have up: "[i..<i + length (t # ts)] = i # [i + 1..<i + 1 + length ts]" by (simp add: upt_rec)
  have "insert (i, t) R \<union> set (zip [i + 1..<i + 1 + length ts] ts)
      = R \<union> set (zip [i..<i + length (t # ts)] (t # ts))" by (simp only: up) auto
  moreover have "bit nd k \<longleftrightarrow> bit need k \<or> k \<in> {i..<i + length (t # ts)}" for k
  proof -
    have "bit nd k \<longleftrightarrow> bit need k \<or> k = i \<or> k \<in> {i + 1..<i + 1 + length ts}"
      using spec [OF R2(4), of k] Cons.prems(4) by (simp add: mask_simps)
    then show ?thesis by auto
  qed
  moreover have "add_terms True i (t # ts) need st = (nd, st')" using R2(1) by simp
  moreover have "length W2 \<le> length W + sum_list (map length (t # ts))" using R2(3) W1(2) by simp
  ultimately show ?case using R2(2) by metis
qed auto

lemma add_rules_rep:
  assumes "ac_rep cap W P R st" and "cap \<le> 65535" and "i + ac_term_count rules \<le> 64"
    and "length W + sum_list (map (\<lambda>r. if rule_selected m r then sum_list (map length (rd_terms r)) else 0) rules) \<le> cap"
  shows "\<exists>W' st' nds. add_rules m i rules st = (nds, st') \<and> ac_rep cap W' P (R \<union> term_marks m i rules) st'
           \<and> map (\<lambda>w. {k. bit w k}) nds = rule_needs m i rules"
  using assms
proof (induction rules arbitrary: i W R st)
  case (Cons r rs)
  let ?i = "i + length (rd_terms r)"
  have cnt: "?i + ac_term_count rs \<le> 64" and i64: "?i \<le> 64"
    using Cons.prems(3) by (auto simp: ac_term_count_def)
  show ?case
  proof (cases "rule_selected m r")
    case True
    obtain W1 st1 nd where S1: "add_terms True i (rd_terms r) 0 st = (nd, st1)"
        "ac_rep cap W1 P (R \<union> set (zip [i..<?i] (rd_terms r))) st1"
        "length W1 \<le> length W + sum_list (map length (rd_terms r))"
        "\<forall>k. bit nd k \<longleftrightarrow> bit (0 :: u64) k \<or> k \<in> {i..<?i}"
      using add_terms_rep [OF Cons.prems(1) _ Cons.prems(2) i64, of 0] Cons.prems(4) True by auto
    have le: "length W1 + sum_list (map (\<lambda>r. if rule_selected m r then sum_list (map length (rd_terms r)) else 0) rs) \<le> cap"
      using Cons.prems(4) S1(3) True by simp
    obtain W2 st2 nds where S2: "add_rules m ?i rs st1 = (nds, st2)"
        "ac_rep cap W2 P (R \<union> set (zip [i..<?i] (rd_terms r)) \<union> term_marks m ?i rs) st2"
        "map (\<lambda>w. {k. bit w k}) nds = rule_needs m ?i rs"
      using Cons.IH [OF S1(2) Cons.prems(2) cnt le] by blast
    have "{k. bit nd k} = {i..<?i}"
      by (rule set_eqI) (simp only: mem_Collect_eq spec [OF S1(4)] bit_0_eq bot_apply bot_bool_def simp_thms)
    then show ?thesis using True S1(1,2,3) S2 by (intro exI [of _ W2]) (simp add: Un_assoc)
  next
    case False
    have le: "length W + sum_list (map (\<lambda>r. if rule_selected m r then sum_list (map length (rd_terms r)) else 0) rs) \<le> cap"
      using Cons.prems(4) False by simp
    obtain W2 st2 nds where S2: "add_rules m ?i rs st = (nds, st2)"
        "ac_rep cap W2 P (R \<union> term_marks m ?i rs) st2"
        "map (\<lambda>w. {k. bit w k}) nds = rule_needs m ?i rs"
      using Cons.IH [OF Cons.prems(1,2) cnt le] by blast
    then show ?thesis using False
      by (intro exI [of _ W2]) (simp add: add_terms_unselected)
  qed
qed auto

lemma ac_rep_start: "0 < cap \<Longrightarrow> ac_rep cap [[]] {} {} (trie_start cap)"
  using trie_rep_start [of cap]
  by (auto simp: ac_rep_def trie_start_def AC_ALPHABET_def marks_def)

text \<open>Pass 1 as a whole: the trie represents every selected signature and every selected term.\<close>

lemma pass1_rep:
  assumes "ac_term_count rules \<le> 64" and "ac_cap cats rules m \<le> 65535"
  shows "\<exists>W st nds. add_rules m 0 rules (add_cats m cats (trie_start (ac_cap cats rules m))) = (nds, st)
           \<and> ac_rep (ac_cap cats rules m) W (sig_marks m cats) (term_marks m 0 rules) st
           \<and> map (\<lambda>w. {k. bit w k}) nds = rule_needs m 0 rules"
proof -
  let ?cap = "ac_cap cats rules m"
  obtain W1 where W1: "ac_rep ?cap W1 (sig_marks m cats) {} (add_cats m cats (trie_start ?cap))"
      "length W1 \<le> 1 + sum_list (map (\<lambda>c. if cat_selected m c then sum_list (map length (cd_sigs c)) else 0) cats)"
    using add_cats_rep [OF ac_rep_start assms(2), of m cats] by (auto simp: ac_cap_def)
  then show ?thesis
    using add_rules_rep [OF W1(1) assms(2), of 0 rules m] assms(1) by (auto simp: ac_cap_def)
qed

end
