(* ===== verification/Ac_Bfs.thy ===== *)
theory Ac_Bfs
  imports Ac_Trie
begin

text \<open>
  Pass 2 of the build.  The invariant of the breadth-first loop is stated over the set \<open>D\<close> of the
  edges already resolved: a resolved edge of the goto table leads to the state of the longest
  suffix in the trie, an enqueued state has its final fail link and its final masks, and the queue
  is sorted by depth.  The loop ends within the fuel and leaves every edge resolved.
\<close>

section \<open>The invariant\<close>

definition edge_ok :: "bytes list \<Rightarrow> nat list \<Rightarrow> nat \<Rightarrow> byte \<Rightarrow> bool" where
  "edge_ok W nx s c \<longleftrightarrow> nx ! (s * 256 + byte_val c) < length W
     \<and> W ! (nx ! (s * 256 + byte_val c)) = lsuf (set W) (W ! s @ [c])"

definition mask_ok :: "(nat \<times> bytes) set \<Rightarrow> u64 \<Rightarrow> bytes \<Rightarrow> bool" where
  "mask_ok P w x \<longleftrightarrow> (\<forall>k. bit w k \<longleftrightarrow> (\<exists>p. (k, p) \<in> P \<and> suffix p x))"

definition mask_init :: "(nat \<times> bytes) set \<Rightarrow> u64 \<Rightarrow> bytes \<Rightarrow> bool" where
  "mask_init P w x \<longleftrightarrow> (\<forall>k. bit w k \<longleftrightarrow> (k, x) \<in> P)"

definition sizes_ok :: "nat \<Rightarrow> bytes list \<Rightarrow> ac_bfs \<Rightarrow> bool" where
  "sizes_ok cap W st \<longleftrightarrow> length (t_next st) = cap * 256 \<and> length (t_out st) = cap
     \<and> length (t_rout st) = cap \<and> length (b_fail st) = cap \<and> t_n st = length W
     \<and> distinct (b_queue st) \<and> (\<forall>v \<in> set (b_queue st). 0 < v \<and> v < length W)
     \<and> sorted (map (\<lambda>v. length (W ! v)) (b_queue st))"

definition edges_inv :: "bytes list \<Rightarrow> nat list \<Rightarrow> (nat \<times> byte) set \<Rightarrow> ac_bfs \<Rightarrow> bool" where
  "edges_inv W nx0 D st \<longleftrightarrow> (\<forall>s < length W. \<forall>c.
     if (s, c) \<in> D then edge_ok W (t_next st) s c
     else t_next st ! (s * 256 + byte_val c) = nx0 ! (s * 256 + byte_val c))"

definition nodes_inv :: "bytes list \<Rightarrow> (nat \<times> bytes) set \<Rightarrow> (nat \<times> bytes) set \<Rightarrow> ac_bfs \<Rightarrow> bool" where
  "nodes_inv W P R st \<longleftrightarrow> (\<forall>v < length W.
     if v \<in> set (b_queue st)
     then b_fail st ! v < length W \<and> W ! (b_fail st ! v) = lsuf (set W) (tl (W ! v))
          \<and> mask_ok P (t_out st ! v) (W ! v) \<and> mask_ok R (t_rout st ! v) (W ! v)
     else mask_init P (t_out st ! v) (W ! v) \<and> mask_init R (t_rout st ! v) (W ! v))"

definition children_inv :: "bytes list \<Rightarrow> (nat \<times> byte) set \<Rightarrow> ac_bfs \<Rightarrow> bool" where
  "children_inv W D st \<longleftrightarrow> (\<forall>s < length W. \<forall>c. \<forall>v < length W.
     W ! v = W ! s @ [c] \<longrightarrow> (v \<in> set (b_queue st) \<longleftrightarrow> (s, c) \<in> D))"

definition bfs_inv :: "nat \<Rightarrow> bytes list \<Rightarrow> (nat \<times> bytes) set \<Rightarrow> (nat \<times> bytes) set \<Rightarrow> nat list
    \<Rightarrow> (nat \<times> byte) set \<Rightarrow> ac_bfs \<Rightarrow> bool" where
  "bfs_inv cap W P R nx0 D st \<longleftrightarrow>
     sizes_ok cap W st \<and> edges_inv W nx0 D st \<and> nodes_inv W P R st \<and> children_inv W D st"

text \<open>What pass 1 gives: a trie whose marked strings are non-empty and lie in it.\<close>

definition table_ok :: "nat \<Rightarrow> bytes list \<Rightarrow> (nat \<times> bytes) set \<Rightarrow> (nat \<times> bytes) set \<Rightarrow> nat list \<Rightarrow> bool" where
  "table_ok cap W P R nx0 \<longleftrightarrow> trie_rep cap W nx0 \<and> snd ` P \<subseteq> set W \<and> snd ` R \<subseteq> set W
     \<and> [] \<notin> snd ` P \<and> [] \<notin> snd ` R"

lemma table_ok_rep: "table_ok cap W P R nx0 \<Longrightarrow> trie_rep cap W nx0"
  by (simp add: table_ok_def)

lemma table_ok_prefix_set: "table_ok cap W P R nx0 \<Longrightarrow> prefix_set (set W)"
  by (rule trie_rep_prefix_set [OF table_ok_rep])

lemma state_nonempty:
  "trie_rep cap W nx \<Longrightarrow> s < length W \<Longrightarrow> s \<noteq> 0 \<Longrightarrow> W ! s \<noteq> []"
  using trie_repD(3,4,5) [of cap W nx] by (metis nth_eq_iff_index_eq)

lemma state_unique:
  "trie_rep cap W nx \<Longrightarrow> s < length W \<Longrightarrow> t < length W \<Longrightarrow> W ! s = W ! t \<longleftrightarrow> s = t"
  using trie_repD(5) [of cap W nx] by (simp add: nth_eq_iff_index_eq)

lemma state_of: "x \<in> set W \<Longrightarrow> \<exists>s < length W. W ! s = x"
  by (auto simp: in_set_conv_nth)

lemma mask_init_root: "[] \<notin> snd ` P \<Longrightarrow> mask_init P w [] \<Longrightarrow> mask_ok P w []"
  by (force simp: mask_init_def mask_ok_def)

lemma mask_ok_union:
  assumes "prefix_set (set W)" and "snd ` P \<subseteq> set W" and "x \<in> set W" and "x \<noteq> []"
    and "mask_init P w x" and "mask_ok P v (lsuf (set W) (tl x))"
  shows "mask_ok P (w OR v) x"
proof -
  have "(\<exists>p. (k, p) \<in> P \<and> suffix p x) \<longleftrightarrow> (k, x) \<in> P \<or> (\<exists>p. (k, p) \<in> P \<and> suffix p (lsuf (set W) (tl x)))"
    for k
  proof -
    have "suffix p x \<longleftrightarrow> p = x \<or> suffix p (lsuf (set W) (tl x))" if "(k, p) \<in> P" for p
      using prefix_set.pattern_suffix_cases [OF assms(1,3,4), of p] that assms(2) by force
    then show ?thesis by blast
  qed
  then show ?thesis using assms(5,6) by (simp add: mask_ok_def mask_init_def mask_simps)
qed

section \<open>One edge\<close>

text \<open>The state a missing edge falls back to is already final when the edge is processed.\<close>

lemma fallback_final:
  fixes c :: byte
  assumes tab: "table_ok cap W P R nx0" and inv: "bfs_inv cap W P R nx0 D st"
    and s: "s \<in> set (b_queue st)"
    and lower: "\<And>s' d. s' < length W \<Longrightarrow> length (W ! s') < length (W ! s) \<Longrightarrow> (s', d) \<in> D"
  defines "f \<equiv> t_next st ! ((b_fail st ! s) * 256 + byte_val c)"
  shows "f < length W" and "W ! f = lsuf (set W) (tl (W ! s @ [c]))"
    and "f \<noteq> 0 \<Longrightarrow> f \<in> set (b_queue st)"
    and "mask_ok P (t_out st ! f) (W ! f)" and "mask_ok R (t_rout st ! f) (W ! f)"
proof -
  note rep = table_ok_rep [OF tab] and ps = table_ok_prefix_set [OF tab]
  let ?g = "b_fail st ! s" and ?x = "W ! s"
  have sn: "s < length W" and s0: "s \<noteq> 0" using inv s by (auto simp: bfs_inv_def sizes_ok_def)
  have x: "?x \<noteq> []" by (rule state_nonempty [OF rep sn s0])
  have g: "?g < length W" "W ! ?g = lsuf (set W) (tl ?x)"
    using inv s sn by (auto simp: bfs_inv_def nodes_inv_def)
  have "(?g, c) \<in> D" using lower [OF g(1)] prefix_set.length_lsuf_tl [OF ps x] g(2) by simp
  then have "edge_ok W (t_next st) ?g c" using inv g(1) by (auto simp: bfs_inv_def edges_inv_def)
  then have f: "f < length W" "W ! f = lsuf (set W) (W ! ?g @ [c])"
    by (auto simp: edge_ok_def f_def)
  show "f < length W" by (rule f(1))
  show Wf: "W ! f = lsuf (set W) (tl (W ! s @ [c]))"
    using f(2) g(2) prefix_set.lsuf_tl_snoc [OF ps x] by simp
  show queued: "f \<in> set (b_queue st)" if "f \<noteq> 0"
  proof -
    have "W ! f \<noteq> []" by (rule state_nonempty [OF rep f(1) that])
    then obtain y where y: "W ! f = y @ [c]" "suffix y (tl ?x)" "y \<in> set W"
      using prefix_set.lsuf_snoc_cases [OF ps, of "tl ?x" c] Wf x by auto
    obtain t where t: "t < length W" "W ! t = y" using state_of [OF y(3)] by blast
    have "length y < length ?x" using suffix_length_le [OF y(2)] x by (cases ?x) auto
    then have "(t, c) \<in> D" using lower t by simp
    then show ?thesis using inv t y(1) f(1) by (auto simp: bfs_inv_def children_inv_def)
  qed
  have "mask_ok P (t_out st ! f) (W ! f) \<and> mask_ok R (t_rout st ! f) (W ! f)"
  proof (cases "f = 0")
    case True
    have "0 \<notin> set (b_queue st)" using inv by (auto simp: bfs_inv_def sizes_ok_def)
    then have "mask_init P (t_out st ! f) [] \<and> mask_init R (t_rout st ! f) []"
      using inv True f(1) trie_repD(4) [OF rep] by (auto simp: bfs_inv_def nodes_inv_def)
    then show ?thesis using True tab trie_repD(4) [OF rep] by (auto simp: table_ok_def intro: mask_init_root)
  next
    case False
    then show ?thesis using inv queued f(1) by (auto simp: bfs_inv_def nodes_inv_def)
  qed
  then show "mask_ok P (t_out st ! f) (W ! f)" and "mask_ok R (t_rout st ! f) (W ! f)" by auto
qed

lemma flat_ne: "(s, c) \<noteq> (t, d) \<Longrightarrow> s * 256 + byte_val c \<noteq> t * 256 + byte_val d"
  by (auto simp: flat_simps)

lemma bfs_edge_absent:
  assumes tab: "table_ok cap W P R nx0" and inv: "bfs_inv cap W P R nx0 D st"
    and s: "s \<in> set (b_queue st)" and new: "(s, c) \<notin> D"
    and lower: "\<And>s' d. s' < length W \<Longrightarrow> length (W ! s') < length (W ! s) \<Longrightarrow> (s', d) \<in> D"
    and v: "t_next st ! (s * 256 + byte_val c) = 0"
  shows "bfs_inv cap W P R nx0 (insert (s, c) D) (bfs_edge s (byte_val c) st)"
    and "b_queue (bfs_edge s (byte_val c) st) = b_queue st"
proof -
  note rep = table_ok_rep [OF tab] and ps = table_ok_prefix_set [OF tab]
  let ?i = "s * 256 + byte_val c"
  let ?f = "t_next st ! ((b_fail st ! s) * 256 + byte_val c)"
  note fb = fallback_final [OF tab inv s lower, of c]
  have sn: "s < length W" and s0: "s \<noteq> 0" using inv s by (auto simp: bfs_inv_def sizes_ok_def)
  have x: "W ! s \<noteq> []" by (rule state_nonempty [OF rep sn s0])
  have i: "?i < length (t_next st)"
    using inv flat_index_less [of s cap "byte_val c"] sn trie_repD(2) [OF rep]
    by (simp add: bfs_inv_def sizes_ok_def)
  have "nx0 ! ?i = 0" using inv new sn v by (auto simp: bfs_inv_def edges_inv_def)
  then have no: "W ! s @ [c] \<notin> set W" by (rule trie_rep_no_edge [OF rep sn])
  have st': "bfs_edge s (byte_val c) st = st\<lparr>t_next := (t_next st)[?i := ?f]\<rparr>"
    using v by (simp add: bfs_edge_def AC_ALPHABET_def Let_def)
  have edges: "edges_inv W nx0 (insert (s, c) D) (st\<lparr>t_next := (t_next st)[?i := ?f]\<rparr>)"
  proof -
    have "lsuf (set W) (W ! s @ [c]) = W ! ?f"
      using prefix_set.lsuf_step [OF ps nth_mem [OF sn] x no] fb(2) prefix_set.lsuf_tl_snoc [OF ps x]
      by simp
    then have new_ok: "edge_ok W ((t_next st)[?i := ?f]) s c" using i fb(1) by (simp add: edge_ok_def)
    have same: "(t_next st)[?i := ?f] ! (t * 256 + byte_val d) = t_next st ! (t * 256 + byte_val d)"
      if "(t, d) \<noteq> (s, c)" for t d using flat_ne [OF that] by simp
    show ?thesis
      unfolding edges_inv_def
    proof (intro allI impI)
      fix t d assume t: "t < length W"
      show "if (t, d) \<in> insert (s, c) D then edge_ok W (t_next (st\<lparr>t_next := (t_next st)[?i := ?f]\<rparr>)) t d
        else t_next (st\<lparr>t_next := (t_next st)[?i := ?f]\<rparr>) ! (t * 256 + byte_val d) = nx0 ! (t * 256 + byte_val d)"
        using new_ok same [of t d] inv t
        by (cases "(t, d) = (s, c)") (auto simp: bfs_inv_def edges_inv_def edge_ok_def split: if_splits)
    qed
  qed
  have "children_inv W (insert (s, c) D) (st\<lparr>t_next := (t_next st)[?i := ?f]\<rparr>)"
    using inv no nth_mem by (fastforce simp: bfs_inv_def children_inv_def)
  then show "bfs_inv cap W P R nx0 (insert (s, c) D) (bfs_edge s (byte_val c) st)"
    using inv edges st' by (simp add: bfs_inv_def sizes_ok_def nodes_inv_def)
  show "b_queue (bfs_edge s (byte_val c) st) = b_queue st" using st' by simp
qed

lemma nodes_inv_push:
  assumes "nodes_inv W P R st" and "v < length (b_fail st)" "v < length (t_out st)" "v < length (t_rout st)"
    and "f < length W" and "W ! f = lsuf (set W) (tl (W ! v))" and "mask_ok P x (W ! v)" and "mask_ok R y (W ! v)"
  shows "nodes_inv W P R (st\<lparr>b_fail := (b_fail st)[v := f], t_out := (t_out st)[v := x],
     t_rout := (t_rout st)[v := y], b_queue := b_queue st @ [v]\<rparr>)" (is "nodes_inv W P R ?st")
  unfolding nodes_inv_def
proof (intro allI impI)
  fix u assume u: "u < length W"
  show "if u \<in> set (b_queue ?st)
     then b_fail ?st ! u < length W \<and> W ! (b_fail ?st ! u) = lsuf (set W) (tl (W ! u))
        \<and> mask_ok P (t_out ?st ! u) (W ! u) \<and> mask_ok R (t_rout ?st ! u) (W ! u)
     else mask_init P (t_out ?st ! u) (W ! u) \<and> mask_init R (t_rout ?st ! u) (W ! u)"
    using assms u by (cases "u = v") (simp_all add: nodes_inv_def)
qed

lemma children_inv_push:
  assumes rep: "trie_rep cap W nx0" and inv: "children_inv W D st"
    and s: "s < length W" and v: "v < length W" and Wv: "W ! v = W ! s @ [c]"
    and q: "b_queue st' = b_queue st @ [v]"
  shows "children_inv W (insert (s, c) D) st'"
  unfolding children_inv_def
proof (intro allI impI)
  fix t d u assume t: "t < length W" "u < length W" and Wu: "W ! u = W ! t @ [d]"
  have old: "u \<in> set (b_queue st) \<longleftrightarrow> (t, d) \<in> D" using inv t Wu by (auto simp: children_inv_def)
  have "u = v \<longleftrightarrow> (t, d) = (s, c)"
    using Wu Wv state_unique [OF rep t(2) v] state_unique [OF rep t(1) s] by auto
  then show "u \<in> set (b_queue st') \<longleftrightarrow> (t, d) \<in> insert (s, c) D" using old by (auto simp: q)
qed

lemma bfs_edge_child:
  assumes tab: "table_ok cap W P R nx0" and inv: "bfs_inv cap W P R nx0 D st"
    and s: "s \<in> set (b_queue st)" and new: "(s, c) \<notin> D"
    and lower: "\<And>s' d. s' < length W \<Longrightarrow> length (W ! s') < length (W ! s) \<Longrightarrow> (s', d) \<in> D"
    and deep: "\<And>u. u \<in> set (b_queue st) \<Longrightarrow> length (W ! u) \<le> Suc (length (W ! s))"
    and v: "t_next st ! (s * 256 + byte_val c) = v" and v0: "v \<noteq> 0"
  shows "bfs_inv cap W P R nx0 (insert (s, c) D) (bfs_edge s (byte_val c) st)"
    and "b_queue (bfs_edge s (byte_val c) st) = b_queue st @ [v]"
    and "length (W ! v) = Suc (length (W ! s))"
proof -
  note rep = table_ok_rep [OF tab] and ps = table_ok_prefix_set [OF tab]
  let ?f = "t_next st ! ((b_fail st ! s) * 256 + byte_val c)"
  let ?st = "bfs_edge s (byte_val c) st"
  note fb = fallback_final [OF tab inv s lower, of c]
  have sn: "s < length W" and sz: "sizes_ok cap W st" using inv s by (auto simp: bfs_inv_def sizes_ok_def)
  have eq0: "nx0 ! (s * 256 + byte_val c) = v" using inv new sn v by (auto simp: bfs_inv_def edges_inv_def)
  have vn: "v < length W" and Wv: "W ! v = W ! s @ [c]"
    using trie_rep_edge [OF rep sn] eq0 v0 by blast+
  have vq: "v \<notin> set (b_queue st)"
    using inv new sn vn Wv by (auto simp: bfs_inv_def children_inv_def)
  have vcap: "v < cap" using vn trie_repD(2) [OF rep] by simp
  have st': "?st = st\<lparr>b_fail := (b_fail st)[v := ?f],
      t_out := (t_out st)[v := t_out st ! v OR t_out st ! ?f],
      t_rout := (t_rout st)[v := t_rout st ! v OR t_rout st ! ?f], b_queue := b_queue st @ [v]\<rparr>"
    using v v0 by (simp add: bfs_edge_def AC_ALPHABET_def Let_def)
  show len: "length (W ! v) = Suc (length (W ! s))" using Wv by simp
  have sizes: "sizes_ok cap W ?st"
    using sz vq vn v0 deep len by (simp add: st' sizes_ok_def sorted_append)
  have new_ok: "edge_ok W (t_next st) s c"
    using v vn Wv prefix_set.lsuf_self [OF ps nth_mem [OF vn]] by (simp add: edge_ok_def)
  have edges: "edges_inv W nx0 (insert (s, c) D) ?st"
    using inv new_ok by (auto simp: bfs_inv_def edges_inv_def st')
  have init: "mask_init P (t_out st ! v) (W ! v)" "mask_init R (t_rout st ! v) (W ! v)"
    using inv vn vq by (auto simp: bfs_inv_def nodes_inv_def)
  have Wv0: "W ! v \<noteq> []" using Wv by simp
  have masks: "mask_ok P (t_out st ! v OR t_out st ! ?f) (W ! v)" "mask_ok R (t_rout st ! v OR t_rout st ! ?f) (W ! v)"
    using mask_ok_union [OF ps _ nth_mem [OF vn] Wv0] init fb(2,4,5) Wv tab
    by (simp_all add: table_ok_def)
  have nodes: "nodes_inv W P R ?st" unfolding st'
    by (rule nodes_inv_push) (use inv masks fb(1,2) sz vcap Wv in \<open>simp_all add: bfs_inv_def sizes_ok_def\<close>)
  have "children_inv W (insert (s, c) D) ?st"
    by (rule children_inv_push [OF rep _ sn vn Wv]) (use inv in \<open>simp_all add: bfs_inv_def st'\<close>)
  then show "bfs_inv cap W P R nx0 (insert (s, c) D) ?st"
    using sizes edges nodes by (simp add: bfs_inv_def)
  show "b_queue ?st = b_queue st @ [v]" by (simp add: st')
qed

section \<open>One row\<close>

lemma bfs_edge_head [simp]: "b_head (bfs_edge s b st) = b_head st"
  by (simp add: bfs_edge_def Let_def)

lemma bfs_row_head [simp]: "b_head (bfs_row s bs st) = b_head st"
  by (induction bs arbitrary: st) auto

lemma bfs_edge_inv:
  assumes tab: "table_ok cap W P R nx0" and inv: "bfs_inv cap W P R nx0 D st"
    and s: "s \<in> set (b_queue st)" and new: "(s, c) \<notin> D"
    and lower: "\<And>s' d. s' < length W \<Longrightarrow> length (W ! s') < length (W ! s) \<Longrightarrow> (s', d) \<in> D"
    and deep: "\<And>u. u \<in> set (b_queue st) \<Longrightarrow> length (W ! u) \<le> Suc (length (W ! s))"
  shows "bfs_inv cap W P R nx0 (insert (s, c) D) (bfs_edge s (byte_val c) st)"
    and "prefix (b_queue st) (b_queue (bfs_edge s (byte_val c) st))"
    and "\<And>u. u \<in> set (b_queue (bfs_edge s (byte_val c) st)) \<Longrightarrow> length (W ! u) \<le> Suc (length (W ! s))"
proof -
  have "bfs_inv cap W P R nx0 (insert (s, c) D) (bfs_edge s (byte_val c) st)
    \<and> prefix (b_queue st) (b_queue (bfs_edge s (byte_val c) st))
    \<and> (\<forall>u \<in> set (b_queue (bfs_edge s (byte_val c) st)). length (W ! u) \<le> Suc (length (W ! s)))"
  proof (cases "t_next st ! (s * 256 + byte_val c) = 0")
    case True
    show ?thesis using bfs_edge_absent [OF tab inv s new lower True] deep by simp
  next
    case False
    show ?thesis using bfs_edge_child [OF tab inv s new lower deep refl False] deep by auto
  qed
  then show "bfs_inv cap W P R nx0 (insert (s, c) D) (bfs_edge s (byte_val c) st)"
    and "prefix (b_queue st) (b_queue (bfs_edge s (byte_val c) st))"
    and "\<And>u. u \<in> set (b_queue (bfs_edge s (byte_val c) st)) \<Longrightarrow> length (W ! u) \<le> Suc (length (W ! s))"
    by auto
qed

lemma bfs_row_inv:
  assumes "table_ok cap W P R nx0" and "bfs_inv cap W P R nx0 D st"
    and "s \<in> set (b_queue st)" and "distinct cs" and "({s} \<times> set cs) \<inter> D = {}"
    and "\<And>s' d. s' < length W \<Longrightarrow> length (W ! s') < length (W ! s) \<Longrightarrow> (s', d) \<in> D"
    and "\<And>u. u \<in> set (b_queue st) \<Longrightarrow> length (W ! u) \<le> Suc (length (W ! s))"
  shows "bfs_inv cap W P R nx0 (D \<union> {s} \<times> set cs) (bfs_row s (map of_char cs) st)
    \<and> prefix (b_queue st) (b_queue (bfs_row s (map of_char cs) st))
    \<and> (\<forall>u \<in> set (b_queue (bfs_row s (map of_char cs) st)). length (W ! u) \<le> Suc (length (W ! s)))"
  using assms(2-7)
proof (induction cs arbitrary: D st)
  case Nil
  then show ?case by simp
next
  case (Cons c cs)
  let ?st = "bfs_edge s (byte_val c) st"
  have "(s, c) \<notin> D" using Cons.prems(4) by auto
  note e = bfs_edge_inv [OF assms(1) Cons.prems(1,2) this Cons.prems(5,6)]
  have "s \<in> set (b_queue ?st)" using Cons.prems(2) set_mono_prefix [OF e(2)] by auto
  moreover have "({s} \<times> set cs) \<inter> insert (s, c) D = {}" using Cons.prems(3,4) by auto
  ultimately have "bfs_inv cap W P R nx0 (insert (s, c) D \<union> {s} \<times> set cs) (bfs_row s (map of_char cs) ?st)
    \<and> prefix (b_queue ?st) (b_queue (bfs_row s (map of_char cs) ?st))
    \<and> (\<forall>u \<in> set (b_queue (bfs_row s (map of_char cs) ?st)). length (W ! u) \<le> Suc (length (W ! s)))"
    using Cons.IH [OF e(1) _ _ _ _ e(3)] Cons.prems(3,5) by simp
  moreover have "insert (s, c) D \<union> {s} \<times> set cs = D \<union> {s} \<times> set (c # cs)" by auto
  ultimately show ?case using prefix_order.trans [OF e(2)] by simp
qed

text \<open>All byte values in order, as the \<open>for (b = 0; b < 256; b++)\<close> loops visit them.\<close>

definition all_bytes :: "byte list" where
  "all_bytes = map char_of [0..<256 :: nat]"

lemma alphabet_chars: "[0..<AC_ALPHABET] = map of_char all_bytes"
  by (rule nth_equalityI) (simp_all add: AC_ALPHABET_def all_bytes_def)

lemma set_all_bytes: "set all_bytes = UNIV"
  unfolding all_bytes_def by (simp only: set_map set_upt UNIV_char_of_nat)

lemma distinct_all_bytes: "distinct all_bytes"
  unfolding all_bytes_def by (simp only: distinct_map distinct_upt set_upt inj_on_char_of_nat simp_thms)

section \<open>The loop\<close>

lemma bfs_inv_head: "bfs_inv cap W P R nx0 D (st\<lparr>b_head := h\<rparr>) = bfs_inv cap W P R nx0 D st"
  unfolding bfs_inv_def sizes_ok_def edges_inv_def nodes_inv_def children_inv_def by simp

definition done_edges :: "ac_bfs \<Rightarrow> (nat \<times> byte) set" where
  "done_edges st = {(s, c). s = 0 \<or> s \<in> set (take (b_head st) (b_queue st))}"

definition loop_inv :: "nat \<Rightarrow> bytes list \<Rightarrow> (nat \<times> bytes) set \<Rightarrow> (nat \<times> bytes) set \<Rightarrow> nat list
    \<Rightarrow> ac_bfs \<Rightarrow> bool" where
  "loop_inv cap W P R nx0 st \<longleftrightarrow> bfs_inv cap W P R nx0 (done_edges st) st
     \<and> b_head st \<le> length (b_queue st)
     \<and> (b_head st < length (b_queue st) \<longrightarrow> (\<forall>u \<in> set (b_queue st).
          length (W ! u) \<le> Suc (length (W ! (b_queue st ! b_head st)))))"

text \<open>Every state shallower than the next one to dequeue has been dequeued.\<close>

lemma shallower_done:
  assumes rep: "trie_rep cap W nx0" and inv: "loop_inv cap W P R nx0 st"
    and bound: "\<And>v. v \<in> set (drop (b_head st) (b_queue st)) \<Longrightarrow> d \<le> length (W ! v)"
  shows "t < length W \<Longrightarrow> length (W ! t) < d \<Longrightarrow> t = 0 \<or> t \<in> set (take (b_head st) (b_queue st))"
proof (induction "W ! t" arbitrary: t rule: rev_induct)
  case Nil
  then show ?case using state_nonempty [OF rep Nil(2)] by auto
next
  case (snoc c u)
  have "u @ [c] \<in> set W" using nth_mem [OF snoc(3)] snoc(2) by metis
  then have "u \<in> set W" by (rule trie_repD(6) [OF rep])
  from state_of [OF this] obtain s where s: "s < length W" "W ! s = u" by auto
  have "length (W ! t) = Suc (length u)" using arg_cong [OF snoc(2), of length] by simp
  then have "s = 0 \<or> s \<in> set (take (b_head st) (b_queue st))"
    using snoc(1) [of s] s snoc(4) by simp
  then have "(s, c) \<in> done_edges st" by (simp add: done_edges_def)
  moreover have "children_inv W (done_edges st) st" using inv by (simp add: loop_inv_def bfs_inv_def)
  moreover have "W ! t = W ! s @ [c]" using s(2) snoc(2) by simp
  ultimately have "t \<in> set (b_queue st)"
    using s(1) snoc(3) unfolding children_inv_def by blast
  then have "t \<in> set (take (b_head st) (b_queue st)) \<or> t \<in> set (drop (b_head st) (b_queue st))"
    by (metis Un_iff append_take_drop_id set_append)
  then show ?case using bound [of t] snoc(4) by auto
qed

text \<open>In a queue that is sorted by depth no later state is shallower.\<close>

lemma depth_sorted:
  assumes "sorted (map (\<lambda>v. length (W ! v)) q)"
  shows "h < length q \<Longrightarrow> v \<in> set (drop h q) \<Longrightarrow> length (W ! (q ! h)) \<le> length (W ! v)"
    and "h + 1 < length q \<Longrightarrow> length (W ! (q ! h)) \<le> length (W ! (q ! (h + 1)))"
proof -
  assume h: "h < length q" and "v \<in> set (drop h q)"
  then obtain j where "j < length q - h" "v = q ! (h + j)" by (auto simp: in_set_conv_nth)
  then show "length (W ! (q ! h)) \<le> length (W ! v)" using sorted_nth_mono [OF assms, of h "h + j"] h by simp
qed (use sorted_nth_mono [OF assms, of h "h + 1"] in simp)

lemma loop_inv_step:
  assumes tab: "table_ok cap W P R nx0" and inv: "loop_inv cap W P R nx0 st"
    and more: "b_head st < length (b_queue st)"
  shows "loop_inv cap W P R nx0
    (bfs_row (b_queue st ! b_head st) [0..<AC_ALPHABET] (st\<lparr>b_head := b_head st + 1\<rparr>))"
proof -
  note rep = table_ok_rep [OF tab]
  let ?h = "b_head st" and ?q = "b_queue st"
  let ?s = "?q ! ?h" and ?cs = "all_bytes"
  let ?st1 = "st\<lparr>b_head := ?h + 1\<rparr>"
  let ?st = "bfs_row ?s (map of_char ?cs) ?st1"
  have b: "bfs_inv cap W P R nx0 (done_edges st) ?st1"
    using inv by (simp only: loop_inv_def bfs_inv_head)
  have dq: "distinct ?q" and srt: "sorted (map (\<lambda>v. length (W ! v)) ?q)"
    using inv by (auto simp: loop_inv_def bfs_inv_def sizes_ok_def)
  have s0: "?s \<noteq> 0" using inv nth_mem [OF more] by (auto simp: loop_inv_def bfs_inv_def sizes_ok_def)
  have snot: "?s \<notin> set (take ?h ?q)"
    using dq more by (auto simp: in_set_conv_nth nth_eq_iff_index_eq)
  have disj: "({?s} \<times> set ?cs) \<inter> done_edges st = {}" using s0 snot by (auto simp: done_edges_def)
  note bound = depth_sorted(1) [OF srt more]
  have lower: "(s', d) \<in> done_edges st" if "s' < length W" "length (W ! s') < length (W ! ?s)" for s' d
    using shallower_done [OF rep inv bound that] by (simp add: done_edges_def)
  have deep: "length (W ! u) \<le> Suc (length (W ! ?s))" if "u \<in> set (b_queue ?st1)" for u
    using inv more that by (simp add: loop_inv_def)
  have sq: "?s \<in> set (b_queue ?st1)" using more by simp
  note row = bfs_row_inv [OF tab b sq distinct_all_bytes disj lower deep]
  have pre: "prefix ?q (b_queue ?st)" using row by simp
  have hd: "b_head ?st = ?h + 1" by simp
  have tk: "take (?h + 1) (b_queue ?st) = take ?h ?q @ [?s]"
    using pre more by (auto simp: prefix_def take_Suc_conv_app_nth)
  have "done_edges ?st = done_edges st \<union> {?s} \<times> set ?cs"
    unfolding done_edges_def hd tk set_all_bytes by auto
  then have bi: "bfs_inv cap W P R nx0 (done_edges ?st) ?st" using row by simp
  have le: "?h + 1 \<le> length (b_queue ?st)" using prefix_length_le [OF pre] more by simp
  have "length (W ! u) \<le> Suc (length (W ! (b_queue ?st ! (?h + 1))))"
    if h: "?h + 1 < length (b_queue ?st)" and u: "u \<in> set (b_queue ?st)" for u
  proof -
    have "sorted (map (\<lambda>v. length (W ! v)) (b_queue ?st))" using bi by (simp add: bfs_inv_def sizes_ok_def)
    then have "length (W ! (b_queue ?st ! ?h)) \<le> length (W ! (b_queue ?st ! (?h + 1)))" by (rule depth_sorted(2)) (rule h)
    moreover have "b_queue ?st ! ?h = ?s" using pre more by (auto simp: prefix_def nth_append)
    ultimately show ?thesis using row u by fastforce
  qed
  then have "loop_inv cap W P R nx0 ?st" using bi le hd by (simp add: loop_inv_def)
  then show ?thesis by (simp only: alphabet_chars)
qed

text \<open>The queue never holds a state twice, so it stays below the number of states.\<close>

lemma queue_bound:
  assumes "sizes_ok cap W st"
  shows "length (b_queue st) < length W \<or> b_queue st = []"
proof (cases "b_queue st = []")
  case False
  have "set (b_queue st) \<subseteq> {1..<length W}" using assms by (auto simp: sizes_ok_def Suc_le_eq)
  then have "card (set (b_queue st)) \<le> length W - 1" using card_mono [of "{1..<length W}"] by fastforce
  moreover have "card (set (b_queue st)) = length (b_queue st)"
    using assms by (simp add: sizes_ok_def distinct_card)
  ultimately show ?thesis using False by (cases "b_queue st") auto
qed simp

lemma bfs_loop_finishes:
  assumes tab: "table_ok cap W P R nx0" and "loop_inv cap W P R nx0 st"
    and "length W \<le> b_head st + fuel"
  shows "\<exists>st'. bfs_loop fuel st = Some st' \<and> loop_inv cap W P R nx0 st' \<and> b_head st' = length (b_queue st')"
  using assms(2,3)
proof (induction fuel arbitrary: st)
  case 0
  have "sizes_ok cap W st" using "0.prems"(1) by (simp add: loop_inv_def bfs_inv_def)
  from queue_bound [OF this] "0.prems"
  have "b_head st = length (b_queue st)" by (auto simp: loop_inv_def)
  then show ?case using "0.prems"(1) by (simp add: bfs_loop.simps)
next
  case (Suc fuel)
  show ?case
  proof (cases "b_head st < length (b_queue st)")
    case True
    note step = loop_inv_step [OF tab Suc.prems(1) True]
    show ?thesis using Suc.IH [OF step] Suc.prems(2) True by (simp add: bfs_loop.simps [of "Suc fuel"])
  next
    case False
    then show ?thesis using Suc.prems(1) by (simp add: bfs_loop.simps [of "Suc fuel"] loop_inv_def)
  qed
qed

end
