(* ===== verification/Ac_Correct.thy ===== *)
theory Ac_Correct
  imports Ac_Bfs
begin

text \<open>
  The two passes together: the automaton the build returns, read as a machine over input bytes,
  accepts after each input exactly the signatures and rule terms that end there.  The promise is
  stated as the locale \<open>ac_automaton\<close>, the interface the scanner relies on.
\<close>

section \<open>The start of pass 2\<close>

lemma set_bfs_seed: "set (bfs_seed nx bs) = {nx ! b | b. b \<in> set bs \<and> nx ! b \<noteq> 0}"
  by (induction bs) auto

lemma root_edge:
  assumes "trie_rep cap W nx"
  shows "edge_ok W nx 0 c"
proof -
  have W: "0 < length W" "W ! 0 = []" by (rule trie_repD [OF assms])+
  show ?thesis
  proof (cases "nx ! byte_val c = 0")
    case True
    then have "[c] \<notin> set W" using trie_rep_no_edge [OF assms W(1), of c] W(2) by simp
    then show ?thesis using True W by (simp add: edge_ok_def)
  next
    case False
    then have "nx ! byte_val c < length W" "W ! (nx ! byte_val c) = [c]"
      using trie_rep_edge [OF assms W(1), of c] W(2) by auto
    then show ?thesis using W(2) nth_mem [of "nx ! byte_val c" W] by (simp add: edge_ok_def)
  qed
qed

lemma seed_state:
  assumes "trie_rep cap W nx"
  shows "v \<in> set (bfs_seed nx [0..<AC_ALPHABET]) \<longleftrightarrow> v < length W \<and> (\<exists>c. W ! v = [c])"
proof -
  have W: "0 < length W" "W ! 0 = []" by (rule trie_repD [OF assms])+
  have seed: "set (bfs_seed nx [0..<AC_ALPHABET]) = {nx ! byte_val c | c. nx ! byte_val c \<noteq> 0}"
    unfolding set_bfs_seed alphabet_chars set_map set_all_bytes by auto
  have edge: "nx ! byte_val c < length W \<and> W ! (nx ! byte_val c) = [c]" if "nx ! byte_val c \<noteq> 0" for c
    using trie_rep_edge [OF assms W(1), of c] that W(2) by auto
  have "v = nx ! byte_val c \<and> nx ! byte_val c \<noteq> 0" if v: "v < length W" "W ! v = [c]" for c
  proof -
    have "[c] \<in> set W" using v nth_mem by metis
    then have ne: "nx ! byte_val c \<noteq> 0" using trie_rep_no_edge [OF assms W(1), of c] W(2) by auto
    then show ?thesis using edge [OF ne] v state_unique [OF assms] by metis
  qed
  then show ?thesis unfolding seed using edge by blast
qed

lemma distinct_seed:
  assumes "trie_rep cap W nx"
  shows "distinct (bfs_seed nx [0..<AC_ALPHABET])"
proof -
  have W: "0 < length W" "W ! 0 = []" by (rule trie_repD [OF assms])+
  have inj: "c = d" if "nx ! byte_val c = nx ! byte_val d" "nx ! byte_val c \<noteq> 0" for c d
    using trie_rep_edge(2) [OF assms W(1), of c] trie_rep_edge(2) [OF assms W(1), of d] that W(2) by simp
  have "distinct (bfs_seed nx (map of_char cs))" if "distinct cs" for cs
    using that by (induction cs) (auto simp: set_bfs_seed dest: inj)
  from this [OF distinct_all_bytes] show ?thesis unfolding alphabet_chars .
qed

lemma start_sizes:
  assumes tab: "table_ok cap W P R (t_next t)" and rep: "ac_rep cap W P R t"
  shows "sizes_ok cap W (bfs_start cap t)" and "v \<in> set (b_queue (bfs_start cap t)) \<Longrightarrow> length (W ! v) = 1"
proof -
  let ?q = "bfs_seed (t_next t) [0..<AC_ALPHABET]"
  have tr: "trie_rep cap W (t_next t)" by (rule table_ok_rep [OF tab])
  have W: "0 < length W" "W ! 0 = []" by (rule trie_repD [OF tr])+
  have one: "length (W ! v) = 1" if "v \<in> set ?q" for v using that seed_state [OF tr, of v] by auto
  then show "v \<in> set (b_queue (bfs_start cap t)) \<Longrightarrow> length (W ! v) = 1" by (simp add: bfs_start_def)
  have "0 < v \<and> v < length W" if "v \<in> set ?q" for v
    using iffD1 [OF seed_state [OF tr] that] one [OF that] W(2) by (cases "v = 0") auto
  moreover have "sorted (map (\<lambda>v. length (W ! v)) ?q)" using one by (auto simp: sorted_iff_nth_mono)
  ultimately show "sizes_ok cap W (bfs_start cap t)"
    using rep tr distinct_seed [OF tr] by (auto simp: sizes_ok_def bfs_start_def ac_rep_def trie_rep_def)
qed

lemma start_nodes:
  assumes tab: "table_ok cap W P R (t_next t)" and rep: "ac_rep cap W P R t"
  shows "nodes_inv W P R (bfs_start cap t)"
  unfolding nodes_inv_def
proof (intro allI impI)
  let ?st = "bfs_start cap t"
  have tr: "trie_rep cap W (t_next t)" by (rule table_ok_rep [OF tab])
  have W: "0 < length W" "W ! 0 = []" "length W \<le> cap" by (rule trie_repD [OF tr])+
  fix v assume v: "v < length W"
  have m: "mask_init P (t_out t ! v) (W ! v)" "mask_init R (t_rout t ! v) (W ! v)"
    using rep v by (auto simp: ac_rep_def marks_def mask_init_def)
  have up: "mask_ok Q w (W ! v)" if "mask_init Q w (W ! v)" "[] \<notin> snd ` Q" "W ! v = [c]" for Q w c
    using that by (force simp: mask_init_def mask_ok_def suffix_Cons)
  show "if v \<in> set (b_queue ?st)
     then b_fail ?st ! v < length W \<and> W ! (b_fail ?st ! v) = lsuf (set W) (tl (W ! v))
        \<and> mask_ok P (t_out ?st ! v) (W ! v) \<and> mask_ok R (t_rout ?st ! v) (W ! v)
     else mask_init P (t_out ?st ! v) (W ! v) \<and> mask_init R (t_rout ?st ! v) (W ! v)"
    using m up tab v W seed_state [OF tr, of v] by (auto simp: bfs_start_def table_ok_def)
qed

lemma loop_inv_start:
  assumes tab: "table_ok cap W P R (t_next t)" and rep: "ac_rep cap W P R t"
  shows "loop_inv cap W P R (t_next t) (bfs_start cap t)"
proof -
  let ?st = "bfs_start cap t"
  have tr: "trie_rep cap W (t_next t)" by (rule table_ok_rep [OF tab])
  have W: "W ! 0 = []" by (rule trie_repD [OF tr])
  have D: "done_edges ?st = {0} \<times> UNIV" by (auto simp: done_edges_def bfs_start_def)
  have edges: "edges_inv W (t_next t) (done_edges ?st) ?st"
    unfolding D edges_inv_def using root_edge [OF tr] by (auto simp: bfs_start_def)
  have children: "children_inv W (done_edges ?st) ?st"
    unfolding children_inv_def
  proof (intro allI impI)
    fix s c v assume s: "s < length W" and v: "v < length W" and Wv: "W ! v = W ! s @ [c]"
    have "s = 0 \<longleftrightarrow> W ! s = []" using state_nonempty [OF tr s] W by auto
    then show "v \<in> set (b_queue ?st) \<longleftrightarrow> (s, c) \<in> done_edges ?st"
      unfolding D using seed_state [OF tr, of v] v Wv by (auto simp: bfs_start_def)
  qed
  note one = start_sizes(2) [OF tab rep]
  have "b_head ?st < length (b_queue ?st) \<longrightarrow> (\<forall>u \<in> set (b_queue ?st).
      length (W ! u) \<le> Suc (length (W ! (b_queue ?st ! b_head ?st))))" using one by simp
  moreover have "b_head ?st \<le> length (b_queue ?st)" by (simp add: bfs_start_def)
  ultimately show ?thesis
    using start_sizes(1) [OF tab rep] edges start_nodes [OF tab rep] children by (simp only: loop_inv_def bfs_inv_def)
qed

section \<open>The finished tables\<close>

lemma loop_done_all:
  assumes "table_ok cap W P R nx0" and inv: "loop_inv cap W P R nx0 st"
    and fin: "b_head st = length (b_queue st)" and s: "s < length W"
  shows "edge_ok W (t_next st) s c"
    and "mask_ok P (t_out st ! s) (W ! s)" and "mask_ok R (t_rout st ! s) (W ! s)"
proof -
  note rep = table_ok_rep [OF assms(1)]
  have all: "s = 0 \<or> s \<in> set (b_queue st)"
    using shallower_done [OF rep inv, of "Suc (length (W ! s))" s] fin s by simp
  then have "(s, c) \<in> done_edges st" using fin by (simp add: done_edges_def)
  then show "edge_ok W (t_next st) s c"
    using inv s by (auto simp: loop_inv_def bfs_inv_def edges_inv_def)
  have "mask_ok P (t_out st ! s) (W ! s) \<and> mask_ok R (t_rout st ! s) (W ! s)"
  proof (cases "s \<in> set (b_queue st)")
    case True
    then show ?thesis using inv s by (auto simp: loop_inv_def bfs_inv_def nodes_inv_def)
  next
    case False
    then have "mask_init P (t_out st ! s) (W ! s) \<and> mask_init R (t_rout st ! s) (W ! s)"
      using inv s by (auto simp: loop_inv_def bfs_inv_def nodes_inv_def)
    moreover have "W ! s = []" using False all trie_repD(4) [OF rep] by simp
    ultimately show ?thesis using assms(1) mask_init_root by (auto simp: table_ok_def)
  qed
  then show "mask_ok P (t_out st ! s) (W ! s)" and "mask_ok R (t_rout st ! s) (W ! s)" by auto
qed

section \<open>Reading input\<close>

text \<open>The state reached from the root on an input, one table lookup per byte.\<close>

definition ac_delta :: "ngx_http_shield_ac_t \<Rightarrow> nat \<Rightarrow> byte \<Rightarrow> nat" where
  "ac_delta ac s c = ac_next ac ! (s * AC_ALPHABET + byte_val c)"

definition ac_run :: "ngx_http_shield_ac_t \<Rightarrow> bytes \<Rightarrow> nat" where
  "ac_run ac u = foldl (ac_delta ac) 0 u"

text \<open>
  The interface of a finished automaton: after any input, the masks of the state reached hold
  exactly the marks (\<open>P\<close>, signatures by category bit; \<open>R\<close>, rule terms by term id) ending there.
\<close>

locale ac_automaton =
  fixes ac :: ngx_http_shield_ac_t and P R :: "(nat \<times> bytes) set"
  assumes nonempty: "ac_nstates ac \<noteq> 0"
    and accepts: "bit (ac_out ac ! ac_run ac u) k \<longleftrightarrow> (\<exists>p. (k, p) \<in> P \<and> suffix p u)"
    and sees: "bit (ac_rout ac ! ac_run ac u) k \<longleftrightarrow> (\<exists>t. (k, t) \<in> R \<and> suffix t u)"
    and in_range: "ac_run ac u < ac_nstates ac"

lemma run_lsuf:
  assumes ps: "prefix_set (set W)" and W: "W ! 0 = []" "0 < length W"
    and edges: "\<And>s c. s < length W \<Longrightarrow> edge_ok W (ac_next ac) s c"
  shows "ac_run ac u < length W \<and> W ! ac_run ac u = lsuf (set W) u"
proof (induction u rule: rev_induct)
  case Nil
  then show ?case using W by (simp add: ac_run_def)
next
  case (snoc c u)
  let ?s = "ac_run ac u"
  have "ac_run ac (u @ [c]) = ac_next ac ! (?s * 256 + byte_val c)"
    by (simp add: ac_run_def ac_delta_def AC_ALPHABET_def)
  then show ?case using edges [of ?s c] snoc prefix_set.lsuf_snoc [OF ps, of u c] by (simp add: edge_ok_def)
qed

lemma mask_ok_run:
  assumes ps: "prefix_set (set W)" and P: "snd ` P \<subseteq> set W" and m: "mask_ok P w (lsuf (set W) u)"
  shows "bit w k \<longleftrightarrow> (\<exists>p. (k, p) \<in> P \<and> suffix p u)"
proof -
  have "suffix p u \<longleftrightarrow> suffix p (lsuf (set W) u)" if "(k, p) \<in> P" for p
    using prefix_set.suffix_lsuf_iff [OF ps, of p u] P that by force
  then show ?thesis using m by (auto simp: mask_ok_def)
qed

definition mem_ok :: "ac_mem \<Rightarrow> bool" where
  "mem_ok mem \<longleftrightarrow> m_next mem \<and> m_out mem \<and> m_rout mem \<and> m_temp mem \<and> m_queue mem \<and> m_fail mem"

definition sigs_nonempty :: "ngx_http_shield_catdef_t list \<Rightarrow> ngx_http_shield_ruledef_t list \<Rightarrow> bool" where
  "sigs_nonempty cats rules \<longleftrightarrow> list_all (\<lambda>c. [] \<notin> set (cd_sigs c)) cats \<and> list_all (\<lambda>r. [] \<notin> set (rd_terms r)) rules"

lemma term_marks_nonempty:
  "list_all (\<lambda>r. [] \<notin> set (rd_terms r)) rules \<Longrightarrow> [] \<notin> snd ` term_marks m i rules"
  by (induction rules arbitrary: i) (auto dest: set_zip_rightD)

text \<open>
  The arrays hold one row per state of the bound, and every transition out of a state in use leads
  to a state in use, so a scan never indexes past an array.
\<close>

definition ac_closed :: "nat \<Rightarrow> ngx_http_shield_ac_t \<Rightarrow> bool" where
  "ac_closed cap ac \<longleftrightarrow> length (ac_next ac) = cap * AC_ALPHABET \<and> length (ac_out ac) = cap
     \<and> length (ac_rout ac) = cap \<and> ac_nstates ac \<le> cap
     \<and> (\<forall>s < ac_nstates ac. \<forall>c. ac_delta ac s c < ac_nstates ac)"

text \<open>
  The build with every allocation succeeding and the size checks passed returns an automaton, and
  that automaton meets its interface for the selected signatures and terms of the tables.
\<close>

text \<open>A table whose edges follow the longest suffixes and whose masks are complete is an automaton.\<close>

lemma finished_automaton:
  assumes ps: "prefix_set (set W)" and W: "W ! 0 = []" "0 < length W" and PR: "snd ` P \<subseteq> set W" "snd ` R \<subseteq> set W"
    and n: "ac_nstates ac = length W" and edges: "\<And>s c. s < length W \<Longrightarrow> edge_ok W (ac_next ac) s c"
    and masks: "\<And>s. s < length W \<Longrightarrow> mask_ok P (ac_out ac ! s) (W ! s)" "\<And>s. s < length W \<Longrightarrow> mask_ok R (ac_rout ac ! s) (W ! s)"
  shows "ac_automaton ac P R"
proof -
  have run: "ac_run ac u < length W \<and> W ! ac_run ac u = lsuf (set W) u" for u by (rule run_lsuf [OF ps W edges])
  show ?thesis
  proof
    show "ac_nstates ac \<noteq> 0" using n W(2) by simp
    show "ac_run ac u < ac_nstates ac" for u using run [of u] n by simp
    show "bit (ac_out ac ! ac_run ac u) k \<longleftrightarrow> (\<exists>p. (k, p) \<in> P \<and> suffix p u)" for u k
      by (rule mask_ok_run [OF ps PR(1)]) (use run [of u] masks(1) in metis)
    show "bit (ac_rout ac ! ac_run ac u) k \<longleftrightarrow> (\<exists>p. (k, p) \<in> R \<and> suffix p u)" for u k
      by (rule mask_ok_run [OF ps PR(2)]) (use run [of u] masks(2) in metis)
  qed
qed

lemma ac_build_automaton:
  assumes terms: "ac_term_count rules \<le> 64" and size: "ac_cap cats rules m \<le> AC_MAX_STATES"
    and mem: "mem_ok mem" and ne: "sigs_nonempty cats rules"
  shows "\<exists>ac. ngx_http_shield_ac_build cats rules mem m = Inr ac
           \<and> ac_automaton ac (sig_marks m cats) (term_marks m 0 rules)
           \<and> map (\<lambda>w. {k. bit w k}) (ac_need ac) = rule_needs m 0 rules
           \<and> ac_row ac = ac_rows cats rules m \<and> ac_closed (ac_cap cats rules m) ac"
proof -
  let ?cap = "ac_cap cats rules m" and ?P = "sig_marks m cats" and ?R = "term_marks m 0 rules"
  have c: "?cap \<le> 65535" using size by (simp add: AC_MAX_STATES_def)
  obtain W t nds where p1: "add_rules m 0 rules (add_cats m cats (trie_start ?cap)) = (nds, t)"
      "ac_rep ?cap W ?P ?R t" "map (\<lambda>w. {k. bit w k}) nds = rule_needs m 0 rules"
    using pass1_rep [OF terms c] by blast
  have P0: "[] \<notin> snd ` ?P" using ne by (force simp: sigs_nonempty_def sig_marks_def list_all_iff)
  have R0: "[] \<notin> snd ` ?R" using ne term_marks_nonempty by (auto simp: sigs_nonempty_def)
  have PR: "snd ` ?P \<subseteq> set W" "snd ` ?R \<subseteq> set W" using p1(2) by (auto simp: ac_rep_def marks_def)
  have tab: "table_ok ?cap W ?P ?R (t_next t)"
    using p1(2) P0 R0 PR by (simp add: table_ok_def ac_rep_def)
  note rep = table_ok_rep [OF tab] and ps = table_ok_prefix_set [OF tab]
  have W: "W ! 0 = []" "0 < length W" "length W \<le> ?cap" by (rule trie_repD [OF rep])+
  obtain st where st: "bfs_loop ?cap (bfs_start ?cap t) = Some st"
      "loop_inv ?cap W ?P ?R (t_next t) st" "b_head st = length (b_queue st)"
    using bfs_loop_finishes [OF tab loop_inv_start [OF tab p1(2)], of ?cap] W(3) by auto
  have n: "t_n st = length W" using st(2) by (simp add: loop_inv_def bfs_inv_def sizes_ok_def)
  define ac where "ac = \<lparr>ac_next = t_next st, ac_out = t_out st, ac_nstates = t_n st,
      ac_rout = t_rout st, ac_need = nds, ac_row = ac_rows cats rules m\<rparr>"
  have build: "ngx_http_shield_ac_build cats rules mem m = Inr ac"
    using terms size mem p1(1) st(1) by (simp add: ngx_http_shield_ac_build_def mem_ok_def Let_def ac_def)
  note fin = loop_done_all [OF tab st(2,3)]
  have "ac_automaton ac ?P ?R"
    by (rule finished_automaton [OF ps W(1,2) PR]) (use fin n in \<open>simp_all add: ac_def\<close>)
  moreover have "ac_closed ?cap ac"
    using st(2) n W(3) fin(1)
    by (auto simp: ac_closed_def ac_def loop_inv_def bfs_inv_def sizes_ok_def ac_delta_def edge_ok_def AC_ALPHABET_def)
  ultimately show ?thesis using build p1(3) by (intro exI [of _ ac]) (simp add: ac_def)
qed

end
