(* ===== verification/Scan.thy ===== *)
theory Scan
  imports Ac_Correct
begin

text \<open>
  The scanner of \<open>src/ngx_http_shield_scan.c\<close>: lowest set bit, one automaton pass over a buffer
  with the accept test, the AND-rule evaluation, and \<open>ngx_http_shield_scan_input\<close>, which normalizes
  a buffer twice and runs both automata.  The reference \<open>scan_spec\<close> says which table row a scan
  must report without any automaton.
\<close>

section \<open>The automaton pass\<close>

text \<open>
  Index of the lowest set bit, the portable loop.  The C code is only called with a non-zero
  argument; the test for zero makes the function total.
\<close>

function lowest_bit_loop :: "u64 \<Rightarrow> nat \<Rightarrow> nat" where
  "lowest_bit_loop m n = (if m = 0 then n else if m AND 1 = 0 then lowest_bit_loop (drop_bit 1 m) (n + 1) else n)"
  by pat_completeness auto
termination
proof (relation "measure (\<lambda>(m, n). unat m)", simp)
  fix m :: u64 and n :: nat
  assume "m \<noteq> 0"
  then have "0 < unat m" by (simp add: unat_gt_0)
  moreover have "unat (drop_bit 1 m) = unat m div 2"
    unfolding unat_drop_bit_eq by (simp add: drop_bit_eq_div)
  ultimately show "((drop_bit 1 m, n + 1), (m, n)) \<in> measure (\<lambda>(m, n). unat m)"
    by (simp only: in_measure case_prod_conv)
qed

declare lowest_bit_loop.simps [simp del]

definition ngx_http_shield_ac_lowest_bit :: "u64 \<Rightarrow> nat" where
  "ngx_http_shield_ac_lowest_bit m = lowest_bit_loop m 0"

text \<open>The \<open>do ... while (live)\<close> loop, entered with a non-zero mask.\<close>

lemma clear_lowest_less: "(m :: u64) \<noteq> 0 \<Longrightarrow> unat (m AND (m - 1)) < unat m"
proof -
  assume "m \<noteq> 0"
  have "m AND (m - 1) \<le> m - 1" by (rule word_and_le1)
  then have "unat (m AND (m - 1)) \<le> unat (m - 1)" by (simp add: word_le_nat_alt)
  also have "\<dots> < unat m" using \<open>m \<noteq> 0\<close> by (simp add: unat_minus_one unat_gt_0)
  finally show ?thesis .
qed

function best_row :: "nat list \<Rightarrow> u64 \<Rightarrow> nat \<Rightarrow> nat" where
  "best_row rows live best =
     (if live = 0 then best
      else (let row = rows ! ngx_http_shield_ac_lowest_bit live in
            best_row rows (live AND (live - 1)) (if row < best then row else best)))"
  by pat_completeness auto
termination
  by (relation "measure (\<lambda>(rows, live, best). unat live)") (simp_all add: clear_lowest_less)

declare best_row.simps [simp del]

text \<open>
  The byte loop: \<open>Inl\<close> a table row when a live signature ends, \<open>Inr\<close> the rule terms seen when the
  buffer is exhausted.
\<close>

fun ac_scan_loop :: "ngx_http_shield_ac_t \<Rightarrow> nat \<Rightarrow> u64 \<Rightarrow> bytes \<Rightarrow> nat \<Rightarrow> u64 \<Rightarrow> nat + u64" where
  "ac_scan_loop ac ncat skip [] s seen = Inr seen"
| "ac_scan_loop ac ncat skip (b # bs) s seen =
     (let s' = ac_next ac ! (s * AC_ALPHABET + byte_val b);
          seen' = seen OR ac_rout ac ! s';
          live = ac_out ac ! s' AND NOT skip
      in if live = 0 then ac_scan_loop ac ncat skip bs s' seen'
         else (let best = best_row (ac_row ac) live ncat
               in if best < ncat then Inl best else ac_scan_loop ac ncat skip bs s' seen'))"

fun ac_scan_rules :: "nat list \<Rightarrow> nat \<Rightarrow> u64 \<Rightarrow> u64 \<Rightarrow> u64 list \<Rightarrow> ngx_http_shield_ruledef_t list \<Rightarrow> nat option" where
  "ac_scan_rules rows ncat skip seen (need # needs) (r # rs) =
     (if need = 0 then ac_scan_rules rows ncat skip seen needs rs
      else if seen AND need \<noteq> need then ac_scan_rules rows ncat skip seen needs rs
      else if skip AND bit_at (cat_val (rd_cat r)) \<noteq> 0 then ac_scan_rules rows ncat skip seen needs rs
      else (let row = rows ! cat_val (rd_cat r)
            in if row < ncat then Some row else ac_scan_rules rows ncat skip seen needs rs))"
| "ac_scan_rules rows ncat skip seen _ _ = None"

definition ngx_http_shield_ac_scan :: "ngx_http_shield_catdef_t list \<Rightarrow> ngx_http_shield_ruledef_t list
    \<Rightarrow> ngx_http_shield_ac_t \<Rightarrow> bytes \<Rightarrow> u64 \<Rightarrow> ngx_http_shield_catdef_t option" where
  "ngx_http_shield_ac_scan cats rules ac data skip =
     (if ac_nstates ac = 0 then None
      else (case ac_scan_loop ac (length cats) skip data 0 0 of
              Inl best \<Rightarrow> Some (cats ! best)
            | Inr seen \<Rightarrow>
                if seen = 0 then None
                else map_option (\<lambda>row. cats ! row)
                       (ac_scan_rules (ac_row ac) (length cats) skip seen (ac_need ac) rules)))"

section \<open>Scanning one input buffer\<close>

record ngx_http_shield_hit_t =
  h_category :: bytes
  h_source :: bytes
  h_cat :: nat

text \<open>
  \<open>ngx_strlow\<close> and \<open>ngx_unescape_uri\<close> belong to nginx and are parameters: a function from the bytes
  read to the bytes written.
\<close>

definition plus_to_space :: "bytes \<Rightarrow> bytes" where
  "plus_to_space = map (\<lambda>c. if c = CHR ''+'' then CHR '' '' else c)"

definition raw_buffer :: "(bytes \<Rightarrow> bytes) \<Rightarrow> bytes \<Rightarrow> bytes" where
  "raw_buffer strlow data = strlow data"

definition decoded_buffer :: "(bytes \<Rightarrow> bytes) \<Rightarrow> (bytes \<Rightarrow> bytes) \<Rightarrow> bytes \<Rightarrow> bytes" where
  "decoded_buffer strlow unescape_uri data = strlow (plus_to_space (unescape_uri data))"

definition hit_of :: "ngx_http_shield_catdef_t \<Rightarrow> bytes \<Rightarrow> ngx_http_shield_hit_t" where
  "hit_of c source = \<lparr>h_category = cd_name c, h_source = source, h_cat = cat_val (cd_cat c)\<rparr>"

record shield_globals =
  g_raw :: ngx_http_shield_ac_t
  g_decoded :: ngx_http_shield_ac_t
  g_strlow :: "bytes \<Rightarrow> bytes"
  g_unescape_uri :: "bytes \<Rightarrow> bytes"

definition ngx_http_shield_scan_input :: "shield_globals \<Rightarrow> bytes \<Rightarrow> bytes \<Rightarrow> u64
    \<Rightarrow> ngx_http_shield_hit_t \<Rightarrow> ngx_rc \<times> ngx_http_shield_hit_t" where
  "ngx_http_shield_scan_input g data source skip hit =
     (if data = [] then (NGX_DECLINED, hit)
      else (case ngx_http_shield_ac_scan ngx_http_shield_categories ngx_http_shield_rules (g_raw g)
                   (raw_buffer (g_strlow g) data) skip of
              Some c \<Rightarrow> (NGX_OK, hit_of c source)
            | None \<Rightarrow>
             (case ngx_http_shield_ac_scan ngx_http_shield_categories ngx_http_shield_rules (g_decoded g)
                     (decoded_buffer (g_strlow g) (g_unescape_uri g) data) skip of
                Some c \<Rightarrow> (NGX_OK, hit_of c source)
              | None \<Rightarrow> (NGX_DECLINED, hit))))"

section \<open>Reference scan\<close>

text \<open>
  Which signatures end at the end of \<open>u\<close>, for the tables selected by \<open>m\<close> and not disabled by
  \<open>skip\<close>; which rules have all their terms somewhere in the buffer; and the row a scan reports: the
  lowest row at the earliest position where a live signature ends, else the first complete rule.
\<close>

definition sig_at :: "u64 \<Rightarrow> u64 \<Rightarrow> bytes \<Rightarrow> ngx_http_shield_catdef_t \<Rightarrow> bool" where
  "sig_at m skip u c \<longleftrightarrow> cat_selected m c \<and> \<not> bit skip (cat_val (cd_cat c)) \<and> list_ex (\<lambda>p. suffix p u) (cd_sigs c)"

definition rule_at :: "ngx_http_shield_catdef_t list \<Rightarrow> u64 \<Rightarrow> u64 \<Rightarrow> bytes \<Rightarrow> ngx_http_shield_ruledef_t \<Rightarrow> bool" where
  "rule_at cats m skip data r \<longleftrightarrow> rule_selected m r \<and> rd_terms r \<noteq> [] \<and> \<not> bit skip (cat_val (rd_cat r))
     \<and> list_all (\<lambda>t. sublist t data) (rd_terms r) \<and> list_ex (\<lambda>c. cd_cat c = rd_cat r) cats"

definition scan_spec :: "ngx_http_shield_catdef_t list \<Rightarrow> ngx_http_shield_ruledef_t list \<Rightarrow> u64
    \<Rightarrow> u64 \<Rightarrow> bytes \<Rightarrow> ngx_http_shield_catdef_t option" where
  "scan_spec cats rules m skip data =
     (case find (\<lambda>u. list_ex (sig_at m skip u) cats) (prefixes data) of
        Some u \<Rightarrow> find (sig_at m skip u) cats
      | None \<Rightarrow>
         (case find (rule_at cats m skip data) rules of
            Some r \<Rightarrow> find (\<lambda>c. cd_cat c = rd_cat r) cats
          | None \<Rightarrow> None))"

section \<open>Lowest bits and best rows\<close>

lemma lowest_bit_loop_spec:
  "m \<noteq> 0 \<Longrightarrow> \<exists>k. lowest_bit_loop m n = n + k \<and> bit m k \<and> (\<forall>j < k. \<not> bit m j)"
proof (induction m n rule: lowest_bit_loop.induct)
  case (1 m n)
  have odd: "m AND 1 = 0 \<longleftrightarrow> \<not> bit m 0" by (simp add: and_one_eq bit_0 mod2_eq_if)
  show ?case
  proof (cases "bit m 0")
    case True
    then show ?thesis using odd "1.prems" by (intro exI [of _ 0]) (simp add: lowest_bit_loop.simps [of m])
  next
    case False
    have "drop_bit 1 m \<noteq> 0"
    proof -
      obtain k where "bit m k" using "1.prems" u64_neq_0_iff by blast
      then obtain j where "k = Suc j" using False by (cases k) auto
      then have "bit (drop_bit 1 m) j" using \<open>bit m k\<close> by (simp add: bit_drop_bit_eq)
      then show ?thesis using u64_neq_0_iff by blast
    qed
    then obtain k where k: "lowest_bit_loop (drop_bit 1 m) (n + 1) = n + 1 + k" "bit (drop_bit 1 m) k"
        "\<forall>j < k. \<not> bit (drop_bit 1 m) j" using "1.IH" "1.prems" False odd by auto
    have "\<forall>j < Suc k. \<not> bit m j"
    proof (intro allI impI)
      fix j assume "j < Suc k"
      then show "\<not> bit m j" using k(3) False by (cases j) (auto simp: bit_drop_bit_eq)
    qed
    then show ?thesis using k False odd "1.prems"
      by (intro exI [of _ "Suc k"]) (simp add: lowest_bit_loop.simps [of m] bit_drop_bit_eq)
  qed
qed

lemma lowest_bit_spec:
  assumes "m \<noteq> 0"
  shows "bit m (ngx_http_shield_ac_lowest_bit m)" and "j < ngx_http_shield_ac_lowest_bit m \<Longrightarrow> \<not> bit m j"
  using lowest_bit_loop_spec [OF assms, of 0] by (auto simp: ngx_http_shield_ac_lowest_bit_def)

lemma minus_one_lowest:
  assumes "bit (m :: u64) n" and "\<And>j. j < n \<Longrightarrow> \<not> bit m j"
  shows "m - 1 = (m AND NOT (mask (Suc n))) OR mask n"
proof -
  let ?h = "m AND NOT (mask (Suc n))"
  have n: "n < 64" by (rule bit_u64_bound [OF assms(1)])
  have "?h OR bit_at n = m"
  proof (rule bit_eqI)
    fix k assume "possible_bit TYPE(u64) k"
    then show "bit (?h OR bit_at n) k = bit m k"
      using assms n by (cases k n rule: linorder_cases) (auto simp: mask_simps bit_mask_iff)
  qed
  moreover have "?h + bit_at n = ?h OR bit_at n"
    by (rule disjunctive_add) (auto simp: mask_simps bit_mask_iff)
  moreover have "?h + mask n = ?h OR mask n"
    by (rule disjunctive_add) (auto simp: mask_simps bit_mask_iff)
  moreover have "mask n = bit_at n - (1 :: u64)" by (simp add: bit_at_def mask_eq_exp_minus_1 push_bit_eq_mult)
  ultimately show ?thesis by (metis add_diff_eq)
qed

lemma clear_lowest_bit:
  assumes "bit (m :: u64) n" and "\<And>j. j < n \<Longrightarrow> \<not> bit m j"
  shows "bit (m AND (m - 1)) k \<longleftrightarrow> bit m k \<and> k \<noteq> n"
proof -
  have "bit (m AND (m - 1)) k \<longleftrightarrow> bit m k \<and> (bit m k \<and> k < 64 \<and> \<not> k \<le> n \<or> k < n)"
    using bit_u64_bound [of m k] bit_u64_bound [OF assms(1)]
    by (simp only: minus_one_lowest [OF assms] mask_simps bit_mask_iff) auto
  then show ?thesis using assms bit_u64_bound [of m k] by (cases k n rule: linorder_cases) auto
qed

lemma best_row_least:
  "best_row rows live best \<in> insert best ((!) rows ` {k. bit live k})
   \<and> (\<forall>x \<in> insert best ((!) rows ` {k. bit live k}). best_row rows live best \<le> x)"
proof (induction rows live best rule: best_row.induct)
  case (1 rows live best)
  show ?case
  proof (cases "live = 0")
    case True
    then show ?thesis by (simp add: best_row.simps [of rows 0])
  next
    case False
    let ?n = "ngx_http_shield_ac_lowest_bit live"
    let ?b = "if rows ! ?n < best then rows ! ?n else best"
    note lb = lowest_bit_spec [OF False]
    have bits: "{k. bit live k} = insert ?n {k. bit (live AND (live - 1)) k}"
      using clear_lowest_bit [OF lb] lb(1) by auto
    have eq: "best_row rows live best = best_row rows (live AND (live - 1)) ?b"
      using False by (simp add: best_row.simps [of rows live] Let_def)
    show ?thesis using "1.IH" [OF False refl] unfolding eq bits by (auto split: if_splits)
  qed
qed

end
