(* ===== verification/Scan_Correct.thy ===== *)
theory Scan_Correct
  imports Scan
begin

text \<open>
  The scanner meets its reference: on an automaton that keeps its promise (\<open>ac_automaton\<close>), one pass
  over a buffer reports exactly the table row of \<open>scan_spec\<close>.  The consequences (completeness,
  soundness, the effect of the skip mask) are proved once in the locale \<open>shield_scanner\<close>.
\<close>

section \<open>Rows\<close>

lemma first_row_Some:
  "first_row k i cs = Some j \<Longrightarrow> i \<le> j \<and> j - i < length cs \<and> find (\<lambda>c. cd_cat c = k) cs = Some (cs ! (j - i))"
proof (induction cs arbitrary: i)
  case (Cons c cs)
  show ?case
  proof (cases "cd_cat c = k")
    case False
    then have "Suc i \<le> j \<and> j - Suc i < length cs \<and> find (\<lambda>c. cd_cat c = k) cs = Some (cs ! (j - Suc i))"
      using Cons.IH [of "Suc i"] Cons.prems by simp
    then show ?thesis using False by (auto simp: nth_Cons')
  qed (use Cons.prems in auto)
qed simp

lemma first_row_None: "first_row k i cs = None \<longleftrightarrow> k \<notin> cd_cat ` set cs"
  by (induction cs arbitrary: i) auto

lemma first_row_nth:
  assumes "distinct (map cd_cat cs)" and "j < length cs"
  shows "first_row (cd_cat (cs ! j)) i cs = Some (i + j)"
  using assms
proof (induction cs arbitrary: i j)
  case (Cons c cs)
  then show ?case by (cases j) (auto simp: image_iff)
qed simp

lemma length_ac_row_cats [simp]: "length (ac_row_cats m i cs row) = length row"
  by (induction cs arbitrary: i row) auto

lemma ac_row_cats_nth:
  assumes "distinct (map cd_cat cs)" and "length row = 64"
  shows "ac_row_cats m i cs row ! cat_val k =
    (if \<exists>c \<in> set cs. cat_selected m c \<and> cd_cat c = k then the (first_row k i cs) else row ! cat_val k)"
  using assms
proof (induction cs arbitrary: i row)
  case (Cons c cs)
  let ?row = "if cat_selected m c then row[cat_val (cd_cat c) := i] else row"
  have IH: "ac_row_cats m (Suc i) cs ?row ! cat_val k =
    (if \<exists>c \<in> set cs. cat_selected m c \<and> cd_cat c = k then the (first_row k (Suc i) cs) else ?row ! cat_val k)"
    using Cons.IH [of ?row "Suc i"] Cons.prems by simp
  show ?case
  proof (cases "cd_cat c = k")
    case True
    then have "k \<notin> cd_cat ` set cs" using Cons.prems(1) by simp
    then have "\<not> (\<exists>c \<in> set cs. cat_selected m c \<and> cd_cat c = k)" by blast
    then show ?thesis using IH True Cons.prems(2) by auto
  next
    case False
    then show ?thesis using IH Cons.prems(2) by auto
  qed
qed simp

lemma length_ac_row_rules [simp]: "length (ac_row_rules m cats rs row) = length row"
  by (induction rs arbitrary: row) (auto split: option.splits)

lemma ac_row_rules_nth:
  assumes "length row = 64"
  shows "ac_row_rules m cats rs row ! cat_val k =
    (if (\<exists>r \<in> set rs. rule_selected m r \<and> rd_cat r = k) \<and> k \<in> cd_cat ` set cats
     then the (first_row k 0 cats) else row ! cat_val k)"
  using assms
proof (induction rs arbitrary: row)
  case (Cons r rs)
  show ?case
  proof (cases "rule_selected m r")
    case sel: True
    show ?thesis
    proof (cases "first_row (rd_cat r) 0 cats")
      case None
      then have "rd_cat r \<notin> cd_cat ` set cats" using first_row_None by blast
      then show ?thesis using Cons sel None by auto
    next
      case (Some j)
      then have "rd_cat r \<in> cd_cat ` set cats" using first_row_None by (metis option.distinct(1))
      then show ?thesis
        using Cons.IH [of "row[cat_val (rd_cat r) := j]"] Cons.prems sel Some
        by (cases "rd_cat r = k") auto
    qed
  next
    case False
    then show ?thesis using Cons by auto
  qed
qed simp

text \<open>The row of a category: its table index when this automaton can report it, else no row.\<close>

lemma ac_rows_nth:
  assumes "distinct (map cd_cat cats)"
  shows "ac_rows cats rules m ! cat_val k =
    (if (\<exists>c \<in> set cats. cat_selected m c \<and> cd_cat c = k)
        \<or> (\<exists>r \<in> set rules. rule_selected m r \<and> rd_cat r = k) \<and> k \<in> cd_cat ` set cats
     then the (first_row k 0 cats) else length cats)"
  unfolding ac_rows_def
  by (subst ac_row_rules_nth) (use ac_row_cats_nth [OF assms, of "replicate 64 (length cats)"] in auto)

lemma row_less:
  assumes "k \<in> cd_cat ` set cats"
  shows "the (first_row k 0 cats) < length cats"
    and "find (\<lambda>c. cd_cat c = k) cats = Some (cats ! the (first_row k 0 cats))"
proof -
  obtain j where "first_row k 0 cats = Some j" using assms first_row_None by fastforce
  with first_row_Some [OF this]
  show "the (first_row k 0 cats) < length cats"
    and "find (\<lambda>c. cd_cat c = k) cats = Some (cats ! the (first_row k 0 cats))" by auto
qed

lemma find_least_index:
  assumes "i < length xs" and "Q (xs ! i)" and "\<And>j. j < length xs \<Longrightarrow> Q (xs ! j) \<Longrightarrow> i \<le> j"
  shows "find Q xs = Some (xs ! i)"
  using assms
proof (induction xs arbitrary: i)
  case (Cons x xs)
  show ?case
  proof (cases "Q x")
    case True
    then have "i = 0" using Cons.prems(3) [of 0] by simp
    then show ?thesis using True by simp
  next
    case False
    then obtain k where k: "i = Suc k" using Cons.prems(2) by (cases i) auto
    have "find Q xs = Some (xs ! k)"
    proof (rule Cons.IH)
      show "k < length xs" "Q (xs ! k)" using Cons.prems(1,2) k by auto
      show "k \<le> j" if "j < length xs" "Q (xs ! j)" for j using Cons.prems(3) [of "Suc j"] that k by simp
    qed
    then show ?thesis using False k by simp
  qed
qed simp

section \<open>Rule terms\<close>

lemma term_marks_range: "(k, t) \<in> term_marks m i rs \<Longrightarrow> i \<le> k"
proof (induction rs arbitrary: i)
  case (Cons r rs)
  let ?n = "length (rd_terms r)"
  consider "(k, t) \<in> set (zip [i..<i + ?n] (rd_terms r))" | "(k, t) \<in> term_marks m (i + ?n) rs"
    using Cons.prems by (auto split: if_splits)
  then show ?case
  proof cases
    case 1
    then show ?thesis by (auto dest: set_zip_leftD)
  next
    case 2
    then show ?thesis using Cons.IH [of "i + ?n"] by simp
  qed
qed simp

lemma term_marks_functional:
  "(k, t) \<in> term_marks m i rs \<Longrightarrow> (k, t') \<in> term_marks m i rs \<Longrightarrow> t = t'"
proof (induction rs arbitrary: i)
  case (Cons r rs)
  let ?z = "zip [i..<i + length (rd_terms r)] (rd_terms r)"
  have low: "k < i + length (rd_terms r)" if "(k, x) \<in> set ?z" for x using set_zip_leftD [OF that] by simp
  have high: "i + length (rd_terms r) \<le> k" if "(k, x) \<in> term_marks m (i + length (rd_terms r)) rs" for x
    by (rule term_marks_range [OF that])
  have fn: "x = y" if "(k, x) \<in> set ?z" "(k, y) \<in> set ?z" for x y
    using that by (auto simp: in_set_zip)
  show ?case using Cons.prems Cons.IH low high fn by (auto split: if_splits) (metis not_le)+
qed simp

text \<open>The terms of one rule are a range of bits: when its mask is empty, and when all of them were seen.\<close>

lemma need_zero:
  assumes "{k. bit nd k} = (if sel then {i..<i + n} else {})"
  shows "nd = (0 :: u64) \<longleftrightarrow> \<not> (sel \<and> 0 < n)"
proof -
  have bits: "bit nd k \<longleftrightarrow> sel \<and> i \<le> k \<and> k < i + n" for k
    using assms by (metis (no_types, lifting) atLeastLessThan_iff empty_iff mem_Collect_eq)
  show ?thesis
  proof (cases "sel \<and> 0 < n")
    case True
    then have "bit nd i" by (simp add: bits)
    then show ?thesis using True u64_eq_0_iff by blast
  qed (auto simp: u64_eq_0_iff bits)
qed

lemma need_seen:
  assumes "{k. bit nd k} = {i..<i + length ts}" and "\<And>j. j < length ts \<Longrightarrow> bit seen (i + j) \<longleftrightarrow> Q (ts ! j)"
  shows "(seen :: u64) AND nd = nd \<longleftrightarrow> list_all Q ts"
proof -
  have bits: "bit nd k \<longleftrightarrow> i \<le> k \<and> k < i + length ts" for k using assms(1) by (metis atLeastLessThan_iff mem_Collect_eq)
  have "seen AND nd = nd \<longleftrightarrow> (\<forall>j < length ts. bit seen (i + j))"
    unfolding and_eq_self_iff bits by (metis add_less_cancel_left le_add1 le_add_diff_inverse)
  then show ?thesis using assms(2) by (auto simp: list_all_length)
qed

lemma term_marks_Cons:
  "rule_selected m r \<Longrightarrow> j < length (rd_terms r) \<Longrightarrow> (i + j, rd_terms r ! j) \<in> term_marks m i (r # rs)"
  by (auto simp: in_set_zip intro!: exI [of _ j])

lemma ac_scan_rules_spec:
  assumes "map (\<lambda>w. {k. bit w k}) needs = rule_needs m i rs"
    and "\<And>k t. (k, t) \<in> term_marks m i rs \<Longrightarrow> bit seen k \<longleftrightarrow> sublist t data"
    and "\<And>r. r \<in> set rs \<Longrightarrow> rule_selected m r \<Longrightarrow> rows ! cat_val (rd_cat r) =
      (if rd_cat r \<in> cd_cat ` set cats then the (first_row (rd_cat r) 0 cats) else length cats)"
  shows "ac_scan_rules rows (length cats) skip seen needs rs =
    map_option (\<lambda>r. the (first_row (rd_cat r) 0 cats)) (find (rule_at cats m skip data) rs)"
  using assms
proof (induction rs arbitrary: i needs)
  case (Cons r rs)
  let ?n = "length (rd_terms r)"
  obtain nd nds where nds: "needs = nd # nds" "map (\<lambda>w. {k. bit w k}) nds = rule_needs m (i + ?n) rs"
      "{k. bit nd k} = (if rule_selected m r then {i..<i + ?n} else {})"
    using Cons.prems(1) by (cases needs) auto
  have zero: "nd = 0 \<longleftrightarrow> \<not> (rule_selected m r \<and> rd_terms r \<noteq> [])" using need_zero [OF nds(3)] by simp
  have IH: "ac_scan_rules rows (length cats) skip seen nds rs =
    map_option (\<lambda>r. the (first_row (rd_cat r) 0 cats)) (find (rule_at cats m skip data) rs)"
    using Cons.IH [OF nds(2)] Cons.prems(2,3) by simp
  show ?case
  proof (cases "rule_selected m r \<and> rd_terms r \<noteq> []")
    case True
    have all: "seen AND nd = nd \<longleftrightarrow> list_all (\<lambda>t. sublist t data) (rd_terms r)"
      by (rule need_seen [OF _ Cons.prems(2) [OF term_marks_Cons]]) (use nds(3) True in auto)
    have row: "rows ! cat_val (rd_cat r) < length cats \<longleftrightarrow> list_ex (\<lambda>c. cd_cat c = rd_cat r) cats"
      using Cons.prems(3) [of r] True row_less(1) [of "rd_cat r" cats] by (auto simp: list_ex_iff image_iff)
    have val: "list_ex (\<lambda>c. cd_cat c = rd_cat r) cats \<Longrightarrow> rows ! cat_val (rd_cat r) = the (first_row (rd_cat r) 0 cats)"
      using Cons.prems(3) [of r] True by (auto simp: list_ex_iff image_iff)
    have sk: "skip AND bit_at (cat_val (rd_cat r)) \<noteq> 0 \<longleftrightarrow> bit skip (cat_val (rd_cat r))"
      by (simp add: mask_simps)
    show ?thesis using True IH zero all row val sk by (auto simp: nds(1) rule_at_def [of cats m skip data r] Let_def)
  next
    case False
    then show ?thesis using IH zero by (auto simp: nds(1) rule_at_def [of cats m skip data r])
  qed
qed (auto split: list.splits)

section \<open>What the reference scan reports\<close>

text \<open>A category is flagged by a buffer when one of its live signatures occurs anywhere in it.\<close>

definition flags :: "u64 \<Rightarrow> u64 \<Rightarrow> bytes \<Rightarrow> ngx_http_shield_catdef_t \<Rightarrow> bool" where
  "flags m skip data c \<longleftrightarrow> cat_selected m c \<and> \<not> bit skip (cat_val (cd_cat c)) \<and> list_ex (\<lambda>p. sublist p data) (cd_sigs c)"

lemma flags_iff_prefix: "flags m skip data c \<longleftrightarrow> (\<exists>u. prefix u data \<and> sig_at m skip u c)"
  by (auto simp: flags_def sig_at_def list_ex_iff sublist_altdef)

lemma rule_row: "rule_at cats m skip data r \<Longrightarrow> find (\<lambda>c. cd_cat c = rd_cat r) cats \<noteq> None"
  by (auto simp: find_eq_None rule_at_def list_ex_iff)

lemma scan_spec_None:
  "scan_spec cats rules m skip data = None \<longleftrightarrow>
     (\<forall>c \<in> set cats. \<not> flags m skip data c) \<and> (\<forall>r \<in> set rules. \<not> rule_at cats m skip data r)"
proof (cases "find (\<lambda>u. list_ex (sig_at m skip u) cats) (prefixes data)")
  case None
  then have "\<forall>c \<in> set cats. \<not> flags m skip data c"
    unfolding find_eq_None by (auto simp: flags_iff_prefix list_ex_iff in_set_prefixes)
  moreover have "scan_spec cats rules m skip data = None \<longleftrightarrow> find (rule_at cats m skip data) rules = None"
    using None rule_row by (auto simp: scan_spec_def dest: find_SomeD split: option.splits)
  ultimately show ?thesis by (simp add: find_eq_None)
next
  case (Some u)
  then have u: "prefix u data" "list_ex (sig_at m skip u) cats" using find_SomeD by fastforce+
  then have "\<exists>c \<in> set cats. flags m skip data c" by (auto simp: list_ex_iff flags_iff_prefix)
  moreover have "scan_spec cats rules m skip data \<noteq> None"
    using Some u(2) by (auto simp: scan_spec_def find_eq_None list_ex_iff)
  ultimately show ?thesis by blast
qed

lemma scan_spec_Some:
  assumes "scan_spec cats rules m skip data = Some c"
  shows "c \<in> set cats \<and> \<not> bit skip (cat_val (cd_cat c))
    \<and> (flags m skip data c \<or> (\<exists>r \<in> set rules. rule_at cats m skip data r \<and> rd_cat r = cd_cat c))"
proof (cases "find (\<lambda>u. list_ex (sig_at m skip u) cats) (prefixes data)")
  case None
  then obtain r where r: "find (rule_at cats m skip data) rules = Some r" "find (\<lambda>c. cd_cat c = rd_cat r) cats = Some c"
    using assms by (auto simp: scan_spec_def split: option.splits)
  have "rule_at cats m skip data r" "r \<in> set rules" "c \<in> set cats" "cd_cat c = rd_cat r"
    using find_SomeD [OF r(1)] find_SomeD [OF r(2)] by auto
  then show ?thesis by (auto simp: rule_at_def)
next
  case (Some u)
  then have c: "find (sig_at m skip u) cats = Some c" using assms by (simp add: scan_spec_def)
  have "prefix u data" using find_SomeD [OF Some] by simp
  then have "flags m skip data c" "c \<in> set cats" using find_SomeD [OF c] by (auto simp: flags_iff_prefix)
  then show ?thesis by (simp add: flags_def)
qed

text \<open>Single signatures win over rules.\<close>

lemma scan_spec_flag_wins:
  assumes "c \<in> set cats" and "flags m skip data c"
  shows "\<exists>d. scan_spec cats rules m skip data = Some d \<and> flags m skip data d"
proof -
  obtain v where "prefix v data" "sig_at m skip v c" using assms(2) by (auto simp: flags_iff_prefix)
  then have "find (\<lambda>u. list_ex (sig_at m skip u) cats) (prefixes data) \<noteq> None"
    using assms(1) by (auto simp: find_eq_None list_ex_iff)
  then obtain u where u: "find (\<lambda>u. list_ex (sig_at m skip u) cats) (prefixes data) = Some u" by blast
  then have "prefix u data" "list_ex (sig_at m skip u) cats" using find_SomeD by fastforce+
  then obtain d where d: "find (sig_at m skip u) cats = Some d" by (auto simp: list_ex_iff find_None_iff dest: not_None_eq [THEN iffD1])
      (metis find_None_iff not_Some_eq)
  have "flags m skip data d" using find_SomeD [OF d] \<open>prefix u data\<close> by (auto simp: flags_iff_prefix)
  then show ?thesis using u d by (simp add: scan_spec_def)
qed

text \<open>Disabling more categories never makes a clean buffer dirty.\<close>

lemma scan_spec_skip_antimono:
  assumes "scan_spec cats rules m skip data = None"
  shows "scan_spec cats rules m (skip OR extra) data = None"
  using assms unfolding scan_spec_None by (auto simp: flags_def rule_at_def mask_simps)

section \<open>Which match is reported\<close>

text \<open>
  A signature is reported at the earliest position where a live one ends, and of those ending there the
  one of the least category; a rule is reported only when no live signature occurs at all.
\<close>

definition first_hit :: "ngx_http_shield_catdef_t list \<Rightarrow> u64 \<Rightarrow> u64 \<Rightarrow> bytes \<Rightarrow> ngx_http_shield_catdef_t \<Rightarrow> bool" where
  "first_hit cats m skip data c \<longleftrightarrow> (\<exists>u. prefix u data \<and> sig_at m skip u c
     \<and> (\<forall>v. strict_prefix v u \<longrightarrow> (\<forall>d \<in> set cats. \<not> sig_at m skip v d))
     \<and> (\<forall>d \<in> set cats. sig_at m skip u d \<longrightarrow> cd_cat c \<le> cd_cat d))"

definition rule_hit :: "ngx_http_shield_catdef_t list \<Rightarrow> ngx_http_shield_ruledef_t list \<Rightarrow> u64 \<Rightarrow> u64 \<Rightarrow> bytes
    \<Rightarrow> ngx_http_shield_catdef_t \<Rightarrow> bool" where
  "rule_hit cats rules m skip data c \<longleftrightarrow> (\<forall>d \<in> set cats. \<not> flags m skip data d)
     \<and> (\<exists>r \<in> set rules. rule_at cats m skip data r \<and> rd_cat r = cd_cat c)"

lemma scan_spec_first:
  assumes "scan_spec cats rules m skip data = Some c" and "sorted_wrt (\<lambda>c d. cd_cat c < cd_cat d) cats"
  shows "first_hit cats m skip data c \<or> rule_hit cats rules m skip data c"
proof (cases "find (\<lambda>u. list_ex (sig_at m skip u) cats) (prefixes data)")
  case None
  then have "\<forall>d \<in> set cats. \<not> flags m skip data d"
    unfolding find_None_iff by (auto simp: flags_iff_prefix list_ex_iff)
  moreover obtain r where r: "find (rule_at cats m skip data) rules = Some r" "find (\<lambda>c. cd_cat c = rd_cat r) cats = Some c"
    using assms(1) None by (auto simp: scan_spec_def split: option.splits)
  ultimately have "rule_hit cats rules m skip data c"
    unfolding rule_hit_def using find_SomeD [OF r(1)] find_SomeD [OF r(2)] by (intro conjI bexI [of _ r]) simp_all
  then show ?thesis ..
next
  case (Some u)
  have u: "prefix u data" "\<forall>v. strict_prefix v u \<longrightarrow> \<not> list_ex (sig_at m skip v) cats"
    using find_prefixes [OF Some] by blast+
  have c: "find (sig_at m skip u) cats = Some c" using assms(1) Some by (simp add: scan_spec_def)
  have "\<forall>d \<in> set cats. sig_at m skip u d \<longrightarrow> cd_cat c \<le> cd_cat d"
    using find_sorted [OF c assms(2)] by (auto intro: less_imp_le)
  then have "first_hit cats m skip data c"
    unfolding first_hit_def using u find_SomeD [OF c] by (intro exI [of _ u]) (simp add: list_ex_iff)
  then show ?thesis ..
qed

section \<open>The scanner on an automaton that keeps its promise\<close>

locale shield_scanner =
  ac_automaton ac "sig_marks m cats" "term_marks m 0 rules"
  for ac :: ngx_http_shield_ac_t and cats :: "ngx_http_shield_catdef_t list"
    and rules :: "ngx_http_shield_ruledef_t list" and m :: u64 +
  assumes distinct_cats: "distinct (map cd_cat cats)"
    and rows: "ac_row ac = ac_rows cats rules m"
    and needs: "map (\<lambda>w. {k. bit w k}) (ac_need ac) = rule_needs m 0 rules"
    and nonempty_sigs: "sigs_nonempty cats rules"
begin

abbreviation live_mask :: "u64 \<Rightarrow> bytes \<Rightarrow> u64" where
  "live_mask skip u \<equiv> ac_out ac ! ac_run ac u AND NOT skip"

lemma bit_live_mask:
  "bit (live_mask skip u) k \<longleftrightarrow> (\<exists>c \<in> set cats. sig_at m skip u c \<and> cat_val (cd_cat c) = k)"
proof -
  have "bit (live_mask skip u) k \<longleftrightarrow> (\<exists>p. (k, p) \<in> sig_marks m cats \<and> suffix p u) \<and> k < 64 \<and> \<not> bit skip k"
    by (simp add: mask_simps accepts)
  then show ?thesis by (auto simp: sig_marks_def sig_at_def list_ex_iff)
qed

lemma live_mask_zero: "live_mask skip u = 0 \<longleftrightarrow> \<not> list_ex (sig_at m skip u) cats"
  by (auto simp: u64_eq_0_iff bit_live_mask list_ex_iff)

lemma row_of_hit: "j < length cats \<Longrightarrow> cat_selected m (cats ! j) \<Longrightarrow> ac_row ac ! cat_val (cd_cat (cats ! j)) = j"
  using ac_rows_nth [OF distinct_cats] first_row_nth [OF distinct_cats, of j 0] nth_mem [of j cats]
  by (auto simp: rows)

lemma best_is_first_live:
  assumes "list_ex (sig_at m skip u) cats"
  defines "b \<equiv> best_row (ac_row ac) (live_mask skip u) (length cats)"
  shows "b < length cats" and "find (sig_at m skip u) cats = Some (cats ! b)"
proof -
  let ?S = "(!) (ac_row ac) ` {k. bit (live_mask skip u) k}"
  have S: "?S = {j. j < length cats \<and> sig_at m skip u (cats ! j)}"
  proof
    show "?S \<subseteq> {j. j < length cats \<and> sig_at m skip u (cats ! j)}"
      using row_of_hit by (auto simp: bit_live_mask in_set_conv_nth sig_at_def)
    show "{j. j < length cats \<and> sig_at m skip u (cats ! j)} \<subseteq> ?S"
    proof
      fix j assume "j \<in> {j. j < length cats \<and> sig_at m skip u (cats ! j)}"
      then have j: "j < length cats" "sig_at m skip u (cats ! j)" by auto
      then have "bit (live_mask skip u) (cat_val (cd_cat (cats ! j)))" by (auto simp: bit_live_mask)
      moreover have "ac_row ac ! cat_val (cd_cat (cats ! j)) = j" using row_of_hit j by (simp add: sig_at_def)
      ultimately show "j \<in> ?S" by (metis image_eqI mem_Collect_eq)
    qed
  qed
  have b: "b \<in> insert (length cats) ?S" "\<forall>x \<in> insert (length cats) ?S. b \<le> x"
    using best_row_least [of "ac_row ac" "live_mask skip u" "length cats"] unfolding b_def by blast+
  obtain j where j: "j < length cats" "sig_at m skip u (cats ! j)"
    using assms(1) by (auto simp: list_ex_iff in_set_conv_nth)
  then have "b \<le> j" using b(2) S by auto
  then show bl: "b < length cats" using j(1) by simp
  then have "sig_at m skip u (cats ! b)" using b(1) S by auto
  then show "find (sig_at m skip u) cats = Some (cats ! b)"
    using bl b(2) S by (intro find_least_index) auto
qed

lemma run_snoc: "ac_next ac ! (ac_run ac u * AC_ALPHABET + byte_val c) = ac_run ac (u @ [c])"
  by (simp add: ac_run_def ac_delta_def)

text \<open>The byte loop from an intermediate point, after \<open>u\<close> was read.\<close>

lemma scan_loop_hit:
  assumes "find (\<lambda>u. list_ex (sig_at m skip u) cats) (map ((@) u) (tl (prefixes bs))) = Some v"
  shows "\<exists>b. ac_scan_loop ac (length cats) skip bs (ac_run ac u) seen = Inl b
           \<and> find (sig_at m skip v) cats = Some (cats ! b)"
  using assms
proof (induction bs arbitrary: u seen)
  case (Cons c bs)
  have pre: "map ((@) u) (tl (prefixes (c # bs))) = (u @ [c]) # map ((@) (u @ [c])) (tl (prefixes bs))"
    by (cases bs) auto
  show ?case
  proof (cases "list_ex (sig_at m skip (u @ [c])) cats")
    case True
    then have "v = u @ [c]" using Cons.prems unfolding pre by simp
    then show ?thesis using best_is_first_live [OF True] True live_mask_zero [of "u @ [c]" skip]
      by (simp add: run_snoc Let_def)
  next
    case False
    then have "find (\<lambda>u. list_ex (sig_at m skip u) cats) (map ((@) (u @ [c])) (tl (prefixes bs))) = Some v"
      using Cons.prems unfolding pre by (simp only: find.simps if_False)
    from Cons.IH [OF this] show ?thesis using False live_mask_zero [of "u @ [c]" skip]
      by (simp add: run_snoc Let_def)
  qed
qed simp

lemma scan_loop_no_hit:
  assumes "find (\<lambda>u. list_ex (sig_at m skip u) cats) (map ((@) u) (tl (prefixes bs))) = None"
  shows "\<exists>w. ac_scan_loop ac (length cats) skip bs (ac_run ac u) seen = Inr w
           \<and> (\<forall>k. bit w k \<longleftrightarrow> bit seen k \<or> (\<exists>v \<in> set (tl (prefixes bs)). bit (ac_rout ac ! ac_run ac (u @ v)) k))"
  using assms
proof (induction bs arbitrary: u seen)
  case (Cons c bs)
  have tlp: "tl (prefixes (c # bs)) = [c] # map ((#) c) (tl (prefixes bs))" by (cases bs) auto
  have pre: "map ((@) u) (tl (prefixes (c # bs))) = (u @ [c]) # map ((@) (u @ [c])) (tl (prefixes bs))"
    by (cases bs) auto
  let ?seen = "seen OR ac_rout ac ! ac_run ac (u @ [c])"
  have no: "\<not> list_ex (sig_at m skip (u @ [c])) cats"
    and rest: "find (\<lambda>u. list_ex (sig_at m skip u) cats) (map ((@) (u @ [c])) (tl (prefixes bs))) = None"
    using Cons.prems unfolding pre by (auto split: if_splits)
  obtain w where w: "ac_scan_loop ac (length cats) skip bs (ac_run ac (u @ [c])) ?seen = Inr w"
      "\<forall>k. bit w k \<longleftrightarrow> bit ?seen k \<or> (\<exists>v \<in> set (tl (prefixes bs)). bit (ac_rout ac ! ac_run ac ((u @ [c]) @ v)) k)"
    using Cons.IH [OF rest] by blast
  have eq: "ac_scan_loop ac (length cats) skip (c # bs) (ac_run ac u) seen = Inr w"
    using w(1) no live_mask_zero [of "u @ [c]" skip] by (simp add: run_snoc Let_def)
  have "bit w k \<longleftrightarrow> bit seen k \<or> (\<exists>v \<in> set (tl (prefixes (c # bs))). bit (ac_rout ac ! ac_run ac (u @ v)) k)" for k
    using spec [OF w(2), of k] unfolding tlp by (auto simp: mask_simps)
  then show ?case using eq by blast
qed simp

lemma bit_seen_iff:
  "(\<exists>v \<in> set (tl (prefixes data)). bit (ac_rout ac ! ac_run ac v) k)
     \<longleftrightarrow> (\<exists>t. (k, t) \<in> term_marks m 0 rules \<and> sublist t data)"
proof -
  have ne: "t \<noteq> []" if "(k, t) \<in> term_marks m 0 rules" for t
    using that nonempty_sigs term_marks_nonempty [of rules m 0] by (force simp: sigs_nonempty_def)
  have tl: "v \<in> set (tl (prefixes data)) \<longleftrightarrow> prefix v data \<and> v \<noteq> []" for v
    by (cases data) (auto simp: in_set_prefixes prefix_Cons)
  have nil: "v \<noteq> []" if "(k, t) \<in> term_marks m 0 rules" "suffix t v" for t v using ne that by auto
  have "(\<exists>v. prefix v data \<and> v \<noteq> [] \<and> suffix t v) \<longleftrightarrow> sublist t data" if "(k, t) \<in> term_marks m 0 rules" for t
    using nil [OF that] unfolding sublist_altdef by metis
  moreover have "(\<exists>v \<in> set (tl (prefixes data)). bit (ac_rout ac ! ac_run ac v) k)
      \<longleftrightarrow> (\<exists>t. (k, t) \<in> term_marks m 0 rules \<and> (\<exists>v. prefix v data \<and> v \<noteq> [] \<and> suffix t v))"
    unfolding sees Bex_def tl by metis
  ultimately show ?thesis by metis
qed

text \<open>The refinement: one automaton pass computes the reference scan.\<close>

lemma rules_reported:
  assumes "\<And>k. bit w k \<longleftrightarrow> (\<exists>t. (k, t) \<in> term_marks m 0 rules \<and> sublist t data)"
  shows "(if w = 0 then None else map_option (\<lambda>row. cats ! row) (ac_scan_rules (ac_row ac) (length cats) skip w (ac_need ac) rules))
    = (case find (rule_at cats m skip data) rules of Some r \<Rightarrow> find (\<lambda>c. cd_cat c = rd_cat r) cats | None \<Rightarrow> None)"
proof -
  have H: "bit w k \<longleftrightarrow> sublist t data" if "(k, t) \<in> term_marks m 0 rules" for k t
    using assms that term_marks_functional by blast
  have R: "ac_row ac ! cat_val (rd_cat r) =
      (if rd_cat r \<in> cd_cat ` set cats then the (first_row (rd_cat r) 0 cats) else length cats)"
    if "r \<in> set rules" "rule_selected m r" for r
    using ac_rows_nth [OF distinct_cats, of rules m "rd_cat r"] that by (auto simp: rows image_iff)
  have sc: "ac_scan_rules (ac_row ac) (length cats) skip w (ac_need ac) rules =
      map_option (\<lambda>r. the (first_row (rd_cat r) 0 cats)) (find (rule_at cats m skip data) rules)"
    by (rule ac_scan_rules_spec [OF needs H R])
  have "ac_scan_rules (ac_row ac) (length cats) skip 0 ns rs = None" for ns rs by (induction ns rs rule: list_induct2') auto
  then have z: "find (rule_at cats m skip data) rules = None" if "w = 0" using sc that by simp
  show ?thesis
  proof (cases "find (rule_at cats m skip data) rules")
    case None
    then show ?thesis by (simp add: sc)
  next
    case (Some r)
    then have "rule_at cats m skip data r" by (metis find_Some_iff)
    then have "rd_cat r \<in> cd_cat ` set cats" by (force simp: rule_at_def list_ex_iff)
    then show ?thesis using Some z row_less(2) [of "rd_cat r" cats] by (auto simp: sc)
  qed
qed

lemma ac_scan_refines_spec: "ngx_http_shield_ac_scan cats rules ac data skip = scan_spec cats rules m skip data"
proof -
  let ?F = "find (\<lambda>u. list_ex (sig_at m skip u) cats)"
  have nil: "\<not> list_ex (sig_at m skip []) cats"
    using nonempty_sigs by (auto simp: sigs_nonempty_def sig_at_def list_ex_iff list_all_iff)
  have pre: "prefixes data = [] # map ((@) []) (tl (prefixes data))" by (cases data) (auto simp: append_Nil [abs_def])
  have F: "?F (prefixes data) = ?F (map ((@) []) (tl (prefixes data)))"
    by (subst pre) (simp add: nil)
  show ?thesis
  proof (cases "?F (prefixes data)")
    case (Some v)
    then obtain b where "ac_scan_loop ac (length cats) skip data (ac_run ac []) 0 = Inl b"
        "find (sig_at m skip v) cats = Some (cats ! b)"
      using scan_loop_hit [of skip "[]" data v 0] F by metis
    then show ?thesis using Some nonempty by (simp add: ngx_http_shield_ac_scan_def scan_spec_def ac_run_def)
  next
    case None
    then obtain w where w: "ac_scan_loop ac (length cats) skip data (ac_run ac []) 0 = Inr w"
        "\<forall>k. bit w k \<longleftrightarrow> bit (0 :: u64) k \<or> (\<exists>v \<in> set (tl (prefixes data)). bit (ac_rout ac ! ac_run ac ([] @ v)) k)"
      using scan_loop_no_hit [of skip "[]" data 0] F by metis
    have bw: "bit w k \<longleftrightarrow> (\<exists>t. (k, t) \<in> term_marks m 0 rules \<and> sublist t data)" for k
      using spec [OF w(2), of k] bit_seen_iff [of data k] by simp
    show ?thesis using None w(1) nonempty rules_reported [OF bw, of skip] by (simp add: ngx_http_shield_ac_scan_def scan_spec_def ac_run_def)
  qed
qed

end

end
