(* ===== verification/Tables.thy ===== *)
theory Tables
  imports Scan_Correct
begin

text \<open>
  What the scanner relies on of the compiled-in tables, each fact by evaluation in the kernel, and the
  two automata built from them.
\<close>

section \<open>Facts of the tables\<close>

lemma table_distinct: "distinct (map cd_cat ngx_http_shield_categories)"
  by code_simp

lemma table_nonempty: "sigs_nonempty ngx_http_shield_categories ngx_http_shield_rules"
  by code_simp

lemma table_terms: "ac_term_count ngx_http_shield_rules = 12"
  by code_simp

lemma cap_raw: "ac_cap ngx_http_shield_categories ngx_http_shield_rules MATCH_RAW = 2210"
  by code_simp

lemma cap_decoded: "ac_cap ngx_http_shield_categories ngx_http_shield_rules MATCH_DECODED = 8490"
  by code_simp

text \<open>A signature with an upper case letter could never match a lower-cased buffer.\<close>

definition is_upper :: "byte \<Rightarrow> bool" where
  "is_upper c \<longleftrightarrow> 65 \<le> byte_val c \<and> byte_val c \<le> 90"

lemma is_upper_Char [code]:
  "is_upper (Char b0 b1 b2 b3 b4 b5 b6 b7) \<longleftrightarrow>
     b6 \<and> \<not> b7 \<and> \<not> b5 \<and> (b0 \<or> b1 \<or> b2 \<or> b3 \<or> b4) \<and> \<not> (b4 \<and> b3 \<and> (b2 \<or> b1 \<and> b0))"
  by (cases b0; cases b1; cases b2; cases b3; cases b4; cases b5; cases b6; cases b7)
    (simp_all add: is_upper_def of_char_Char)

lemma table_lower:
  "list_all (\<lambda>c. list_all (list_all (\<lambda>b. \<not> is_upper b)) (cd_sigs c)) ngx_http_shield_categories
   \<and> list_all (\<lambda>r. list_all (list_all (\<lambda>b. \<not> is_upper b)) (rd_terms r)) ngx_http_shield_rules"
  by code_simp

lemma table_rules_rows:
  "list_all (\<lambda>r. list_ex (\<lambda>c. cd_cat c = rd_cat r) ngx_http_shield_categories) ngx_http_shield_rules"
  by code_simp

section \<open>The two automata\<close>

text \<open>
  A build over well-formed tables gives a scanner.  The value does not depend on which allocations
  the pool served, as long as all of them were served.
\<close>

lemma built_scanner:
  assumes "ac_term_count rules \<le> 64" and "ac_cap cats rules m \<le> AC_MAX_STATES" and "mem_ok mem"
    and "sigs_nonempty cats rules" and "distinct (map cd_cat cats)"
  shows "\<exists>ac. ngx_http_shield_ac_build cats rules mem m = Inr ac \<and> shield_scanner ac cats rules m"
  using ac_build_automaton [OF assms(1-4)] assms(4,5)
  by (auto simp: shield_scanner_def shield_scanner_axioms_def)

definition mem_all :: ac_mem where
  "mem_all = \<lparr>m_next = True, m_out = True, m_rout = True, m_temp = True, m_queue = True, m_fail = True\<rparr>"

lemma mem_ok_all: "mem_ok mem_all"
  by (simp add: mem_ok_def mem_all_def)

lemma build_mem_ok: "mem_ok mem \<Longrightarrow> ngx_http_shield_ac_build cats rules mem m = ngx_http_shield_ac_build cats rules mem_all m"
  by (simp add: ngx_http_shield_ac_build_def mem_ok_def mem_all_def Let_def)

text \<open>The globals \<open>ngx_http_shield_ac_raw\<close> and \<open>ngx_http_shield_ac_decoded\<close> once the builds have returned.\<close>

definition built_ac :: "u64 \<Rightarrow> ngx_http_shield_ac_t" where
  "built_ac m = projr (ngx_http_shield_ac_build ngx_http_shield_categories ngx_http_shield_rules mem_all m)"

definition ngx_http_shield_ac_raw :: ngx_http_shield_ac_t where
  "ngx_http_shield_ac_raw = built_ac MATCH_RAW"

definition ngx_http_shield_ac_decoded :: ngx_http_shield_ac_t where
  "ngx_http_shield_ac_decoded = built_ac MATCH_DECODED"

lemma built_ac:
  assumes "ac_cap ngx_http_shield_categories ngx_http_shield_rules m \<le> AC_MAX_STATES"
  shows "mem_ok mem \<Longrightarrow> ngx_http_shield_ac_build ngx_http_shield_categories ngx_http_shield_rules mem m = Inr (built_ac m)"
    and "shield_scanner (built_ac m) ngx_http_shield_categories ngx_http_shield_rules m"
proof -
  obtain ac where "ngx_http_shield_ac_build ngx_http_shield_categories ngx_http_shield_rules mem_all m = Inr ac"
      "shield_scanner ac ngx_http_shield_categories ngx_http_shield_rules m"
    using built_scanner [OF _ assms mem_ok_all table_nonempty table_distinct] table_terms by auto
  then show "mem_ok mem \<Longrightarrow> ngx_http_shield_ac_build ngx_http_shield_categories ngx_http_shield_rules mem m = Inr (built_ac m)"
    and "shield_scanner (built_ac m) ngx_http_shield_categories ngx_http_shield_rules m"
    by (simp_all add: build_mem_ok built_ac_def)
qed

lemma caps_ok:
  "ac_cap ngx_http_shield_categories ngx_http_shield_rules MATCH_RAW \<le> AC_MAX_STATES"
  "ac_cap ngx_http_shield_categories ngx_http_shield_rules MATCH_DECODED \<le> AC_MAX_STATES"
  by (simp_all add: cap_raw cap_decoded AC_MAX_STATES_def)

text \<open>
  The prefixes of the marks of either automaton contain the empty word and are closed under prefixes,
  so every input has a longest suffix among them.
\<close>

definition mark_prefixes :: "u64 \<Rightarrow> bytes set" where
  "mark_prefixes m = insert [] {u. \<exists>k p. (k, p) \<in> sig_marks m ngx_http_shield_categories \<union> term_marks m 0 ngx_http_shield_rules \<and> prefix u p}"

interpretation raw_trie: prefix_set "mark_prefixes MATCH_RAW"
  by unfold_locales (auto simp: mark_prefixes_def dest: append_prefixD)

interpretation dec_trie: prefix_set "mark_prefixes MATCH_DECODED"
  by unfold_locales (auto simp: mark_prefixes_def dest: append_prefixD)

interpretation raw: shield_scanner ngx_http_shield_ac_raw ngx_http_shield_categories ngx_http_shield_rules MATCH_RAW
  unfolding ngx_http_shield_ac_raw_def by (rule built_ac(2) [OF caps_ok(1)])

interpretation dec: shield_scanner ngx_http_shield_ac_decoded ngx_http_shield_categories ngx_http_shield_rules MATCH_DECODED
  unfolding ngx_http_shield_ac_decoded_def by (rule built_ac(2) [OF caps_ok(2)])

section \<open>Scanning one buffer\<close>

text \<open>The two automata are in place: the state after postconfiguration.\<close>

definition globals_ok :: "shield_globals \<Rightarrow> bool" where
  "globals_ok g \<longleftrightarrow> g_raw g = ngx_http_shield_ac_raw \<and> g_decoded g = ngx_http_shield_ac_decoded"

text \<open>The copy of a buffer an automaton reads, and the verdict of the reference scan on the two copies.\<close>

definition copy_of :: "shield_globals \<Rightarrow> u64 \<Rightarrow> bytes \<Rightarrow> bytes" where
  "copy_of g m data = (if m = MATCH_RAW then raw_buffer (g_strlow g) data
                       else decoded_buffer (g_strlow g) (g_unescape_uri g) data)"

abbreviation table_spec :: "shield_globals \<Rightarrow> u64 \<Rightarrow> u64 \<Rightarrow> bytes \<Rightarrow> ngx_http_shield_catdef_t option" where
  "table_spec g m skip data \<equiv> scan_spec ngx_http_shield_categories ngx_http_shield_rules m skip (copy_of g m data)"

definition buffer_spec :: "shield_globals \<Rightarrow> u64 \<Rightarrow> bytes \<Rightarrow> ngx_http_shield_catdef_t option" where
  "buffer_spec g skip data =
     (if data = [] then None
      else (case table_spec g MATCH_RAW skip data of
              Some c \<Rightarrow> Some c
            | None \<Rightarrow> table_spec g MATCH_DECODED skip data))"

lemma copy_of_simps [simp]:
  "copy_of g MATCH_RAW data = raw_buffer (g_strlow g) data"
  "copy_of g MATCH_DECODED data = decoded_buffer (g_strlow g) (g_unescape_uri g) data"
proof -
  have "MATCH_DECODED \<noteq> MATCH_RAW" by code_simp
  then show "copy_of g MATCH_RAW data = raw_buffer (g_strlow g) data"
    and "copy_of g MATCH_DECODED data = decoded_buffer (g_strlow g) (g_unescape_uri g) data"
    by (simp_all add: copy_of_def)
qed

lemma scan_input_spec:
  assumes "globals_ok g"
  shows "ngx_http_shield_scan_input g data source skip hit =
    (case buffer_spec g skip data of Some c \<Rightarrow> (NGX_OK, hit_of c source) | None \<Rightarrow> (NGX_DECLINED, hit))"
  using assms raw.ac_scan_refines_spec dec.ac_scan_refines_spec
  by (simp add: ngx_http_shield_scan_input_def globals_ok_def buffer_spec_def split: option.split)

text \<open>
  A buffer is an attack when a live signature occurs in the copy its category is matched against, or
  when all the terms of a live rule occur in the copy the rule is matched against.
\<close>

definition table_attack :: "u64 \<Rightarrow> u64 \<Rightarrow> bytes \<Rightarrow> bool" where
  "table_attack m skip copy \<longleftrightarrow>
     list_ex (flags m skip copy) ngx_http_shield_categories
   \<or> list_ex (rule_at ngx_http_shield_categories m skip copy) ngx_http_shield_rules"

definition attack_in :: "shield_globals \<Rightarrow> u64 \<Rightarrow> u64 \<Rightarrow> bytes \<Rightarrow> bool" where
  "attack_in g m skip data \<longleftrightarrow> table_attack m skip (copy_of g m data)"

lemma table_spec_None: "table_spec g m skip data = None \<longleftrightarrow> \<not> attack_in g m skip data"
  unfolding scan_spec_None attack_in_def table_attack_def list_ex_iff by blast

lemma buffer_spec_None:
  "buffer_spec g skip data = None \<longleftrightarrow>
     data = [] \<or> \<not> attack_in g MATCH_RAW skip data \<and> \<not> attack_in g MATCH_DECODED skip data"
  unfolding table_spec_None [symmetric] buffer_spec_def by (simp split: option.split)

text \<open>The rows are in the order of the enum, so the row a scan prefers is the one of the least category.\<close>

lemma categories_sorted: "sorted_wrt (\<lambda>c d. cd_cat c < cd_cat d) ngx_http_shield_categories"
proof -
  have "map (\<lambda>c. cat_val (cd_cat c)) ngx_http_shield_categories = [0..<20] @ [22..<28]" by code_simp
  then have "sorted_wrt (<) (map (\<lambda>c. cat_val (cd_cat c)) ngx_http_shield_categories)" by (simp add: sorted_wrt_append)
  then show ?thesis by (simp add: sorted_wrt_map less_cat_def)
qed

lemma buffer_spec_first:
  assumes "buffer_spec g skip data = Some c"
  shows "\<exists>m \<in> {MATCH_RAW, MATCH_DECODED}. (m = MATCH_DECODED \<longrightarrow> table_spec g MATCH_RAW skip data = None)
    \<and> (first_hit ngx_http_shield_categories m skip (copy_of g m data) c
       \<or> rule_hit ngx_http_shield_categories ngx_http_shield_rules m skip (copy_of g m data) c)"
proof (cases "table_spec g MATCH_RAW skip data")
  case None
  then have "table_spec g MATCH_DECODED skip data = Some c" using assms by (auto simp: buffer_spec_def split: if_splits)
  from scan_spec_first [OF this categories_sorted] None show ?thesis by blast
next
  case (Some d)
  then have "table_spec g MATCH_RAW skip data = Some c" using assms by (auto simp: buffer_spec_def split: if_splits)
  moreover have "MATCH_RAW \<noteq> MATCH_DECODED" by code_simp
  ultimately show ?thesis using scan_spec_first [OF _ categories_sorted] by blast
qed

lemma buffer_spec_Some:
  assumes "buffer_spec g skip data = Some c"
  shows "c \<in> set ngx_http_shield_categories \<and> \<not> bit skip (cat_val (cd_cat c))
    \<and> (\<exists>m \<in> {MATCH_RAW, MATCH_DECODED}. flags m skip (copy_of g m data) c
        \<or> (\<exists>r \<in> set ngx_http_shield_rules. rule_at ngx_http_shield_categories m skip (copy_of g m data) r \<and> rd_cat r = cd_cat c))"
proof -
  have "table_spec g MATCH_RAW skip data = Some c \<or> table_spec g MATCH_DECODED skip data = Some c"
    using assms unfolding buffer_spec_def by (auto simp only: split: if_splits option.splits)
  then obtain m where "m \<in> {MATCH_RAW, MATCH_DECODED}" "table_spec g m skip data = Some c" by blast
  then show ?thesis using scan_spec_Some by blast
qed

end
