(* ===== verification/Config.thy ===== *)
theory Config
  imports Patterns
begin

text \<open>
  The location configuration of \<open>src/ngx_http_shield_module.c\<close>: the configuration struct with its
  unset sentinels, creation and merging, and the directive handlers.  Parsers, allocation, file and
  syslog set-up and the shared memory registry belong to nginx and are fields of \<open>conf_env\<close>.
\<close>

section \<open>Types\<close>

text \<open>A configuration pointer: \<open>NGX_CONF_UNSET_PTR\<close>, \<open>NULL\<close> or an object.\<close>

datatype 'a conf_ptr = UNSET_PTR | NULL_PTR | PTR 'a

definition NGX_CONF_UNSET :: int where "NGX_CONF_UNSET = - 1"
definition NGX_CONF_UNSET_UINT :: nat where "NGX_CONF_UNSET_UINT = 2 ^ 64 - 1"
definition NGX_CONF_UNSET_SIZE :: nat where "NGX_CONF_UNSET_SIZE = 2 ^ 64 - 1"

definition SHIELD_OFF :: nat where "SHIELD_OFF = 0"
definition SHIELD_DETECT :: nat where "SHIELD_DETECT = 1"
definition SHIELD_BLOCK :: nat where "SHIELD_BLOCK = 2"
definition BAN_KEY_PEER :: nat where "BAN_KEY_PEER = 0"
definition BAN_KEY_FORWARDED :: nat where "BAN_KEY_FORWARDED = 1"
definition NGX_HTTP_FORBIDDEN :: nat where "NGX_HTTP_FORBIDDEN = 403"

text \<open>Files, syslog peers, zones and address ranges are named by handles.\<close>

type_synonym cidr = nat

record ngx_http_shield_loc_conf_t =
  lc_mode :: nat
  lc_body :: int
  lc_max_body :: nat
  lc_status :: nat
  lc_skip :: u64
  lc_log :: "nat conf_ptr"
  lc_log_error_time :: time_t
  lc_log_disk_full_time :: time_t
  lc_syslog_peer :: "nat conf_ptr"
  lc_ban_zone :: "nat conf_ptr"
  lc_ban_count :: nat
  lc_ban_window :: time_t
  lc_ban_time :: time_t
  lc_ban_key :: nat
  lc_ban_trusted :: "cidr list conf_ptr"
  lc_status_zone :: "nat conf_ptr"

datatype conf_rc = CONF_OK | CONF_ERROR | CONF_DUPLICATE

text \<open>
  What the directives call of nginx.  \<open>ce_shared_memory_add name size\<close> gives the zone and whether it
  already has module data; \<open>ce_ptocidr\<close> gives \<open>NGX_OK\<close>, \<open>NGX_DONE\<close> or \<open>NGX_ERROR\<close> with the range.
\<close>

record conf_env =
  ce_atoi :: "bytes \<Rightarrow> int"
  ce_parse_time :: "bytes \<Rightarrow> int"
  ce_parse_size :: "bytes \<Rightarrow> int"
  ce_ptocidr :: "bytes \<Rightarrow> ngx_rc \<times> cidr"
  ce_shared_memory_add :: "bytes \<Rightarrow> int \<Rightarrow> (nat \<times> bool) option"
  ce_palloc :: bool
  ce_open_file :: "bytes \<Rightarrow> nat option"
  ce_syslog_process_conf :: "bytes \<Rightarrow> nat option"
  ce_pagesize :: int

text \<open>The C string at a data pointer: the bytes before the first NUL.\<close>

definition c_str :: "bytes \<Rightarrow> bytes" where
  "c_str v = takeWhile (\<lambda>c. c \<noteq> CHR 0x00) v"

text \<open>\<open>ngx_strncmp(v.data, lit, sizeof(lit) - 1) == 0\<close> for a literal without NUL.\<close>

definition starts_with :: "bytes \<Rightarrow> bytes \<Rightarrow> bool" where
  "starts_with v lit \<longleftrightarrow> take (length lit) (c_str v) = lit"

section \<open>Creation and merging\<close>

definition ngx_http_shield_create_loc_conf :: "conf_env \<Rightarrow> ngx_http_shield_loc_conf_t option" where
  "ngx_http_shield_create_loc_conf env =
     (if \<not> ce_palloc env then None
      else Some \<lparr>lc_mode = NGX_CONF_UNSET_UINT, lc_body = NGX_CONF_UNSET, lc_max_body = NGX_CONF_UNSET_SIZE,
        lc_status = NGX_CONF_UNSET_UINT, lc_skip = 0, lc_log = UNSET_PTR, lc_log_error_time = 0,
        lc_log_disk_full_time = 0, lc_syslog_peer = UNSET_PTR, lc_ban_zone = UNSET_PTR,
        lc_ban_count = NGX_CONF_UNSET_UINT, lc_ban_window = NGX_CONF_UNSET, lc_ban_time = NGX_CONF_UNSET,
        lc_ban_key = BAN_KEY_PEER, lc_ban_trusted = NULL_PTR, lc_status_zone = NULL_PTR\<rparr>)"

text \<open>\<open>ngx_conf_merge_value\<close> and its variants: own value, else the parent's, else the default.\<close>

definition merge_value :: "'a \<Rightarrow> 'a \<Rightarrow> 'a \<Rightarrow> 'a \<Rightarrow> 'a" where
  "merge_value unset conf prev dflt = (if conf = unset then (if prev = unset then dflt else prev) else conf)"

definition ptr_or_null :: "'a conf_ptr \<Rightarrow> 'a conf_ptr" where
  "ptr_or_null p = (if p = UNSET_PTR then NULL_PTR else p)"

definition merge_log :: "ngx_http_shield_loc_conf_t \<Rightarrow> ngx_http_shield_loc_conf_t \<Rightarrow> ngx_http_shield_loc_conf_t" where
  "merge_log prev conf =
     (if lc_log conf = UNSET_PTR
      then conf\<lparr>lc_log := ptr_or_null (lc_log prev), lc_syslog_peer := ptr_or_null (lc_syslog_peer prev)\<rparr> else conf)"

definition merge_ban :: "ngx_http_shield_loc_conf_t \<Rightarrow> ngx_http_shield_loc_conf_t \<Rightarrow> ngx_http_shield_loc_conf_t" where
  "merge_ban prev conf =
     (if lc_ban_zone conf = UNSET_PTR
      then (if lc_ban_zone prev = UNSET_PTR
            then conf\<lparr>lc_ban_zone := NULL_PTR, lc_ban_count := 0, lc_ban_window := 0, lc_ban_time := 0,
                      lc_ban_key := BAN_KEY_PEER, lc_ban_trusted := NULL_PTR\<rparr>
            else conf\<lparr>lc_ban_zone := lc_ban_zone prev, lc_ban_count := lc_ban_count prev,
                      lc_ban_window := lc_ban_window prev, lc_ban_time := lc_ban_time prev,
                      lc_ban_key := lc_ban_key prev, lc_ban_trusted := lc_ban_trusted prev\<rparr>)
      else conf)"

definition ngx_http_shield_merge_loc_conf :: "ngx_http_shield_loc_conf_t \<Rightarrow> ngx_http_shield_loc_conf_t
    \<Rightarrow> conf_rc \<times> ngx_http_shield_loc_conf_t" where
  "ngx_http_shield_merge_loc_conf prev conf =
     (let c1 = conf\<lparr>lc_mode := merge_value NGX_CONF_UNSET_UINT (lc_mode conf) (lc_mode prev) SHIELD_OFF,
                    lc_body := merge_value NGX_CONF_UNSET (lc_body conf) (lc_body prev) 1,
                    lc_max_body := merge_value NGX_CONF_UNSET_SIZE (lc_max_body conf) (lc_max_body prev) (8 * 1024),
                    lc_status := merge_value NGX_CONF_UNSET_UINT (lc_status conf) (lc_status prev) NGX_HTTP_FORBIDDEN\<rparr>;
          c2 = (if lc_skip c1 = 0 then c1\<lparr>lc_skip := lc_skip prev\<rparr> else c1)
      in (CONF_OK, merge_ban prev (merge_log prev c2)))"

section \<open>Simple directives\<close>

definition ngx_http_shield_mode :: "bytes \<Rightarrow> ngx_http_shield_loc_conf_t \<Rightarrow> conf_rc \<times> ngx_http_shield_loc_conf_t" where
  "ngx_http_shield_mode v slcf =
     (if lc_mode slcf \<noteq> NGX_CONF_UNSET_UINT then (CONF_DUPLICATE, slcf)
      else if c_str v = ''off'' then (CONF_OK, slcf\<lparr>lc_mode := SHIELD_OFF\<rparr>)
      else if c_str v = ''detect'' then (CONF_OK, slcf\<lparr>lc_mode := SHIELD_DETECT\<rparr>)
      else if c_str v = ''block'' then (CONF_OK, slcf\<lparr>lc_mode := SHIELD_BLOCK\<rparr>)
      else (CONF_ERROR, slcf))"

definition ngx_http_shield_status :: "conf_env \<Rightarrow> bytes \<Rightarrow> ngx_http_shield_loc_conf_t \<Rightarrow> conf_rc \<times> ngx_http_shield_loc_conf_t" where
  "ngx_http_shield_status env v slcf =
     (if lc_status slcf \<noteq> NGX_CONF_UNSET_UINT then (CONF_DUPLICATE, slcf)
      else (let code = ce_atoi env v
            in if code \<noteq> 403 \<and> code \<noteq> 404 \<and> code \<noteq> 419 \<and> code \<noteq> 429 \<and> code \<noteq> 444 then (CONF_ERROR, slcf)
               else (CONF_OK, slcf\<lparr>lc_status := nat code\<rparr>)))"

fun cat_in_table :: "bytes \<Rightarrow> ngx_http_shield_catdef_t list \<Rightarrow> nat option" where
  "cat_in_table nm [] = None"
| "cat_in_table nm (c # cs) = (if nm = cd_name c then Some (cat_val (cd_cat c)) else cat_in_table nm cs)"

text \<open>\<open>None\<close> is the result -1.\<close>

definition ngx_http_shield_cat_by_name :: "bytes \<Rightarrow> nat option" where
  "ngx_http_shield_cat_by_name nm =
     (case cat_in_table nm ngx_http_shield_categories of
        Some k \<Rightarrow> Some k
      | None \<Rightarrow>
          if nm = NAME_HTTPOXY then Some (cat_val CAT_HTTPOXY)
          else if nm = NAME_RANGE_DOS then Some (cat_val CAT_RANGE_DOS)
          else if nm = NAME_CTRL_CHAR then Some (cat_val CAT_CTRL_CHAR)
          else if nm = NAME_DOTFILE then Some (cat_val CAT_DOTFILE)
          else None)"

fun ngx_http_shield_skip :: "bytes list \<Rightarrow> ngx_http_shield_loc_conf_t \<Rightarrow> conf_rc \<times> ngx_http_shield_loc_conf_t" where
  "ngx_http_shield_skip [] slcf = (CONF_OK, slcf)"
| "ngx_http_shield_skip (v # vs) slcf =
     (case ngx_http_shield_cat_by_name v of
        None \<Rightarrow> (CONF_ERROR, slcf)
      | Some cat \<Rightarrow> ngx_http_shield_skip vs (slcf\<lparr>lc_skip := lc_skip slcf OR bit_at cat\<rparr>))"

fun name_in_table :: "nat \<Rightarrow> ngx_http_shield_catdef_t list \<Rightarrow> bytes option" where
  "name_in_table k [] = None"
| "name_in_table k (c # cs) = (if cat_val (cd_cat c) = k then Some (cd_name c) else name_in_table k cs)"

definition ngx_http_shield_cat_name :: "nat \<Rightarrow> bytes" where
  "ngx_http_shield_cat_name cat =
     (case name_in_table cat ngx_http_shield_categories of
        Some nm \<Rightarrow> nm
      | None \<Rightarrow>
          if cat = cat_val CAT_HTTPOXY then NAME_HTTPOXY
          else if cat = cat_val CAT_RANGE_DOS then NAME_RANGE_DOS
          else if cat = cat_val CAT_CTRL_CHAR then NAME_CTRL_CHAR
          else if cat = cat_val CAT_DOTFILE then NAME_DOTFILE
          else ''unknown'')"

definition ngx_http_shield_log :: "conf_env \<Rightarrow> bytes \<Rightarrow> ngx_http_shield_loc_conf_t \<Rightarrow> conf_rc \<times> ngx_http_shield_loc_conf_t" where
  "ngx_http_shield_log env v slcf =
     (if lc_log slcf \<noteq> UNSET_PTR then (CONF_DUPLICATE, slcf)
      else if length v = 3 \<and> starts_with v ''off''
      then (CONF_OK, slcf\<lparr>lc_log := NULL_PTR, lc_syslog_peer := NULL_PTR\<rparr>)
      else if v \<noteq> [] \<and> hd v = CHR ''|'' then (CONF_ERROR, slcf)
      else if starts_with v ''syslog:''
      then (if \<not> ce_palloc env then (CONF_ERROR, slcf)
            else (case ce_syslog_process_conf env v of
                    None \<Rightarrow> (CONF_ERROR, slcf)
                  | Some peer \<Rightarrow> (CONF_OK, slcf\<lparr>lc_syslog_peer := PTR peer, lc_log := NULL_PTR\<rparr>)))
      else (case ce_open_file env v of
              None \<Rightarrow> (CONF_ERROR, slcf\<lparr>lc_log := NULL_PTR\<rparr>)
            | Some f \<Rightarrow> (CONF_OK, slcf\<lparr>lc_log := PTR f, lc_syslog_peer := NULL_PTR\<rparr>)))"

section \<open>Zones and ban policy\<close>

text \<open>The bytes before and after the first colon of the C string.\<close>

definition ngx_http_shield_ban_zone :: "conf_env \<Rightarrow> bytes \<Rightarrow> conf_rc \<times> nat option" where
  "ngx_http_shield_ban_zone env v =
     (if CHR '':'' \<notin> set (c_str v) then (CONF_ERROR, None)
      else (let name = takeWhile (\<lambda>c. c \<noteq> CHR '':'') v;
                s = drop (length name + 1) v;
                size = ce_parse_size env s
            in if size = - 1 then (CONF_ERROR, None)
               else if size < 8 * ce_pagesize env then (CONF_ERROR, None)
               else if \<not> ce_palloc env then (CONF_ERROR, None)
               else (case ce_shared_memory_add env name size of
                       None \<Rightarrow> (CONF_ERROR, None)
                     | Some (z, has_data) \<Rightarrow> if has_data then (CONF_ERROR, None) else (CONF_OK, Some z))))"

text \<open>The local variables of the \<open>shield_ban\<close> parser.\<close>

record ban_args =
  ba_name :: bytes
  ba_n :: int
  ba_window :: int
  ba_bantime :: int
  ba_key :: nat
  ba_trusted :: "cidr list conf_ptr"

definition ban_args0 :: ban_args where
  "ban_args0 = \<lparr>ba_name = [], ba_n = NGX_CONF_UNSET, ba_window = NGX_CONF_UNSET, ba_bantime = NGX_CONF_UNSET,
     ba_key = BAN_KEY_PEER, ba_trusted = NULL_PTR\<rparr>"

text \<open>\<open>ngx_array_create\<close> on the first address, then \<open>ngx_array_push\<close>.\<close>

definition push_trusted :: "cidr \<Rightarrow> cidr list conf_ptr \<Rightarrow> cidr list conf_ptr" where
  "push_trusted c t = (case t of PTR cs \<Rightarrow> PTR (cs @ [c]) | _ \<Rightarrow> PTR [c])"

text \<open>One iteration of the argument loop; \<open>None\<close> is \<open>NGX_CONF_ERROR\<close>.\<close>

definition ban_arg :: "conf_env \<Rightarrow> bytes \<Rightarrow> ban_args \<Rightarrow> ban_args option" where
  "ban_arg env v a =
     (if starts_with v ''zone='' then Some (a\<lparr>ba_name := drop 5 v\<rparr>)
      else if starts_with v ''count=''
      then (let n = ce_atoi env (drop 6 v) in if n = - 1 \<or> n \<le> 0 then None else Some (a\<lparr>ba_n := n\<rparr>))
      else if starts_with v ''window=''
      then (let w = ce_parse_time env (drop 7 v) in if w = - 1 \<or> w \<le> 0 then None else Some (a\<lparr>ba_window := w\<rparr>))
      else if starts_with v ''bantime=''
      then (let b = ce_parse_time env (drop 8 v) in if b = - 1 \<or> b \<le> 0 then None else Some (a\<lparr>ba_bantime := b\<rparr>))
      else if starts_with v ''key=''
      then (let s = drop 4 v
            in if length s = 4 \<and> starts_with s ''peer'' then Some (a\<lparr>ba_key := BAN_KEY_PEER\<rparr>)
               else if length s = 9 \<and> starts_with s ''forwarded'' then Some (a\<lparr>ba_key := BAN_KEY_FORWARDED\<rparr>)
               else None)
      else if starts_with v ''trusted=''
      then (if \<not> ce_palloc env then None
            else (case ce_ptocidr env (drop 8 v) of
                    (NGX_ERROR, _) \<Rightarrow> None
                  | (_, c) \<Rightarrow> Some (a\<lparr>ba_trusted := push_trusted c (ba_trusted a)\<rparr>)))
      else None)"

fun ban_arg_loop :: "conf_env \<Rightarrow> bytes list \<Rightarrow> ban_args \<Rightarrow> ban_args option" where
  "ban_arg_loop env [] a = Some a"
| "ban_arg_loop env (v # vs) a =
     (case ban_arg env v a of None \<Rightarrow> None | Some a' \<Rightarrow> ban_arg_loop env vs a')"

definition ngx_http_shield_ban :: "conf_env \<Rightarrow> bytes list \<Rightarrow> ngx_http_shield_loc_conf_t \<Rightarrow> conf_rc \<times> ngx_http_shield_loc_conf_t" where
  "ngx_http_shield_ban env vs slcf =
     (if lc_ban_zone slcf \<noteq> UNSET_PTR then (CONF_DUPLICATE, slcf)
      else (case ban_arg_loop env vs ban_args0 of
              None \<Rightarrow> (CONF_ERROR, slcf)
            | Some a \<Rightarrow>
                if ba_name a = [] \<or> ba_n a = NGX_CONF_UNSET \<or> ba_window a = NGX_CONF_UNSET
                   \<or> ba_bantime a = NGX_CONF_UNSET then (CONF_ERROR, slcf)
                else if ba_key a = BAN_KEY_FORWARDED \<and> ba_trusted a = NULL_PTR then (CONF_ERROR, slcf)
                else if ba_key a = BAN_KEY_PEER \<and> ba_trusted a \<noteq> NULL_PTR then (CONF_ERROR, slcf)
                else (case ce_shared_memory_add env (ba_name a) 0 of
                        None \<Rightarrow> (CONF_ERROR, slcf)
                      | Some (z, _) \<Rightarrow> (CONF_OK, slcf\<lparr>lc_ban_zone := PTR z, lc_ban_count := nat (ba_n a),
                          lc_ban_window := ba_window a, lc_ban_time := ba_bantime a,
                          lc_ban_key := ba_key a, lc_ban_trusted := ba_trusted a\<rparr>))))"

text \<open>The flag says that the content handler was installed.\<close>

definition ngx_http_shield_ban_status :: "conf_env \<Rightarrow> bytes \<Rightarrow> ngx_http_shield_loc_conf_t
    \<Rightarrow> conf_rc \<times> ngx_http_shield_loc_conf_t \<times> bool" where
  "ngx_http_shield_ban_status env v slcf =
     (if lc_status_zone slcf \<noteq> NULL_PTR then (CONF_DUPLICATE, slcf, False)
      else (case ce_shared_memory_add env v 0 of
              None \<Rightarrow> (CONF_ERROR, slcf\<lparr>lc_status_zone := NULL_PTR\<rparr>, False)
            | Some (z, _) \<Rightarrow> (CONF_OK, slcf\<lparr>lc_status_zone := PTR z\<rparr>, True)))"

section \<open>What a loaded configuration satisfies\<close>

text \<open>Category names and category numbers are inverse to each other.\<close>

lemmas cat_eval = ngx_http_shield_cat_by_name_def ngx_http_shield_cat_name_def ngx_http_shield_categories_def TABLE_def
  NAME_HTTPOXY_def NAME_RANGE_DOS_def NAME_CTRL_CHAR_def NAME_DOTFILE_def

lemma cat_names: "ngx_http_shield_cat_by_name (ngx_http_shield_cat_name (cat_val k)) = Some (cat_val k)"
  by (cases k) (simp_all add: cat_eval)

lemma cat_in_table_Some: "cat_in_table nm cs = Some k \<Longrightarrow> \<exists>c \<in> set cs. k = cat_val (cd_cat c) \<and> nm = cd_name c"
  by (induction cs) (auto split: if_splits)

lemma cat_name_table: "list_all (\<lambda>c. ngx_http_shield_cat_name (cat_val (cd_cat c)) = cd_name c) ngx_http_shield_categories"
  by (simp add: cat_eval)

lemma cat_val_bound: "cat_val k < CAT_N"
  by (cases k) (simp_all add: CAT_N_def)

lemma cat_name_structural:
  "ngx_http_shield_cat_name (cat_val CAT_HTTPOXY) = NAME_HTTPOXY"
  "ngx_http_shield_cat_name (cat_val CAT_RANGE_DOS) = NAME_RANGE_DOS"
  "ngx_http_shield_cat_name (cat_val CAT_CTRL_CHAR) = NAME_CTRL_CHAR"
  "ngx_http_shield_cat_name (cat_val CAT_DOTFILE) = NAME_DOTFILE"
  by (simp_all add: cat_eval)

lemma cat_by_name_Some:
  assumes "ngx_http_shield_cat_by_name nm = Some k"
  shows "\<exists>c. k = cat_val c \<and> ngx_http_shield_cat_name k = nm"
proof (cases "cat_in_table nm ngx_http_shield_categories")
  case (Some j)
  then have "j = k" using assms unfolding ngx_http_shield_cat_by_name_def by simp
  then obtain c where "c \<in> set ngx_http_shield_categories" "k = cat_val (cd_cat c)" "nm = cd_name c"
    using cat_in_table_Some [OF Some] by blast
  then show ?thesis using cat_name_table unfolding list_all_iff by blast
next
  case None
  then have e: "(if nm = NAME_HTTPOXY then Some (cat_val CAT_HTTPOXY)
      else if nm = NAME_RANGE_DOS then Some (cat_val CAT_RANGE_DOS)
      else if nm = NAME_CTRL_CHAR then Some (cat_val CAT_CTRL_CHAR)
      else if nm = NAME_DOTFILE then Some (cat_val CAT_DOTFILE) else None) = Some k"
    using assms unfolding ngx_http_shield_cat_by_name_def by (simp only: option.case)
  show ?thesis
    using e cat_name_structural by (metis option.distinct(1) option.inject)
qed

text \<open>\<open>shield_skip\<close> sets exactly the bits of the named categories.\<close>

lemma skip_bits:
  "ngx_http_shield_skip vs slcf = (CONF_OK, slcf') \<Longrightarrow>
     bit (lc_skip slcf') k \<longleftrightarrow> bit (lc_skip slcf) k \<or> k < 64 \<and> (\<exists>v \<in> set vs. ngx_http_shield_cat_by_name v = Some k)"
proof (induction vs arbitrary: slcf)
  case (Cons v vs)
  then show ?case by (auto simp: mask_simps split: option.splits)
qed simp

text \<open>A ban policy that is in force is well-formed.\<close>

definition ban_policy_ok :: "ngx_http_shield_loc_conf_t \<Rightarrow> bool" where
  "ban_policy_ok slcf \<longleftrightarrow> (case lc_ban_zone slcf of
     PTR z \<Rightarrow> 0 < lc_ban_count slcf \<and> 0 < lc_ban_window slcf \<and> 0 < lc_ban_time slcf
       \<and> (lc_ban_key slcf = BAN_KEY_PEER \<and> lc_ban_trusted slcf = NULL_PTR
          \<or> lc_ban_key slcf = BAN_KEY_FORWARDED \<and> (\<exists>c cs. lc_ban_trusted slcf = PTR (c # cs)))
   | _ \<Rightarrow> True)"

definition args_ok :: "ban_args \<Rightarrow> bool" where
  "args_ok a \<longleftrightarrow> (ba_n a = NGX_CONF_UNSET \<or> 0 < ba_n a) \<and> (ba_window a = NGX_CONF_UNSET \<or> 0 < ba_window a)
     \<and> (ba_bantime a = NGX_CONF_UNSET \<or> 0 < ba_bantime a) \<and> ba_key a \<in> {BAN_KEY_PEER, BAN_KEY_FORWARDED}
     \<and> (ba_trusted a = NULL_PTR \<or> (\<exists>c cs. ba_trusted a = PTR (c # cs)))"

lemma args_ok_upd:
  assumes "args_ok a"
  shows "args_ok (a\<lparr>ba_name := nm\<rparr>)" and "0 < n \<Longrightarrow> args_ok (a\<lparr>ba_n := n\<rparr>)"
    and "0 < n \<Longrightarrow> args_ok (a\<lparr>ba_window := n\<rparr>)" and "0 < n \<Longrightarrow> args_ok (a\<lparr>ba_bantime := n\<rparr>)"
    and "args_ok (a\<lparr>ba_key := BAN_KEY_PEER\<rparr>)" and "args_ok (a\<lparr>ba_key := BAN_KEY_FORWARDED\<rparr>)"
    and "args_ok (a\<lparr>ba_trusted := push_trusted c (ba_trusted a)\<rparr>)"
  using assms by (auto simp: args_ok_def push_trusted_def)

lemma ban_arg_ok: "args_ok a \<Longrightarrow> ban_arg env v a = Some a' \<Longrightarrow> args_ok a'"
  unfolding ban_arg_def Let_def
  by (auto simp: not_le split: if_split_asm prod.splits ngx_rc.splits intro: args_ok_upd)

lemma ban_arg_loop_ok: "args_ok a \<Longrightarrow> ban_arg_loop env vs a = Some a' \<Longrightarrow> args_ok a'"
  by (induction vs arbitrary: a) (auto split: option.splits dest: ban_arg_ok)

lemma shield_ban_ok:
  assumes "ngx_http_shield_ban env vs slcf = (CONF_OK, slcf')"
  shows "ban_policy_ok slcf' \<and> (\<exists>z. lc_ban_zone slcf' = PTR z)"
proof -
  obtain a where a: "ban_arg_loop env vs ban_args0 = Some a"
    using assms by (auto simp: ngx_http_shield_ban_def split: if_splits option.splits)
  have "args_ok ban_args0" by (simp add: args_ok_def ban_args0_def)
  then have "args_ok a" using ban_arg_loop_ok a by blast
  then show ?thesis using assms a
    by (auto simp: ngx_http_shield_ban_def args_ok_def ban_policy_ok_def BAN_KEY_PEER_def BAN_KEY_FORWARDED_def
        split: if_splits option.splits)
qed

lemma merge_policy_ok:
  "ban_policy_ok prev \<Longrightarrow> ban_policy_ok conf \<Longrightarrow> ban_policy_ok (snd (ngx_http_shield_merge_loc_conf prev conf))"
  by (auto simp: ngx_http_shield_merge_loc_conf_def merge_ban_def merge_log_def ban_policy_ok_def Let_def
      split: conf_ptr.splits)

end
