(* ===== verification/Request.thy ===== *)
theory Request
  imports Tables Config
begin

text \<open>
  Inspection of one request in \<open>src/ngx_http_shield_module.c\<close>: the structural checks, the content
  type tests, the collection of the body, and the scans of the request target, the headers and the
  body.

  Every pool allocation has an outcome; the outcomes still to come are a list (\<open>pool\<close>) threaded
  through the inspection, an exhausted list meaning that every further allocation is served.  The
  header list of nginx is a list, a chain of equal headers the list of its values.
\<close>

section \<open>Types\<close>

record ngx_table_elt_t =
  hd_hash :: nat
  hd_key :: bytes
  hd_value :: bytes

text \<open>
  A body buffer: in memory, in a file (position, length and the read function of the file), or
  neither.  \<open>ngx_read_file\<close> gives the bytes read at an offset, or \<open>None\<close> for an error.
\<close>

datatype body_buf = MemBuf bytes | FileBuf int nat "int \<Rightarrow> nat \<Rightarrow> bytes option" | OtherBuf

datatype sockaddr = AF_INET bytes | AF_INET6 bytes | AF_OTHER

record ngx_http_request_t =
  r_main :: bool
  r_uri :: bytes
  r_unparsed_uri :: bytes
  r_request_line :: bytes
  r_headers :: "ngx_table_elt_t list"
  r_range :: "bytes option"
  r_content_type :: "bytes list"
  r_content_length_n :: int
  r_chunked :: bool
  r_body :: "body_buf list option"
  r_x_forwarded_for :: "bytes list"
  r_sockaddr :: sockaddr
  r_addr_text :: bytes

text \<open>What the inspection calls of nginx besides the scanner: bounded caseless comparison and search.\<close>

record ngx_env =
  e_globals :: shield_globals
  e_strncasecmp :: "bytes \<Rightarrow> bytes \<Rightarrow> nat \<Rightarrow> int"
  e_strlchr :: "bytes \<Rightarrow> byte \<Rightarrow> nat option"

type_synonym pool = "bool list"

definition palloc :: "pool \<Rightarrow> bool \<times> pool" where
  "palloc pool = (case pool of [] \<Rightarrow> (True, []) | b # bs \<Rightarrow> (b, bs))"

definition MAX_RANGES :: nat where "MAX_RANGES = 10"

section \<open>Names and media types\<close>

definition ngx_http_shield_header_name_is :: "ngx_env \<Rightarrow> ngx_table_elt_t \<Rightarrow> bytes \<Rightarrow> bool" where
  "ngx_http_shield_header_name_is env h name \<longleftrightarrow>
     length (hd_key h) = length name \<and> e_strncasecmp env (hd_key h) name (length name) = 0"

definition ngx_http_shield_content_type_is :: "ngx_env \<Rightarrow> bytes \<Rightarrow> bytes \<Rightarrow> bool" where
  "ngx_http_shield_content_type_is env v type \<longleftrightarrow>
     (if length v < length type \<or> e_strncasecmp env v type (length type) \<noteq> 0 then False
      else (let rest = dropWhile (\<lambda>c. c = CHR '' '' \<or> c = CHR 0x09) (drop (length type) v)
            in rest = [] \<or> hd rest = CHR '';''))"

definition ngx_http_shield_content_type_suffix :: "ngx_env \<Rightarrow> bytes \<Rightarrow> bytes \<Rightarrow> bool" where
  "ngx_http_shield_content_type_suffix env v suf \<longleftrightarrow>
     (if length v < length ''application/'' + length suf
         \<or> e_strncasecmp env v ''application/'' (length ''application/'') \<noteq> 0 then False
      else (let token = takeWhile (\<lambda>c. c \<noteq> CHR '';'') v;
                end = length (dropWhile (\<lambda>c. c = CHR '' '' \<or> c = CHR 0x09) (rev token))
            in end \<ge> length suf \<and> e_strncasecmp env (drop (end - length suf) v) suf (length suf) = 0))"

definition ngx_http_shield_content_type_value_scannable :: "ngx_env \<Rightarrow> bytes \<Rightarrow> bool" where
  "ngx_http_shield_content_type_value_scannable env v \<longleftrightarrow>
     (if ngx_http_shield_content_type_is env v ''application/x-www-form-urlencoded'' then True
      else if ngx_http_shield_content_type_is env v ''multipart/form-data'' then True
      else if ngx_http_shield_content_type_is env v ''application/json'' then True
      else if length v \<ge> length ''text/'' \<and> e_strncasecmp env v ''text/'' (length ''text/'') = 0 then True
      else if ngx_http_shield_content_type_is env v ''application/xml'' then True
      else if ngx_http_shield_content_type_suffix env v ''+json''
           \<or> ngx_http_shield_content_type_suffix env v ''+xml''
           \<or> ngx_http_shield_content_type_is env v ''application/graphql''
           \<or> ngx_http_shield_content_type_is env v ''application/x-ndjson''
           \<or> ngx_http_shield_content_type_is env v ''application/json-seq''
           \<or> ngx_http_shield_content_type_is env v ''application/yaml''
           \<or> ngx_http_shield_content_type_is env v ''application/x-yaml'' then True
      else False)"

definition ngx_http_shield_scannable_body :: "ngx_env \<Rightarrow> ngx_http_request_t \<Rightarrow> bool" where
  "ngx_http_shield_scannable_body env r \<longleftrightarrow>
     (if r_content_length_n r \<le> 0 \<and> \<not> r_chunked r then False
      else if r_content_type r = [] then True
      else list_ex (ngx_http_shield_content_type_value_scannable env) (r_content_type r))"

section \<open>Structural checks\<close>

definition cat_skipped :: "ngx_http_shield_loc_conf_t \<Rightarrow> ngx_http_shield_cat_e \<Rightarrow> bool" where
  "cat_skipped slcf k \<longleftrightarrow> lc_skip slcf AND bit_at (cat_val k) \<noteq> 0"

definition structural_hit :: "bytes \<Rightarrow> ngx_http_shield_cat_e \<Rightarrow> bytes \<Rightarrow> ngx_http_shield_hit_t" where
  "structural_hit nm k source = \<lparr>h_category = nm, h_source = source, h_cat = cat_val k\<rparr>"

definition ngx_http_shield_check_httpoxy :: "ngx_env \<Rightarrow> ngx_http_request_t \<Rightarrow> ngx_http_shield_loc_conf_t
    \<Rightarrow> ngx_http_shield_hit_t \<Rightarrow> ngx_rc \<times> ngx_http_shield_hit_t" where
  "ngx_http_shield_check_httpoxy env r slcf hit =
     (if cat_skipped slcf CAT_HTTPOXY then (NGX_DECLINED, hit)
      else if list_ex (\<lambda>h. length (hd_key h) = length ''Proxy''
                          \<and> e_strncasecmp env (hd_key h) ''Proxy'' (length ''Proxy'') = 0) (r_headers r)
      then (NGX_OK, structural_hit NAME_HTTPOXY CAT_HTTPOXY ''header'')
      else (NGX_DECLINED, hit))"

fun count_ranges :: "bytes \<Rightarrow> nat \<Rightarrow> nat" where
  "count_ranges [] n = n"
| "count_ranges (c # cs) n = count_ranges cs (if c = CHR '','' then n + 1 else n)"

definition ngx_http_shield_check_range :: "ngx_http_request_t \<Rightarrow> ngx_http_shield_loc_conf_t
    \<Rightarrow> ngx_http_shield_hit_t \<Rightarrow> ngx_rc \<times> ngx_http_shield_hit_t" where
  "ngx_http_shield_check_range r slcf hit =
     (if cat_skipped slcf CAT_RANGE_DOS then (NGX_DECLINED, hit)
      else (case r_range r of
              None \<Rightarrow> (NGX_DECLINED, hit)
            | Some v \<Rightarrow>
                if count_ranges v 1 > MAX_RANGES
                then (NGX_OK, structural_hit NAME_RANGE_DOS CAT_RANGE_DOS ''range'')
                else (NGX_DECLINED, hit)))"

fun has_ctrl_char :: "bytes \<Rightarrow> bool" where
  "has_ctrl_char [] = False"
| "has_ctrl_char (c # cs) =
     (if byte_val c \<ge> 32 then has_ctrl_char cs
      else if c = CHR 0x00 \<or> c = CHR 0x0D \<or> c = CHR 0x0A then has_ctrl_char cs
      else True)"

definition ngx_http_shield_check_ctrl_char :: "ngx_http_request_t \<Rightarrow> ngx_http_shield_loc_conf_t
    \<Rightarrow> ngx_http_shield_hit_t \<Rightarrow> ngx_rc \<times> ngx_http_shield_hit_t" where
  "ngx_http_shield_check_ctrl_char r slcf hit =
     (if cat_skipped slcf CAT_CTRL_CHAR then (NGX_DECLINED, hit)
      else if has_ctrl_char (r_uri r) then (NGX_OK, structural_hit NAME_CTRL_CHAR CAT_CTRL_CHAR ''uri'')
      else (NGX_DECLINED, hit))"

definition WELL_KNOWN :: bytes where "WELL_KNOWN = ''.well-known''"

text \<open>
  The loop of the dotfile check on the rest of the path; \<open>start\<close> is \<open>at_segment_start\<close>.  Skipping
  \<open>.well-known\<close> drops the whole segment.
\<close>

function has_dotfile :: "bool \<Rightarrow> bytes \<Rightarrow> bool" where
  "has_dotfile start [] = False"
| "has_dotfile start (c # cs) =
     (let rest = c # cs in
      if c = CHR ''/'' then has_dotfile True cs
      else if start \<and> c = CHR ''.''
      then (if length rest = 1 \<or> length rest \<ge> 2 \<and> rest ! 1 = CHR ''/'' then has_dotfile False cs
            else if length rest = 2 \<and> rest ! 1 = CHR ''.''
                 \<or> length rest \<ge> 3 \<and> rest ! 1 = CHR ''.'' \<and> rest ! 2 = CHR ''/'' then has_dotfile False cs
            else if length rest \<ge> length WELL_KNOWN \<and> take (length WELL_KNOWN) rest = WELL_KNOWN
                 \<and> (length rest = length WELL_KNOWN \<or> rest ! length WELL_KNOWN = CHR ''/'')
            then has_dotfile False (drop (length WELL_KNOWN) rest)
            else True)
      else has_dotfile False cs)"
  by pat_completeness auto
termination
  by (relation "measure (length o snd)") (auto simp: WELL_KNOWN_def)

declare has_dotfile.simps(2) [simp del]

definition ngx_http_shield_check_dotfile :: "ngx_http_request_t \<Rightarrow> ngx_http_shield_loc_conf_t
    \<Rightarrow> ngx_http_shield_hit_t \<Rightarrow> ngx_rc \<times> ngx_http_shield_hit_t" where
  "ngx_http_shield_check_dotfile r slcf hit =
     (if cat_skipped slcf CAT_DOTFILE then (NGX_DECLINED, hit)
      else if has_dotfile True (r_uri r) then (NGX_OK, structural_hit NAME_DOTFILE CAT_DOTFILE ''uri'')
      else (NGX_DECLINED, hit))"

section \<open>Scans\<close>

text \<open>Both scratch buffers are requested before either is tested.\<close>

definition ngx_http_shield_scan_r :: "ngx_env \<Rightarrow> pool \<Rightarrow> bytes \<Rightarrow> bytes \<Rightarrow> u64 \<Rightarrow> ngx_http_shield_hit_t
    \<Rightarrow> (ngx_rc \<times> ngx_http_shield_hit_t) \<times> pool" where
  "ngx_http_shield_scan_r env pool data source skip hit =
     (if data = [] then ((NGX_DECLINED, hit), pool)
      else (case palloc pool of (lc, pool1) \<Rightarrow>
            case palloc pool1 of (dec, pool2) \<Rightarrow>
              if \<not> lc \<or> \<not> dec then ((NGX_ERROR, hit), pool2)
              else (ngx_http_shield_scan_input (e_globals env) data source skip hit, pool2)))"

text \<open>The label and the skip mask of a header, the \<open>if\<close> chain of the header loop.\<close>

definition generic_allowed :: u64 where
  "generic_allowed = bit_at (cat_val CAT_TEMPLATE) OR bit_at (cat_val CAT_SHELLSHOCK)"

definition content_type_allowed :: u64 where
  "content_type_allowed = generic_allowed OR (bit_at (cat_val CAT_JAVA_RCE) OR bit_at (cat_val CAT_CRLF)
     OR bit_at (cat_val CAT_NULLBYTE) OR bit_at (cat_val CAT_OVERLONG))"

definition cookie_allowed :: u64 where
  "cookie_allowed = generic_allowed OR (bit_at (cat_val CAT_SQLI) OR bit_at (cat_val CAT_XSS)
     OR bit_at (cat_val CAT_CMDI) OR bit_at (cat_val CAT_LFI_RFI) OR bit_at (cat_val CAT_CRLF)
     OR bit_at (cat_val CAT_NULLBYTE) OR bit_at (cat_val CAT_OVERLONG) OR bit_at (cat_val CAT_PHP_RCE)
     OR bit_at (cat_val CAT_JAVA_RCE) OR bit_at (cat_val CAT_JAVA_EVAL) OR bit_at (cat_val CAT_NOSQL)
     OR bit_at (cat_val CAT_SSTI))"

definition header_policy :: "ngx_env \<Rightarrow> u64 \<Rightarrow> ngx_table_elt_t \<Rightarrow> bytes \<times> u64" where
  "header_policy env skip h =
     (if ngx_http_shield_header_name_is env h ''User-Agent'' then (''user-agent'', skip)
      else if ngx_http_shield_header_name_is env h ''Referer'' then (''referer'', skip)
      else if ngx_http_shield_header_name_is env h ''Content-Type''
      then (''content-type'', skip OR NOT content_type_allowed)
      else if ngx_http_shield_header_name_is env h ''Destination''
           \<or> ngx_http_shield_header_name_is env h ''X-Original-URL''
           \<or> ngx_http_shield_header_name_is env h ''X-Rewrite-URL'' then (''header'', skip)
      else if ngx_http_shield_header_name_is env h ''Cookie'' then (''header'', skip OR NOT cookie_allowed)
      else (''header'', skip OR NOT generic_allowed))"

fun scan_headers :: "ngx_env \<Rightarrow> u64 \<Rightarrow> pool \<Rightarrow> ngx_table_elt_t list \<Rightarrow> ngx_http_shield_hit_t
    \<Rightarrow> (ngx_rc \<times> ngx_http_shield_hit_t) \<times> pool" where
  "scan_headers env skip pool [] hit = ((NGX_DECLINED, hit), pool)"
| "scan_headers env skip pool (h # hs) hit =
     (if hd_hash h = 0 \<or> hd_value h = [] then scan_headers env skip pool hs hit
      else (case header_policy env skip h of (source, header_skip) \<Rightarrow>
            case ngx_http_shield_scan_r env pool (hd_value h) source header_skip hit of ((rc, hit'), pool') \<Rightarrow>
              if rc \<noteq> NGX_DECLINED then ((rc, hit'), pool')
              else scan_headers env skip pool' hs hit'))"

text \<open>The two passes over the request target.\<close>

definition scan_target :: "ngx_env \<Rightarrow> u64 \<Rightarrow> pool \<Rightarrow> bytes \<Rightarrow> ngx_http_shield_hit_t
    \<Rightarrow> (ngx_rc \<times> ngx_http_shield_hit_t) \<times> pool" where
  "scan_target env skip pool uri hit =
     (if uri = [] then ((NGX_DECLINED, hit), pool)
      else (case ngx_http_shield_scan_r env pool uri ''uri'' (skip OR ngx_http_shield_no_query_mask) hit of
              ((rc, hit1), pool1) \<Rightarrow>
                if rc \<noteq> NGX_DECLINED then ((rc, hit1), pool1)
                else (let path_len = (case e_strlchr env uri (CHR ''?'') of None \<Rightarrow> length uri | Some q \<Rightarrow> q)
                      in if path_len \<noteq> 0 \<and> NOT skip AND ngx_http_shield_no_query_mask \<noteq> 0
                         then ngx_http_shield_scan_r env pool1 (take path_len uri) ''uri''
                                (skip OR NOT ngx_http_shield_no_query_mask) hit1
                         else ((NGX_DECLINED, hit1), pool1))))"

definition ngx_http_shield_inspect_prebody :: "ngx_env \<Rightarrow> pool \<Rightarrow> ngx_http_request_t \<Rightarrow> ngx_http_shield_loc_conf_t
    \<Rightarrow> ngx_http_shield_hit_t \<Rightarrow> (ngx_rc \<times> ngx_http_shield_hit_t) \<times> pool" where
  "ngx_http_shield_inspect_prebody env pool r slcf hit =
     (case ngx_http_shield_check_httpoxy env r slcf hit of (rc1, hit1) \<Rightarrow>
      if rc1 = NGX_OK then ((NGX_OK, hit1), pool)
      else case ngx_http_shield_check_range r slcf hit1 of (rc2, hit2) \<Rightarrow>
      if rc2 = NGX_OK then ((NGX_OK, hit2), pool)
      else case ngx_http_shield_check_ctrl_char r slcf hit2 of (rc3, hit3) \<Rightarrow>
      if rc3 = NGX_OK then ((NGX_OK, hit3), pool)
      else case ngx_http_shield_check_dotfile r slcf hit3 of (rc4, hit4) \<Rightarrow>
      if rc4 = NGX_OK then ((NGX_OK, hit4), pool)
      else case scan_target env (lc_skip slcf) pool (r_unparsed_uri r) hit4 of ((rc5, hit5), pool5) \<Rightarrow>
      if rc5 \<noteq> NGX_DECLINED then ((rc5, hit5), pool5)
      else scan_headers env (lc_skip slcf) pool5 (r_headers r) hit5)"

section \<open>Body\<close>

text \<open>The read loop of a file buffer: \<open>need\<close> bytes are still wanted.\<close>

function read_file_loop :: "(int \<Rightarrow> nat \<Rightarrow> bytes option) \<Rightarrow> int \<Rightarrow> nat \<Rightarrow> bytes \<Rightarrow> bytes option" where
  "read_file_loop rd off need acc =
     (if need = 0 then Some acc
      else (case rd off need of
              None \<Rightarrow> None
            | Some chunk \<Rightarrow>
                if chunk = [] then None
                else read_file_loop rd (off + int (length chunk)) (need - length chunk) (acc @ chunk)))"
  by pat_completeness auto
termination
  by (relation "measure (\<lambda>(rd, off, need, acc). need)") auto

declare read_file_loop.simps [simp del]

text \<open>The chain loop; \<open>None\<close> is \<open>NGX_ERROR\<close>.\<close>

fun collect_bufs :: "nat \<Rightarrow> bytes \<Rightarrow> body_buf list \<Rightarrow> bytes option" where
  "collect_bufs mx acc [] = Some acc"
| "collect_bufs mx acc (b # bs) =
     (if length acc \<ge> mx then Some acc
      else (case b of
              MemBuf d \<Rightarrow> collect_bufs mx (acc @ take (mx - length acc) d) bs
            | FileBuf pos n rd \<Rightarrow>
                (case read_file_loop rd pos (min n (mx - length acc)) [] of
                   None \<Rightarrow> None
                 | Some d \<Rightarrow> collect_bufs mx (acc @ d) bs)
            | OtherBuf \<Rightarrow> collect_bufs mx acc bs))"

text \<open>The cast of a \<open>size_t\<close> to the signed \<open>off_t\<close>.\<close>

definition off_t_of :: "nat \<Rightarrow> int" where
  "off_t_of n = (if n < 2 ^ 63 then int n else int n - 2 ^ 64)"

definition ngx_http_shield_collect_body :: "pool \<Rightarrow> ngx_http_request_t \<Rightarrow> nat \<Rightarrow> bytes option \<times> pool" where
  "ngx_http_shield_collect_body pool r mx =
     (case r_body r of
        None \<Rightarrow> (Some [], pool)
      | Some bufs \<Rightarrow>
          if bufs = [] \<or> mx = 0 then (Some [], pool)
          else (let mx' = (if r_content_length_n r > 0 \<and> off_t_of mx > r_content_length_n r
                           then nat (r_content_length_n r) else mx)
                in case palloc pool of (ok, pool1) \<Rightarrow>
                     if \<not> ok then (None, pool1) else (collect_bufs mx' [] bufs, pool1)))"

definition ngx_http_shield_inspect_body :: "ngx_env \<Rightarrow> pool \<Rightarrow> ngx_http_request_t \<Rightarrow> ngx_http_shield_loc_conf_t
    \<Rightarrow> ngx_http_shield_hit_t \<Rightarrow> (ngx_rc \<times> ngx_http_shield_hit_t) \<times> pool" where
  "ngx_http_shield_inspect_body env pool r slcf hit =
     (case ngx_http_shield_collect_body pool r (lc_max_body slcf) of
        (None, pool1) \<Rightarrow> ((NGX_ERROR, hit), pool1)
      | (Some body, pool1) \<Rightarrow>
          if body = [] then ((NGX_DECLINED, hit), pool1)
          else ngx_http_shield_scan_r env pool1 body ''body''
                 (lc_skip slcf OR ngx_http_shield_no_body_mask) hit)"

end
