(* ===== verification/Json.thy ===== *)
theory Json
  imports Prelude "HOL-Library.Monad_Syntax"
begin

text \<open>
  JSON texts as the module writes them: objects, arrays, strings and whole numbers, without white
  space.  A printer of JSON values is the specification of the documents the module renders by hand,
  and a reader that is the inverse of the printer shows that a consumer gets the values back.
\<close>

section \<open>Strings\<close>

text \<open>The escape of one byte: two characters, four lower case hexadecimal digits, or the byte.\<close>

definition hex_digit :: "nat \<Rightarrow> byte" where
  "hex_digit n = (if n < 10 then char_of (48 + n) else char_of (87 + n))"

definition esc :: "byte \<Rightarrow> bytes" where
  "esc c =
     (if c = CHR 0x22 \<or> c = CHR 0x5C then [CHR 0x5C, c]
      else if c = CHR 0x0A then [CHR 0x5C, CHR ''n'']
      else if c = CHR 0x0D then [CHR 0x5C, CHR ''r'']
      else if c = CHR 0x09 then [CHR 0x5C, CHR ''t'']
      else if byte_val c < 32 \<or> byte_val c \<ge> 128
      then [CHR 0x5C, CHR ''u'', CHR ''0'', CHR ''0'', hex_digit (byte_val c div 16), hex_digit (byte_val c mod 16)]
      else [c])"

definition quoted :: "bytes \<Rightarrow> bytes" where
  "quoted s = [CHR 0x22] @ s @ [CHR 0x22]"

text \<open>A member name with its colon.\<close>

definition jkey :: "bytes \<Rightarrow> bytes" where
  "jkey s = quoted s @ '':''"

text \<open>
  The reader of strings stands after the opening quote and gives the contents and what follows the
  closing quote; \<open>None\<close> is a string that does not end or a broken escape.
\<close>

definition hex_val :: "byte \<Rightarrow> nat" where
  "hex_val c = (if byte_val c < 58 then byte_val c - 48 else byte_val c - 87)"

definition json_plain :: "byte \<Rightarrow> byte" where
  "json_plain u = (if u = CHR ''n'' then CHR 0x0A else if u = CHR ''r'' then CHR 0x0D
     else if u = CHR ''t'' then CHR 0x09 else u)"

definition prepend :: "byte \<Rightarrow> (bytes \<times> bytes) option \<Rightarrow> (bytes \<times> bytes) option" where
  "prepend c = map_option (\<lambda>(s, rest). (c # s, rest))"

function json_string :: "bytes \<Rightarrow> (bytes \<times> bytes) option" where
  "json_string [] = None"
| "json_string (c # cs) =
     (if c = CHR 0x22 then Some ([], cs)
      else if c \<noteq> CHR 0x5C then prepend c (json_string cs)
      else (case cs of
              [] \<Rightarrow> None
            | u # ds \<Rightarrow>
                if u \<noteq> CHR ''u'' then prepend (json_plain u) (json_string ds)
                else if length ds < 4 then None
                else prepend (char_of (hex_val (ds ! 2) * 16 + hex_val (ds ! 3))) (json_string (drop 4 ds))))"
  by pat_completeness auto
termination
  by (relation "measure length") auto

declare json_string.simps(2) [simp del]

lemma length_esc: "length (esc c) \<le> 6" "0 < length (esc c)"
  by (auto simp: esc_def)

lemma hex_digit_val: "n < 16 \<Longrightarrow> hex_val (hex_digit n) = n"
  by (auto simp: hex_val_def hex_digit_def)

lemma byte_nibbles: "byte_val c div 16 < 16" "byte_val c mod 16 < 16"
proof -
  have "byte_val c < 16 * 16" using byte_val_less [of c] by simp
  then show "byte_val c div 16 < 16" by (rule less_mult_imp_div_less)
qed simp

lemma json_string_steps:
  "json_string (CHR 0x22 # cs) = Some ([], cs)"
  "c \<noteq> CHR 0x5C \<Longrightarrow> c \<noteq> CHR 0x22 \<Longrightarrow> json_string (c # cs) = prepend c (json_string cs)"
  "u \<noteq> CHR ''u'' \<Longrightarrow> json_string (CHR 0x5C # u # cs) = prepend (json_plain u) (json_string cs)"
  "json_string (CHR 0x5C # CHR ''u'' # a # b # x # y # cs) = prepend (char_of (hex_val x * 16 + hex_val y)) (json_string cs)"
  by (subst json_string.simps(2), simp)+

lemma json_string_esc: "json_string (esc c @ cs) = prepend c (json_string cs)"
proof -
  have "hex_val (hex_digit (byte_val c div 16)) * 16 + hex_val (hex_digit (byte_val c mod 16)) = byte_val c"
    unfolding hex_digit_val [OF byte_nibbles(1)] hex_digit_val [OF byte_nibbles(2)] by (rule div_mult_mod_eq)
  then have h: "char_of (hex_val (hex_digit (byte_val c div 16)) * 16 + hex_val (hex_digit (byte_val c mod 16))) = c"
    by (simp only: char_of_char)
  show ?thesis
    by (simp add: esc_def json_string_steps h json_plain_def)
qed

lemma json_string_concat: "json_string (concat (map esc cs) @ CHR 0x22 # rest) = Some (cs, rest)"
  by (induction cs) (simp_all add: json_string_esc json_string_steps prepend_def)

lemma esc_printable: "x \<in> set (esc c) \<Longrightarrow> 32 \<le> byte_val x \<and> byte_val x < 128"
proof -
  have h: "32 \<le> byte_val (hex_digit n) \<and> byte_val (hex_digit n) < 128" if "n < 16" for n
    using that by (auto simp: hex_digit_def)
  show "x \<in> set (esc c) \<Longrightarrow> 32 \<le> byte_val x \<and> byte_val x < 128"
    using h [OF byte_nibbles(1) [of c]] h [OF byte_nibbles(2) [of c]] by (auto simp: esc_def split: if_splits)
qed

text \<open>Text that needs no escape.\<close>

definition plain_text :: "bytes \<Rightarrow> bool" where
  "plain_text s \<longleftrightarrow> list_all (\<lambda>c. c \<noteq> CHR 0x22 \<and> c \<noteq> CHR 0x5C \<and> 32 \<le> byte_val c \<and> byte_val c < 128) s"

lemma plain_text_esc: "plain_text s \<Longrightarrow> concat (map esc s) = s"
proof (induction s)
  case (Cons c s)
  then have "esc c = [c]" by (auto simp: plain_text_def esc_def)
  then show ?case using Cons by (simp add: plain_text_def)
qed simp

section \<open>Numbers\<close>

definition is_digit :: "byte \<Rightarrow> bool" where
  "is_digit c \<longleftrightarrow> 48 \<le> byte_val c \<and> byte_val c < 58"

fun dec_nat :: "nat \<Rightarrow> bytes" where
  "dec_nat n = (if n < 10 then [char_of (48 + n)] else dec_nat (n div 10) @ [char_of (48 + n mod 10)])"

declare dec_nat.simps [simp del]

definition dec_int :: "int \<Rightarrow> bytes" where
  "dec_int z = (if z < 0 then CHR ''-'' # dec_nat (nat (- z)) else dec_nat (nat z))"

definition undec :: "bytes \<Rightarrow> nat" where
  "undec ds = foldl (\<lambda>n d. 10 * n + (byte_val d - 48)) 0 ds"

lemma dec_digits_only: "list_all is_digit (dec_nat n)"
proof (induction n rule: dec_nat.induct)
  case (1 n)
  have "n mod 10 < 10" by simp
  then have "is_digit (char_of (48 + n mod 10))" "n < 10 \<Longrightarrow> is_digit (char_of (48 + n))" by (auto simp: is_digit_def)
  then show ?case using 1 by (subst dec_nat.simps) simp
qed

lemma dec_nonempty: "dec_nat n \<noteq> []"
  by (subst dec_nat.simps) simp

lemma undec_dec: "undec (dec_nat n) = n"
proof (induction n rule: dec_nat.induct)
  case (1 n)
  show ?case
  proof (cases "n < 10")
    case False
    have "undec (dec_nat n) = 10 * undec (dec_nat (n div 10)) + n mod 10"
      using False by (subst dec_nat.simps) (simp add: undec_def)
    then show ?thesis using 1 [OF False] by simp
  qed (subst dec_nat.simps, simp add: undec_def)
qed

text \<open>The number of digits.\<close>

lemma length_dec: "n < 10 ^ Suc k \<Longrightarrow> length (dec_nat n) \<le> Suc k"
proof (induction k arbitrary: n)
  case 0
  then show ?case by (subst dec_nat.simps) simp
next
  case (Suc k)
  show ?case
  proof (cases "n < 10")
    case False
    have "n div 10 < 10 ^ Suc k" using Suc.prems by (simp add: less_mult_imp_div_less)
    then show ?thesis using Suc.IH [of "n div 10"] False by (subst dec_nat.simps) simp
  qed (subst dec_nat.simps, simp)
qed

lemma length_dec_u64: "n < 2 ^ 64 \<Longrightarrow> length (dec_nat n) \<le> 20"
  using length_dec [of n 19] by simp

lemma span_digits:
  assumes "list_all is_digit ds" and "rest = [] \<or> \<not> is_digit (hd rest)"
  shows "takeWhile is_digit (ds @ rest) = ds \<and> dropWhile is_digit (ds @ rest) = rest"
  using assms by (induction ds) (cases rest; auto)+

section \<open>Values, printer and reader\<close>

datatype json = JStr bytes | JNum int | JObj "(bytes \<times> json) list" | JArr "json list"

text \<open>The members of an object and the elements of an array, separated by commas.\<close>

fun commas :: "bytes list \<Rightarrow> bytes" where
  "commas [] = []"
| "commas [x] = x"
| "commas (x # y # xs) = x @ '','' @ commas (y # xs)"

primrec print_json :: "json \<Rightarrow> bytes" where
  "print_json (JStr s) = quoted (concat (map esc s))"
| "print_json (JNum z) = dec_int z"
| "print_json (JObj ms) = ''{'' @ commas (map (\<lambda>m. quoted (concat (map esc (fst m))) @ '':'' @ snd m)
     (map (map_prod id print_json) ms)) @ ''}''"
| "print_json (JArr vs) = ''['' @ commas (map print_json vs) @ '']''"

definition print_member :: "bytes \<times> json \<Rightarrow> bytes" where
  "print_member m = quoted (concat (map esc (fst m))) @ '':'' @ print_json (snd m)"

lemma print_obj: "print_json (JObj ms) = ''{'' @ commas (map print_member ms) @ ''}''"
  by (simp add: print_member_def [abs_def] comp_def)

declare print_json.simps(3) [simp del]
declare print_obj [simp]

text \<open>Names and strings without escapes are printed as they are.\<close>

lemma print_plain:
  assumes "plain_text s"
  shows "print_json (JStr s) = quoted s" and "print_member (s, v) = jkey s @ print_json v"
  using plain_text_esc [OF assms] by (simp_all add: print_member_def jkey_def)

text \<open>One expected byte; a number; and the recursive reader, whose fuel is twice the length of the text.\<close>

definition eat :: "byte \<Rightarrow> bytes \<Rightarrow> bytes option" where
  "eat c cs = (case cs of [] \<Rightarrow> None | d # ds \<Rightarrow> if d = c then Some ds else None)"

definition json_number :: "bytes \<Rightarrow> (json \<times> bytes) option" where
  "json_number cs =
     (let (neg, ds) = (case eat (CHR ''-'') cs of None \<Rightarrow> (False, cs) | Some ds \<Rightarrow> (True, ds));
          digits = takeWhile is_digit ds
      in if digits = [] then None
         else Some (JNum (if neg then - int (undec digits) else int (undec digits)), dropWhile is_digit ds))"

fun json_value :: "nat \<Rightarrow> bytes \<Rightarrow> (json \<times> bytes) option"
  and json_members :: "nat \<Rightarrow> bytes \<Rightarrow> ((bytes \<times> json) list \<times> bytes) option"
  and json_elements :: "nat \<Rightarrow> bytes \<Rightarrow> (json list \<times> bytes) option" where
  "json_value 0 cs = None"
| "json_value (Suc n) cs =
     (case eat (CHR 0x22) cs of
        Some ds \<Rightarrow> do { (s, rest) \<leftarrow> json_string ds; Some (JStr s, rest) }
      | None \<Rightarrow>
          (case eat (CHR ''{'') cs of
             Some ds \<Rightarrow>
               (case eat (CHR ''}'') ds of
                  Some rest \<Rightarrow> Some (JObj [], rest)
                | None \<Rightarrow> do { (ms, rest) \<leftarrow> json_members n ds; Some (JObj ms, rest) })
           | None \<Rightarrow>
               (case eat (CHR ''['') cs of
                  Some ds \<Rightarrow>
                    (case eat (CHR '']'') ds of
                       Some rest \<Rightarrow> Some (JArr [], rest)
                     | None \<Rightarrow> do { (vs, rest) \<leftarrow> json_elements n ds; Some (JArr vs, rest) })
                | None \<Rightarrow> json_number cs)))"
| "json_members 0 cs = None"
| "json_members (Suc n) cs =
     do { ds \<leftarrow> eat (CHR 0x22) cs;
          (k, r1) \<leftarrow> json_string ds;
          r2 \<leftarrow> eat (CHR '':'') r1;
          (v, r3) \<leftarrow> json_value n r2;
          case eat (CHR '','') r3 of
            Some r4 \<Rightarrow> do { (ms, rest) \<leftarrow> json_members n r4; Some ((k, v) # ms, rest) }
          | None \<Rightarrow> do { rest \<leftarrow> eat (CHR ''}'') r3; Some ([(k, v)], rest) } }"
| "json_elements 0 cs = None"
| "json_elements (Suc n) cs =
     do { (v, r1) \<leftarrow> json_value n cs;
          case eat (CHR '','') r1 of
            Some r2 \<Rightarrow> do { (vs, rest) \<leftarrow> json_elements n r2; Some (v # vs, rest) }
          | None \<Rightarrow> do { rest \<leftarrow> eat (CHR '']'') r1; Some ([v], rest) } }"

definition json_read :: "bytes \<Rightarrow> json option" where
  "json_read cs = (case json_value (2 * length cs) cs of Some (v, []) \<Rightarrow> Some v | _ \<Rightarrow> None)"

section \<open>Printed texts are printable\<close>

definition printable :: "bytes \<Rightarrow> bool" where
  "printable s \<longleftrightarrow> list_all (\<lambda>c. 32 \<le> byte_val c \<and> byte_val c < 128) s"

lemma printable_append [simp]: "printable (s @ t) \<longleftrightarrow> printable s \<and> printable t" "printable []"
  by (simp_all add: printable_def)

lemma printable_Cons [simp]: "printable (c # s) \<longleftrightarrow> 32 \<le> byte_val c \<and> byte_val c < 128 \<and> printable s"
  by (simp add: printable_def conj_assoc)

lemma printable_quoted: "printable (quoted (concat (map esc s)))"
proof -
  have "printable (concat (map esc s))" using esc_printable by (induction s) (auto simp: printable_def list_all_iff)
  then show ?thesis by (simp add: quoted_def)
qed

lemma printable_commas: "list_all printable xs \<Longrightarrow> printable (commas xs)"
  by (induction xs rule: commas.induct) simp_all

lemma printable_dec: "printable (dec_int z)"
proof -
  have "printable (dec_nat n)" for n
    using dec_digits_only [of n] by (auto simp: printable_def is_digit_def list_all_iff)
  then show ?thesis by (simp add: dec_int_def)
qed

lemma print_json_printable: "printable (print_json v)"
proof (induction v)
  case (JObj ms)
  have "printable (print_member m)" if "m \<in> set ms" for m
    using JObj [of m "snd m"] that printable_quoted by (cases m) (auto simp: print_member_def)
  then show ?case by (simp add: printable_commas list_all_iff)
next
  case (JArr vs)
  then show ?case by (simp add: printable_commas list_all_iff)
qed (simp_all add: printable_quoted printable_dec)

section \<open>Round trip\<close>

text \<open>What may follow a value: nothing that would continue a number.\<close>

definition follows :: "bytes \<Rightarrow> bool" where
  "follows rest \<longleftrightarrow> rest = [] \<or> \<not> is_digit (hd rest)"

lemma eat_Cons [simp]: "eat c (c # cs) = Some cs" "c \<noteq> d \<Longrightarrow> eat c (d # cs) = None" "eat c [] = None"
  by (simp_all add: eat_def)

lemma dec_Cons:
  obtains d ds where "dec_nat n = d # ds" and "is_digit d"
  using dec_digits_only [of n] dec_nonempty [of n] by (cases "dec_nat n") auto

lemma digit_not_punct: "is_digit d \<Longrightarrow> d \<noteq> CHR ''-'' \<and> d \<noteq> CHR 0x22 \<and> d \<noteq> CHR ''{'' \<and> d \<noteq> CHR ''['' \<and> d \<noteq> CHR '']''"
  by (auto simp: is_digit_def)

lemma json_number_dec: "follows rest \<Longrightarrow> json_number (dec_int z @ rest) = Some (JNum z, rest)"
proof -
  assume "follows rest"
  then have sp: "takeWhile is_digit (dec_nat n @ rest) = dec_nat n" "dropWhile is_digit (dec_nat n @ rest) = rest" for n
    using span_digits [OF dec_digits_only] by (simp_all add: follows_def)
  have "eat (CHR ''-'') (dec_nat n @ rest) = None" for n
    using dec_Cons [of n] digit_not_punct by (metis append_Cons eat_Cons(2))
  then show ?thesis
    by (cases "z < 0") (simp_all add: dec_int_def json_number_def sp dec_nonempty undec_dec)
qed

text \<open>A value never starts with a closing bracket.\<close>

lemma print_json_Cons:
  obtains c cs where "print_json v = c # cs" and "c \<noteq> CHR '']''"
proof (cases v)
  case (JNum z)
  obtain d ds where "dec_nat (nat \<bar>z\<bar>) = d # ds" "is_digit d" by (rule dec_Cons)
  then show ?thesis using that JNum digit_not_punct by (cases "z < 0") (auto simp: dec_int_def)
qed (auto simp: quoted_def that)

lemma follows_punct [simp]: "follows (CHR '','' # cs)" "follows (CHR ''}'' # cs)" "follows (CHR '']'' # cs)" "follows []"
  by (simp_all add: follows_def is_digit_def)

definition reads_back :: "json \<Rightarrow> bool" where
  "reads_back v \<longleftrightarrow> (\<forall>n rest. 2 * length (print_json v @ rest) \<le> n \<longrightarrow> follows rest \<longrightarrow> json_value n (print_json v @ rest) = Some (v, rest))"

lemma reads_backD:
  "reads_back v \<Longrightarrow> 2 * length (print_json v @ rest) \<le> n \<Longrightarrow> follows rest \<Longrightarrow> json_value n (print_json v @ rest) = Some (v, rest)"
  unfolding reads_back_def by blast

lemma commas_Cons: "commas (x # xs) = x @ (if xs = [] then [] else '','' @ commas xs)"
  by (cases xs) simp_all

lemma json_elements_print:
  assumes "vs \<noteq> []" and "\<And>v. v \<in> set vs \<Longrightarrow> reads_back v" and "2 * length (commas (map print_json vs) @ '']'' @ rest) < n"
  shows "json_elements n (commas (map print_json vs) @ '']'' @ rest) = Some (vs, rest)"
  using assms
proof (induction vs arbitrary: n)
  case (Cons v vs)
  let ?tail = "(if vs = [] then [] else '','' @ commas (map print_json vs)) @ '']'' @ rest"
  have t: "commas (map print_json (v # vs)) @ '']'' @ rest = print_json v @ ?tail" by (simp add: commas_Cons)
  obtain m where n: "n = Suc m" using Cons.prems(3) by (cases n) simp_all
  obtain c cs where c: "print_json v = c # cs" by (rule print_json_Cons)
  have len: "2 * length (print_json v @ ?tail) \<le> m" using Cons.prems(3) unfolding t n by linarith
  have "json_value m (print_json v @ ?tail) = Some (v, ?tail)"
    by (rule reads_backD [OF Cons.prems(2) len]) simp_all
  moreover have "json_elements m (commas (map print_json vs) @ '']'' @ rest) = Some (vs, rest)" if "vs \<noteq> []"
    using len that c by (intro Cons.IH Cons.prems(2)) simp_all
  ultimately show ?case unfolding t unfolding n by simp
qed simp

lemma json_members_print:
  assumes "ms \<noteq> []" and "\<And>m. m \<in> set ms \<Longrightarrow> reads_back (snd m)" and "2 * length (commas (map print_member ms) @ ''}'' @ rest) < n"
  shows "json_members n (commas (map print_member ms) @ ''}'' @ rest) = Some (ms, rest)"
  using assms
proof (induction ms arbitrary: n)
  case (Cons m ms)
  let ?tail = "(if ms = [] then [] else '','' @ commas (map print_member ms)) @ ''}'' @ rest"
  have t: "commas (map print_member (m # ms)) @ ''}'' @ rest
      = CHR 0x22 # concat (map esc (fst m)) @ CHR 0x22 # CHR '':'' # print_json (snd m) @ ?tail"
    by (simp add: commas_Cons print_member_def quoted_def)
  obtain k where n: "n = Suc k" using Cons.prems(3) by (cases n) simp_all
  have len: "2 * length (CHR '':'' # print_json (snd m) @ ?tail) \<le> k"
    using Cons.prems(3) unfolding t n by (simp only: length_append list.size distrib_left)
  have "json_value k (print_json (snd m) @ ?tail) = Some (snd m, ?tail)"
    using len by (intro reads_backD [OF Cons.prems(2)]) simp_all
  moreover have "json_members k (commas (map print_member ms) @ ''}'' @ rest) = Some (ms, rest)" if "ms \<noteq> []"
    using len that by (intro Cons.IH Cons.prems(2)) simp_all
  ultimately show ?case unfolding t unfolding n by (cases m) (simp add: json_string_concat)
qed simp

lemma reads_backI:
  assumes "\<And>k rest. 2 * length (print_json v @ rest) \<le> Suc k \<Longrightarrow> follows rest \<Longrightarrow> json_value (Suc k) (print_json v @ rest) = Some (v, rest)"
  shows "reads_back v"
  unfolding reads_back_def
proof (intro allI impI)
  fix n rest assume len: "2 * length (print_json v @ rest) \<le> n" and f: "follows rest"
  obtain c cs where "print_json v = c # cs" by (rule print_json_Cons)
  then obtain k where "n = Suc k" using len by (cases n) simp_all
  then show "json_value n (print_json v @ rest) = Some (v, rest)" using assms len f by blast
qed

lemma reads_back_num: "reads_back (JNum z)"
proof (rule reads_backI)
  fix k rest assume f: "follows rest"
  obtain d ds where d: "dec_nat (nat \<bar>z\<bar>) = d # ds" "is_digit d" by (rule dec_Cons)
  then obtain c cs where c: "dec_int z = c # cs" "c \<noteq> CHR 0x22" "c \<noteq> CHR ''{''" "c \<noteq> CHR ''[''"
    using digit_not_punct [OF d(2)] by (cases "z < 0") (auto simp: dec_int_def)
  then show "json_value (Suc k) (print_json (JNum z) @ rest) = Some (JNum z, rest)" using json_number_dec [OF f, of z] by simp
qed

lemma reads_back_obj:
  assumes "\<And>m. m \<in> set ms \<Longrightarrow> reads_back (snd m)"
  shows "reads_back (JObj ms)"
proof (rule reads_backI)
  fix k rest assume len: "2 * length (print_json (JObj ms) @ rest) \<le> Suc k"
  have "eat (CHR ''}'') (commas (map print_member ms) @ cs) = None" if "ms \<noteq> []" for cs
    using that by (cases ms) (simp_all add: commas_Cons print_member_def quoted_def)
  then show "json_value (Suc k) (print_json (JObj ms) @ rest) = Some (JObj ms, rest)"
    using json_members_print [OF _ assms, of ms rest k] len by (cases "ms = []") simp_all
qed

lemma reads_back_arr:
  assumes "\<And>v. v \<in> set vs \<Longrightarrow> reads_back v"
  shows "reads_back (JArr vs)"
proof (rule reads_backI)
  fix k rest assume len: "2 * length (print_json (JArr vs) @ rest) \<le> Suc k"
  have "eat (CHR '']'') (commas (map print_json vs) @ cs) = None" if "vs \<noteq> []" for cs
  proof (cases vs)
    case (Cons v ws)
    obtain c ds where "print_json v = c # ds" "c \<noteq> CHR '']''" by (rule print_json_Cons)
    then show ?thesis using Cons by (simp add: commas_Cons)
  qed (simp add: that)
  then show "json_value (Suc k) (print_json (JArr vs) @ rest) = Some (JArr vs, rest)"
    using json_elements_print [of vs rest k, OF _ assms] len by (cases "vs = []") simp_all
qed

lemma reads_back_all: "reads_back v"
proof (induction v)
  case (JStr s)
  show ?case by (rule reads_backI) (simp add: quoted_def json_string_concat)
next
  case (JObj ms)
  then show ?case by (intro reads_back_obj) (metis prod.collapse snds.intros)
qed (simp_all add: reads_back_num reads_back_arr)

lemma json_read_print: "json_read (print_json v) = Some v"
  using reads_backD [OF reads_back_all, of v "[]" "2 * length (print_json v)"] by (simp add: json_read_def)

end
