(* ===== verification/Log.thy ===== *)
theory Log
  imports Request Json
begin

text \<open>
  The JSON hit log, \<open>ngx_http_shield_write_log\<close> of \<open>src/ngx_http_shield_module.c\<close>: the bound on the
  request line, the size of the buffer, the escaping, the file sink with its back-off and alert
  times, and the syslog sink.
\<close>

section \<open>Model\<close>

text \<open>
  What the writer calls of nginx: the \<open>%04xd\<close> and \<open>%ui\<close> conversions of \<open>ngx_slprintf\<close>, the cached
  time stamp and clock, the result of the file write (the byte count, or the error being
  \<open>ENOSPC\<close>), and the syslog header.
\<close>

datatype write_result = Written int | WriteError bool

record log_env =
  le_hex4 :: "nat \<Rightarrow> bytes"
  le_uint :: "nat \<Rightarrow> bytes"
  le_iso8601 :: bytes
  le_time :: time_t
  le_write_fd :: "bytes \<Rightarrow> write_result"
  le_syslog_header :: bytes

text \<open>The observable effects: file write, alert in the error log, datagram, updated configuration.\<close>

record log_effect =
  lf_file :: "bytes option"
  lf_alert :: bool
  lf_syslog :: "bytes option"
  lf_conf :: ngx_http_shield_loc_conf_t

definition NGX_SYSLOG_MAX :: nat where "NGX_SYSLOG_MAX = 4096"
definition LOG_REQ_MAX :: nat where "LOG_REQ_MAX = 600"

text \<open>\<open>ngx_slprintf\<close> stops at the end of the buffer; a plain store does not.\<close>

definition slput :: "nat \<Rightarrow> bytes \<Rightarrow> bytes \<Rightarrow> bytes" where
  "slput cap out txt = out @ take (cap - length out) txt"

definition esc_put :: "log_env \<Rightarrow> nat \<Rightarrow> bytes \<Rightarrow> byte \<Rightarrow> bytes" where
  "esc_put le cap out c =
     (if c = CHR 0x22 \<or> c = CHR 0x5C then out @ [CHR 0x5C, c]
      else if c = CHR 0x0A then out @ [CHR 0x5C, CHR ''n'']
      else if c = CHR 0x0D then out @ [CHR 0x5C, CHR ''r'']
      else if c = CHR 0x09 then out @ [CHR 0x5C, CHR ''t'']
      else if byte_val c < 32 \<or> byte_val c \<ge> 128 then slput cap out ([CHR 0x5C, CHR ''u''] @ le_hex4 le (byte_val c))
      else out @ [c])"

fun esc_loop :: "log_env \<Rightarrow> nat \<Rightarrow> bytes \<Rightarrow> bytes \<Rightarrow> bytes" where
  "esc_loop le cap out [] = out"
| "esc_loop le cap out (c # cs) =
     (if length out + 6 < cap then esc_loop le cap (esc_put le cap out c) cs else out)"

definition log_head :: "log_env \<Rightarrow> bytes \<Rightarrow> ngx_http_shield_hit_t \<Rightarrow> bool \<Rightarrow> nat \<Rightarrow> bytes" where
  "log_head le addr hit block status =
     ''{'' @ quoted ''ts'' @ '':'' @ quoted (le_iso8601 le) @ '','' @ quoted ''ip'' @ '':'' @ quoted addr
     @ '','' @ quoted ''cat'' @ '':'' @ quoted (h_category hit) @ '','' @ quoted ''src'' @ '':'' @ quoted (h_source hit)
     @ '','' @ quoted ''mode'' @ '':'' @ quoted (if block then ''block'' else ''detect'')
     @ '','' @ quoted ''status'' @ '':'' @ le_uint le (if block then status else 0)
     @ '','' @ quoted ''req'' @ '':'' @ [CHR 0x22]"

definition log_cap :: "log_env \<Rightarrow> ngx_http_request_t \<Rightarrow> ngx_http_shield_hit_t \<Rightarrow> bytes \<Rightarrow> nat" where
  "log_cap le r hit req = length (le_iso8601 le) + length (r_addr_text r)
     + length (h_category hit) + length (h_source hit) + length req * 6 + 160"

definition log_line :: "log_env \<Rightarrow> ngx_http_request_t \<Rightarrow> ngx_http_shield_loc_conf_t \<Rightarrow> ngx_http_shield_hit_t \<Rightarrow> bytes" where
  "log_line le r slcf hit =
     (let block = (lc_mode slcf = SHIELD_BLOCK);
          req = take LOG_REQ_MAX (r_request_line r);
          cap = log_cap le r hit req;
          p = slput cap [] (log_head le (r_addr_text r) hit block (lc_status slcf))
      in esc_loop le cap p req @ [CHR 0x22, CHR ''}''])"

definition log_file :: "log_env \<Rightarrow> bytes \<Rightarrow> ngx_http_shield_loc_conf_t \<Rightarrow> log_effect" where
  "log_file le line slcf =
     (if lc_log slcf \<noteq> NULL_PTR \<and> le_time le \<noteq> lc_log_disk_full_time slcf
      then (let out = line @ [CHR 0x0A]; late = (le_time le - lc_log_error_time slcf > 59)
            in case le_write_fd le out of
                 WriteError enospc \<Rightarrow>
                   (let s1 = (if enospc then slcf\<lparr>lc_log_disk_full_time := le_time le\<rparr> else slcf)
                    in \<lparr>lf_file = Some out, lf_alert = late, lf_syslog = None,
                        lf_conf = (if late then s1\<lparr>lc_log_error_time := le_time le\<rparr> else s1)\<rparr>)
               | Written n \<Rightarrow>
                   if n = int (length out)
                   then \<lparr>lf_file = Some out, lf_alert = False, lf_syslog = None, lf_conf = slcf\<rparr>
                   else \<lparr>lf_file = Some out, lf_alert = late, lf_syslog = None,
                         lf_conf = (if late then slcf\<lparr>lc_log_error_time := le_time le\<rparr> else slcf)\<rparr>)
      else \<lparr>lf_file = None, lf_alert = False, lf_syslog = None, lf_conf = slcf\<rparr>)"

text \<open>The room behind the syslog header, a pointer difference cast to \<open>size_t\<close>.\<close>

definition syslog_room :: "nat \<Rightarrow> nat" where
  "syslog_room header = nat ((int NGX_SYSLOG_MAX - int header) mod 2 ^ 64)"

definition ngx_http_shield_write_log :: "log_env \<Rightarrow> pool \<Rightarrow> ngx_http_request_t \<Rightarrow> ngx_http_shield_loc_conf_t
    \<Rightarrow> ngx_http_shield_hit_t \<Rightarrow> log_effect \<times> pool" where
  "ngx_http_shield_write_log le pool r slcf hit =
     (let none = \<lparr>lf_file = None, lf_alert = False, lf_syslog = None, lf_conf = slcf\<rparr> in
      if lc_log slcf = NULL_PTR \<and> lc_syslog_peer slcf = NULL_PTR then (none, pool)
      else case palloc pool of (ok, pool1) \<Rightarrow>
      if \<not> ok then (none, pool1)
      else (let line = log_line le r slcf hit; eff = log_file le line slcf in
            if lc_syslog_peer slcf = NULL_PTR then (eff, pool1)
            else case palloc pool1 of (ok2, pool2) \<Rightarrow>
            if \<not> ok2 then (eff, pool2)
            else if length line \<le> syslog_room (length (le_syslog_header le))
            then (eff\<lparr>lf_syslog := Some (le_syslog_header le @ line)\<rparr>, pool2)
            else (eff, pool2)))"

lemma syslog_room_le: "header \<le> NGX_SYSLOG_MAX \<Longrightarrow> n \<le> syslog_room header \<longleftrightarrow> header + n \<le> NGX_SYSLOG_MAX"
  by (auto simp: syslog_room_def NGX_SYSLOG_MAX_def)

section \<open>Escaping is faithful and complete\<close>

text \<open>What the two conversions print: four lower case hexadecimal digits, and a decimal number.\<close>

definition log_env_ok :: "log_env \<Rightarrow> bool" where
  "log_env_ok le \<longleftrightarrow> (\<forall>n < 256. le_hex4 le n = ''00'' @ [hex_digit (n div 16), hex_digit (n mod 16)])
     \<and> (\<forall>n < 2 ^ 64. le_uint le n = dec_nat n)"

lemma esc_put_esc:
  assumes "log_env_ok le" and "length out + 6 \<le> cap"
  shows "esc_put le cap out c = out @ esc c"
proof -
  have "byte_val c < 256" by (rule byte_val_less)
  then show ?thesis using assms by (simp add: esc_put_def esc_def slput_def log_env_ok_def)
qed

lemma esc_loop_concat:
  assumes "log_env_ok le" and "length out + 6 * length cs < cap"
  shows "esc_loop le cap out cs = out @ concat (map esc cs)"
  using assms(2)
proof (induction cs arbitrary: out)
  case (Cons c cs)
  have room: "length out + 6 < cap" "length out + 6 \<le> cap" using Cons.prems by simp_all
  have "length (out @ esc c) + 6 * length cs < cap" using Cons.prems length_esc(1) [of c] by simp
  then show ?case using Cons.IH [of "out @ esc c"] room esc_put_esc [OF assms(1) room(2)] by simp
qed simp

section \<open>The record\<close>

lemma length_log_head:
  "length (log_head le addr hit block status) \<le> length (le_iso8601 le) + length addr + length (h_category hit)
     + length (h_source hit) + length (le_uint le (if block then status else 0)) + 70"
  by (simp add: log_head_def quoted_def)

lemma log_line_eq:
  fixes r :: ngx_http_request_t
  assumes "log_env_ok le" and "lc_status slcf < 2 ^ 64"
  defines "req \<equiv> take LOG_REQ_MAX (r_request_line r)"
  shows "log_line le r slcf hit =
      log_head le (r_addr_text r) hit (lc_mode slcf = SHIELD_BLOCK) (lc_status slcf)
      @ concat (map esc req) @ [CHR 0x22, CHR ''}'']"
    and "length (log_line le r slcf hit) + 1 \<le> log_cap le r hit req"
proof -
  let ?head = "log_head le (r_addr_text r) hit (lc_mode slcf = SHIELD_BLOCK) (lc_status slcf)"
  have "length (le_uint le (if lc_mode slcf = SHIELD_BLOCK then lc_status slcf else 0)) \<le> 20"
    using assms(1,2) length_dec_u64 by (simp add: log_env_ok_def)
  then have h: "length ?head + length req * 6 + 70 \<le> log_cap le r hit req"
    using length_log_head [of le "r_addr_text r" hit "lc_mode slcf = SHIELD_BLOCK" "lc_status slcf"] by (simp add: log_cap_def)
  then have "slput (log_cap le r hit req) [] ?head = ?head" by (simp add: slput_def)
  then show eq: "log_line le r slcf hit = ?head @ concat (map esc req) @ [CHR 0x22, CHR ''}'']"
    using esc_loop_concat [OF assms(1), of ?head req "log_cap le r hit req"] h by (simp add: log_line_def req_def Let_def)
  have "length (concat (map esc req)) \<le> length req * 6"
    by (induction req) (use length_esc(1) in \<open>auto intro: add_mono\<close>)
  then show "length (log_line le r slcf hit) + 1 \<le> log_cap le r hit req" using eq h by simp
qed

text \<open>
  The record as a JSON value: the members the format string names, and the bound on the request
  line.  The time stamp, the address and the names of the hit are printed without escapes.
\<close>

definition log_json :: "log_env \<Rightarrow> ngx_http_request_t \<Rightarrow> ngx_http_shield_loc_conf_t \<Rightarrow> ngx_http_shield_hit_t \<Rightarrow> json" where
  "log_json le r slcf hit = JObj
     [(''ts'', JStr (le_iso8601 le)), (''ip'', JStr (r_addr_text r)), (''cat'', JStr (h_category hit)),
      (''src'', JStr (h_source hit)), (''mode'', JStr (if lc_mode slcf = SHIELD_BLOCK then ''block'' else ''detect'')),
      (''status'', JNum (if lc_mode slcf = SHIELD_BLOCK then int (lc_status slcf) else 0)),
      (''req'', JStr (take LOG_REQ_MAX (r_request_line r)))]"

definition hit_plain :: "ngx_http_shield_hit_t \<Rightarrow> bool" where
  "hit_plain hit \<longleftrightarrow> plain_text (h_category hit) \<and> plain_text (h_source hit)"

lemma cat_name_plain: "list_all (\<lambda>i. plain_text (ngx_http_shield_cat_name i)) [0..<CAT_N]"
proof -
  have "plain_text (ngx_http_shield_cat_name (cat_val k))" for k
    by (cases k) (simp_all add: cat_eval plain_text_def)
  moreover have "list_all (\<lambda>i. cat_val (all_cats ! i) = i) [0..<CAT_N]" by code_simp
  ultimately show ?thesis unfolding list_all_iff by metis
qed

lemma log_line_json:
  assumes "log_env_ok le" and "lc_status slcf < 2 ^ 64"
    and "plain_text (le_iso8601 le)" and "plain_text (r_addr_text r)" and "hit_plain hit"
  shows "log_line le r slcf hit = print_json (log_json le r slcf hit)"
proof -
  have num: "le_uint le n = dec_nat n" if "n < 2 ^ 64" for n using assms(1) that by (simp add: log_env_ok_def)
  show ?thesis
    unfolding log_line_eq(1) [OF assms(1,2)] log_json_def log_head_def
    using assms(2-5) num [of 0] num [of "lc_status slcf"]
    by (simp add: print_member_def plain_text_esc esc_def hit_plain_def quoted_def dec_int_def)
qed

end
