(* ===== verification/Request_Correct.thy ===== *)
theory Request_Correct
  imports Request
begin

text \<open>
  What the inspection of a request decides: each structural check against its description, the body
  that is scanned, and the meaning of a clean verdict, which no failed allocation or read can fake.
\<close>

section \<open>Structural checks\<close>

lemma has_ctrl_char_iff:
  "has_ctrl_char cs \<longleftrightarrow> (\<exists>c \<in> set cs. byte_val c < 32 \<and> c \<notin> {CHR 0x00, CHR 0x0D, CHR 0x0A})"
  by (induction cs) auto

lemma count_ranges_eq: "count_ranges cs n = n + length (filter (\<lambda>c. c = CHR '','') cs)"
  by (induction cs arbitrary: n) auto

text \<open>The segments of a path, and the segments that name a dotfile.\<close>

fun segments :: "bytes \<Rightarrow> bytes list" where
  "segments [] = [[]]"
| "segments (c # cs) = (if c = CHR ''/'' then [] # segments cs
     else (case segments cs of s # ss \<Rightarrow> (c # s) # ss | [] \<Rightarrow> [[c]]))"

definition dot_segment :: "bytes \<Rightarrow> bool" where
  "dot_segment s \<longleftrightarrow> s \<noteq> [] \<and> hd s = CHR ''.'' \<and> s \<notin> {''.'', ''..'', WELL_KNOWN}"

lemma segments_ne: "segments cs \<noteq> []"
  by (cases cs) (auto split: list.split)

lemma hd_segments: "hd (segments cs) = takeWhile (\<lambda>c. c \<noteq> CHR ''/'') cs"
  using segments_ne by (induction cs) (auto split: list.split)

lemma tl_segments_Cons: "c \<noteq> CHR ''/'' \<Longrightarrow> tl (segments (c # cs)) = tl (segments cs)"
  using segments_ne by (auto split: list.split)

lemma tl_segments_drop:
  "CHR ''/'' \<notin> set (take n cs) \<Longrightarrow> tl (segments (drop n cs)) = tl (segments cs)"
proof (induction cs arbitrary: n)
  case (Cons c cs)
  show ?case
  proof (cases n)
    case (Suc m)
    then have "c \<noteq> CHR ''/''" "CHR ''/'' \<notin> set (take m cs)" using Cons.prems by auto
    then show ?thesis using Suc Cons.IH tl_segments_Cons by simp
  qed simp
qed simp

lemma hd_segments_eq_iff:
  assumes "CHR ''/'' \<notin> set w"
  shows "hd (segments cs) = w \<longleftrightarrow> length w \<le> length cs \<and> take (length w) cs = w
    \<and> (length cs = length w \<or> cs ! length w = CHR ''/'')"
  unfolding hd_segments using assms
proof (induction w arbitrary: cs)
  case Nil
  then show ?case by (cases cs) auto
next
  case (Cons x w)
  show ?case
  proof (cases cs)
    case (Cons y ys)
    have IH: "takeWhile (\<lambda>c. c \<noteq> CHR ''/'') ys = w \<longleftrightarrow> length w \<le> length ys \<and> take (length w) ys = w
      \<and> (length ys = length w \<or> ys ! length w = CHR ''/'')"
      using Cons.IH Cons.prems by simp
    show ?thesis using Cons Cons.prems IH by auto
  qed simp
qed

text \<open>One step of the dotfile loop, in terms of the segment it stands at.\<close>

lemma has_dotfile_slash: "has_dotfile start (CHR ''/'' # cs) = has_dotfile True cs"
  by (subst has_dotfile.simps(2)) (simp only: Let_def simp_thms if_True)

lemma has_dotfile_plain:
  assumes "c \<noteq> CHR ''/''" and "\<not> (start \<and> c = CHR ''.'')"
  shows "has_dotfile start (c # cs) = has_dotfile False cs"
  by (subst has_dotfile.simps(2)) (simp only: assms Let_def if_False)

lemma has_dotfile_dot:
  fixes cs :: bytes
  defines "rest \<equiv> CHR ''.'' # cs"
  shows "has_dotfile True rest \<longleftrightarrow>
    (if hd (segments rest) = ''.'' \<or> hd (segments rest) = ''..'' then has_dotfile False cs
     else if hd (segments rest) = WELL_KNOWN then has_dotfile False (drop (length WELL_KNOWN) rest) else True)"
proof -
  have one: "hd (segments rest) = ''.'' \<longleftrightarrow> length rest = 1 \<or> length rest \<ge> 2 \<and> rest ! 1 = CHR ''/''"
    using hd_segments_eq_iff [of "''.''" rest] unfolding rest_def by (cases cs) auto
  have two: "hd (segments rest) = ''..'' \<longleftrightarrow> length rest = 2 \<and> rest ! 1 = CHR ''.''
      \<or> length rest \<ge> 3 \<and> rest ! 1 = CHR ''.'' \<and> rest ! 2 = CHR ''/''"
    using hd_segments_eq_iff [of "''..''" rest] unfolding rest_def by (cases cs; cases "tl cs") auto
  have wk: "hd (segments rest) = WELL_KNOWN \<longleftrightarrow> length rest \<ge> length WELL_KNOWN
      \<and> take (length WELL_KNOWN) rest = WELL_KNOWN \<and> (length rest = length WELL_KNOWN \<or> rest ! length WELL_KNOWN = CHR ''/'')"
    by (rule hd_segments_eq_iff) (simp add: WELL_KNOWN_def)
  have "CHR ''.'' \<noteq> CHR ''/''" by simp
  then show ?thesis
    unfolding one two wk unfolding rest_def
    by (subst has_dotfile.simps(2)) (simp only: Let_def simp_thms if_True if_False split: if_split, blast)
qed

lemma tl_segments_well_known:
  "hd (segments cs) = WELL_KNOWN \<Longrightarrow> tl (segments (drop (length WELL_KNOWN) cs)) = tl (segments cs)"
proof (rule tl_segments_drop)
  have ns: "CHR ''/'' \<notin> set WELL_KNOWN" by (simp add: WELL_KNOWN_def)
  assume "hd (segments cs) = WELL_KNOWN"
  then have "take (length WELL_KNOWN) cs = WELL_KNOWN" using hd_segments_eq_iff [OF ns] by blast
  then show "CHR ''/'' \<notin> set (take (length WELL_KNOWN) cs)" using ns by simp
qed

lemma has_dotfile_segments:
  "has_dotfile start cs \<longleftrightarrow> start \<and> dot_segment (hd (segments cs)) \<or> (\<exists>s \<in> set (tl (segments cs)). dot_segment s)"
proof (induction "length cs" arbitrary: start cs rule: less_induct)
  case less
  have IH: "has_dotfile False xs \<longleftrightarrow> (\<exists>s \<in> set (tl (segments xs)). dot_segment s)" if "length xs < length cs" for xs
    using less [OF that, of False] by simp
  show ?case
  proof (cases cs)
    case Nil
    then show ?thesis by (simp add: dot_segment_def)
  next
    case (Cons c xs)
    consider "c = CHR ''/''" | "c \<noteq> CHR ''/''" "\<not> (start \<and> c = CHR ''.'')" | "start" "c = CHR ''.''" by blast
    then show ?thesis
    proof cases
      case 1
      have "set (segments xs) = insert (hd (segments xs)) (set (tl (segments xs)))"
        using segments_ne [of xs] by (cases "segments xs") auto
      moreover have "segments cs = [] # segments xs" "\<not> dot_segment []" using 1 Cons by (simp_all add: dot_segment_def)
      ultimately show ?thesis using less [of xs True] Cons 1 has_dotfile_slash by auto
    next
      case 2
      have "hd (segments cs) \<noteq> [] \<and> hd (hd (segments cs)) = c" unfolding hd_segments Cons using 2(1) by simp
      then have "\<not> (start \<and> dot_segment (hd (segments cs)))" using 2(2) by (auto simp: dot_segment_def)
      moreover have "has_dotfile start cs = has_dotfile False xs" using has_dotfile_plain [OF 2] Cons by simp
      moreover have "tl (segments cs) = tl (segments xs)" using tl_segments_Cons [OF 2(1)] unfolding Cons .
      moreover have "length xs < length cs" using Cons by simp
      ultimately show ?thesis using IH [of xs] by metis
    next
      case 3
      have tl: "tl (segments cs) = tl (segments xs)" using Cons 3 tl_segments_Cons by simp
      have bad: "dot_segment (hd (segments cs)) \<longleftrightarrow> hd (segments cs) \<notin> {''.'', ''..'', WELL_KNOWN}"
        unfolding dot_segment_def hd_segments Cons 3 by simp
      have len: "length xs < length cs" "length (drop (length WELL_KNOWN) cs) < length cs"
        using Cons by (auto simp: WELL_KNOWN_def)
      note step = has_dotfile_dot [of xs, folded 3(2), folded Cons]
      show ?thesis
        using step IH [OF len(1)] IH [OF len(2)] tl_segments_well_known [of cs] bad tl 3 by (auto split: if_splits)
    qed
  qed
qed

section \<open>Collecting the body\<close>

text \<open>A read function that serves the contents of a file: never more than asked, never wrong bytes.\<close>

definition reads_file :: "(int \<Rightarrow> nat \<Rightarrow> bytes option) \<Rightarrow> bytes \<Rightarrow> bool" where
  "reads_file rd file \<longleftrightarrow> (\<forall>off n d. rd off n = Some d \<longrightarrow> length d \<le> n \<and> d = take (length d) (drop (nat off) file))"

lemma read_file_loop_correct:
  assumes "reads_file rd file" and "0 \<le> off" and "read_file_loop rd off need acc = Some d"
  shows "d = acc @ take need (drop (nat off) file) \<and> length d = length acc + need"
  using assms
proof (induction rd off need acc rule: read_file_loop.induct)
  case (1 rd off need acc)
  show ?case
  proof (cases "need = 0")
    case True
    then show ?thesis using "1.prems"(3) by (simp add: read_file_loop.simps [of rd off 0])
  next
    case False
    then obtain chunk where c: "rd off need = Some chunk" "chunk \<noteq> []"
        "read_file_loop rd (off + int (length chunk)) (need - length chunk) (acc @ chunk) = Some d"
      using "1.prems"(3) by (subst (asm) (2) read_file_loop.simps) (auto split: option.splits if_splits)
    have ch: "length chunk \<le> need" "chunk = take (length chunk) (drop (nat off) file)"
      using "1.prems"(1) c(1) unfolding reads_file_def by blast+
    have pos: "0 \<le> off + int (length chunk)" using "1.prems"(2) by simp
    have d: "d = (acc @ chunk) @ take (need - length chunk) (drop (nat (off + int (length chunk))) file)"
      and len: "length d = length (acc @ chunk) + (need - length chunk)"
      using "1.IH" [OF False c(1,2) "1.prems"(1) pos c(3)] by blast+
    have "nat (off + int (length chunk)) = length chunk + nat off" using "1.prems"(2) by simp
    moreover have "take need (drop (nat off) file) = chunk @ take (need - length chunk) (drop (length chunk + nat off) file)"
      using ch take_add [of "length chunk" "need - length chunk" "drop (nat off) file"] by (simp add: add.commute)
    ultimately have "d = acc @ take need (drop (nat off) file)" using d by simp
    moreover have "length d = length acc + need" using len ch(1) by simp
    ultimately show ?thesis by (rule conjI)
  qed
qed

text \<open>The bytes a body buffer holds, given the contents of its file.\<close>

fun buf_bytes :: "bytes \<Rightarrow> body_buf \<Rightarrow> bytes" where
  "buf_bytes file (MemBuf d) = d"
| "buf_bytes file (FileBuf pos n rd) = take n (drop (nat pos) file)"
| "buf_bytes file OtherBuf = []"

fun buf_reads :: "bytes \<Rightarrow> body_buf \<Rightarrow> bool" where
  "buf_reads file (FileBuf pos n rd) \<longleftrightarrow> 0 \<le> pos \<and> reads_file rd file"
| "buf_reads file b \<longleftrightarrow> True"

lemma collect_bufs_correct:
  assumes "list_all (buf_reads file) bs" and "length acc \<le> mx" and "collect_bufs mx acc bs = Some body"
  shows "body = take mx (acc @ concat (map (buf_bytes file) bs))"
  using assms
proof (induction bs arbitrary: acc)
  case (Cons b bs)
  show ?case
  proof (cases "length acc \<ge> mx")
    case True
    then show ?thesis using Cons.prems(2,3) by simp
  next
    case False
    obtain d where d: "collect_bufs mx (acc @ d) bs = Some body" "d = take (mx - length acc) (buf_bytes file b)"
    proof (cases b)
      case (FileBuf pos n rd)
      then obtain d where r: "read_file_loop rd pos (min n (mx - length acc)) [] = Some d" "collect_bufs mx (acc @ d) bs = Some body"
        using Cons.prems(3) False by (auto split: option.splits)
      have "d = take (min n (mx - length acc)) (drop (nat pos) file)"
        using read_file_loop_correct [OF _ _ r(1)] Cons.prems(1) FileBuf by auto
      then show ?thesis using that r(2) FileBuf by (simp add: take_take min.commute)
    qed (use that Cons.prems(3) False in auto)
    have "body = take mx ((acc @ d) @ concat (map (buf_bytes file) bs))"
      using Cons.IH [of "acc @ d"] Cons.prems(1,2) d by simp
    moreover have "take (mx - length acc) (d @ xs) = take (mx - length acc) (buf_bytes file b @ xs)" for xs
      unfolding d(2) by (cases "length (buf_bytes file b) \<le> mx - length acc") auto
    ultimately show ?thesis using Cons.prems(2) by simp
  qed
qed simp

section \<open>What a clean verdict means\<close>

abbreviation clean :: "ngx_env \<Rightarrow> u64 \<Rightarrow> bytes \<Rightarrow> bool" where
  "clean env skip data \<equiv> buffer_spec (e_globals env) skip data = None"

lemma buffer_spec_Nil [simp]: "buffer_spec g skip [] = None"
  by (simp add: buffer_spec_def)

lemma scan_r_declined:
  assumes "globals_ok (e_globals env)" and "ngx_http_shield_scan_r env pool data source skip hit = ((rc, hit'), pool')"
  shows "rc = NGX_DECLINED \<Longrightarrow> clean env skip data \<and> hit' = hit"
    and "clean env skip data \<Longrightarrow> rc \<in> {NGX_DECLINED, NGX_ERROR}"
    and "list_all (\<lambda>b. b) pool \<Longrightarrow> rc \<noteq> NGX_ERROR \<and> list_all (\<lambda>b. b) pool'"
    and "rc \<in> {NGX_OK, NGX_DECLINED, NGX_ERROR}"
  using assms(2) scan_input_spec [OF assms(1), of data source skip hit]
  by (auto simp: ngx_http_shield_scan_r_def palloc_def split: if_splits list.splits option.splits prod.splits)

text \<open>A skip mask with every bit set disables every category.\<close>

lemma all_skipped_clean:
  assumes "\<And>k. k < 64 \<Longrightarrow> bit skip k"
  shows "clean env skip data"
proof -
  have "cat_val k < 64" for k by (cases k) simp_all
  then have "\<not> attack_in g m skip d" for g m d
    using assms by (auto simp: attack_in_def table_attack_def list_ex_iff flags_def rule_at_def)
  then show ?thesis by (simp add: buffer_spec_None)
qed

definition path_of :: "ngx_env \<Rightarrow> bytes \<Rightarrow> bytes" where
  "path_of env uri = (case e_strlchr env uri (CHR ''?'') of None \<Rightarrow> uri | Some q \<Rightarrow> take q uri)"

text \<open>The whole target without the query-ineligible categories, the path with them only.\<close>

definition target_clean :: "ngx_env \<Rightarrow> u64 \<Rightarrow> bytes \<Rightarrow> bool" where
  "target_clean env skip uri \<longleftrightarrow> clean env (skip OR ngx_http_shield_no_query_mask) uri
     \<and> clean env (skip OR NOT ngx_http_shield_no_query_mask) (path_of env uri)"

lemma scan_target_declined:
  assumes g: "globals_ok (e_globals env)" and s: "scan_target env skip pool uri hit = ((rc, hit'), pool')"
  shows "rc = NGX_DECLINED \<Longrightarrow> target_clean env skip uri \<and> hit' = hit"
    and "target_clean env skip uri \<Longrightarrow> rc \<in> {NGX_DECLINED, NGX_ERROR}"
    and "list_all (\<lambda>b. b) pool \<Longrightarrow> rc \<noteq> NGX_ERROR \<and> list_all (\<lambda>b. b) pool'"
    and "rc \<in> {NGX_OK, NGX_DECLINED, NGX_ERROR}"
proof -
  let ?nq = ngx_http_shield_no_query_mask
  have all: "clean env (skip OR NOT ?nq) d" if "NOT skip AND ?nq = 0" for d
  proof (rule all_skipped_clean)
    fix k :: nat assume k: "k < 64"
    have "\<not> bit (NOT skip AND ?nq) k" using that by simp
    then show "bit (skip OR NOT ?nq) k" using k by (auto simp: mask_simps bit_not_iff)
  qed
  obtain rc1 hit1 pool1 where s1: "ngx_http_shield_scan_r env pool uri ''uri'' (skip OR ?nq) hit = ((rc1, hit1), pool1)"
    by (metis surj_pair)
  obtain rc2 hit2 pool2 where
    s2: "ngx_http_shield_scan_r env pool1 (path_of env uri) ''uri'' (skip OR NOT ?nq) hit1 = ((rc2, hit2), pool2)"
    by (metis surj_pair)
  have len: "take (case e_strlchr env uri (CHR ''?'') of None \<Rightarrow> length uri | Some q \<Rightarrow> q) uri = path_of env uri"
    by (simp add: path_of_def split: option.split)
  note d1 = scan_r_declined [OF g s1] and d2 = scan_r_declined [OF g s2]
  note unf = s [unfolded scan_target_def Let_def len s1 prod.case]
  have p0: "path_of env uri = []" if "(case e_strlchr env uri (CHR ''?'') of None \<Rightarrow> length uri | Some q \<Rightarrow> q) = 0"
    using that by (auto simp: path_of_def split: option.splits)
  show "rc = NGX_DECLINED \<Longrightarrow> target_clean env skip uri \<and> hit' = hit"
    using unf d1(1) d2(1) s2 all p0 by (auto simp: target_clean_def path_of_def split: if_splits option.splits)
  show "target_clean env skip uri \<Longrightarrow> rc \<in> {NGX_DECLINED, NGX_ERROR}"
    using unf d1(2) d2(2) s2 by (auto simp: target_clean_def split: if_splits)
  show "list_all (\<lambda>b. b) pool \<Longrightarrow> rc \<noteq> NGX_ERROR \<and> list_all (\<lambda>b. b) pool'"
    using unf d1(3) d2(3) s2 by (auto split: if_splits)
  show "rc \<in> {NGX_OK, NGX_DECLINED, NGX_ERROR}" using unf d1(4) d2(4) s2 by (auto split: if_splits)
qed

definition header_clean :: "ngx_env \<Rightarrow> u64 \<Rightarrow> ngx_table_elt_t \<Rightarrow> bool" where
  "header_clean env skip h \<longleftrightarrow> hd_hash h = 0 \<or> clean env (snd (header_policy env skip h)) (hd_value h)"

lemma scan_headers_declined:
  assumes "globals_ok (e_globals env)" and "scan_headers env skip pool hs hit = ((rc, hit'), pool')"
  shows "(rc = NGX_DECLINED \<longrightarrow> list_all (header_clean env skip) hs \<and> hit' = hit)
    \<and> (list_all (header_clean env skip) hs \<longrightarrow> rc \<in> {NGX_DECLINED, NGX_ERROR})
    \<and> (list_all (\<lambda>b. b) pool \<longrightarrow> rc \<noteq> NGX_ERROR)"
  using assms
proof (induction hs arbitrary: pool hit)
  case (Cons h hs)
  show ?case
  proof (cases "hd_hash h = 0 \<or> hd_value h = []")
    case True
    then have "header_clean env skip h" by (auto simp: header_clean_def)
    then show ?thesis using True Cons.IH [OF Cons.prems(1), of pool hit] Cons.prems(2) by simp
  next
    case False
    obtain source sk where p: "header_policy env skip h = (source, sk)" by fastforce
    obtain rc1 hit1 pool1 where s: "ngx_http_shield_scan_r env pool (hd_value h) source sk hit = ((rc1, hit1), pool1)"
      by (metis surj_pair)
    note d = scan_r_declined [OF Cons.prems(1) s]
    have hc: "header_clean env skip h \<longleftrightarrow> clean env sk (hd_value h)" using False p by (simp add: header_clean_def)
    show ?thesis
    proof (cases "rc1 = NGX_DECLINED")
      case True
      then have "scan_headers env skip pool1 hs hit = ((rc, hit'), pool')" using Cons.prems(2) False p s d(1) by simp
      then show ?thesis using Cons.IH [OF Cons.prems(1), of pool1 hit] d(1,3) True hc by simp
    next
      case no: False
      then have "rc = rc1" using Cons.prems(2) False p s by simp
      then show ?thesis using no d(2,3) hc by auto
    qed
  qed
qed simp

section \<open>The inspections\<close>

definition structural_clean :: "ngx_env \<Rightarrow> ngx_http_shield_loc_conf_t \<Rightarrow> ngx_http_request_t \<Rightarrow> bool" where
  "structural_clean env slcf r \<longleftrightarrow>
     (cat_skipped slcf CAT_HTTPOXY \<or> \<not> list_ex (\<lambda>h. ngx_http_shield_header_name_is env h ''Proxy'') (r_headers r))
   \<and> (cat_skipped slcf CAT_RANGE_DOS \<or> r_range r = None
        \<or> length (filter (\<lambda>c. c = CHR '','') (the (r_range r))) < MAX_RANGES)
   \<and> (cat_skipped slcf CAT_CTRL_CHAR
        \<or> \<not> (\<exists>c \<in> set (r_uri r). byte_val c < 32 \<and> c \<notin> {CHR 0x00, CHR 0x0D, CHR 0x0A}))
   \<and> (cat_skipped slcf CAT_DOTFILE \<or> \<not> list_ex dot_segment (segments (r_uri r)))"

text \<open>Everything the first inspection looks at is clean.\<close>

definition prebody_clean :: "ngx_env \<Rightarrow> ngx_http_shield_loc_conf_t \<Rightarrow> ngx_http_request_t \<Rightarrow> bool" where
  "prebody_clean env slcf r \<longleftrightarrow> structural_clean env slcf r \<and> target_clean env (lc_skip slcf) (r_unparsed_uri r)
     \<and> list_all (header_clean env (lc_skip slcf)) (r_headers r)"

lemma httpoxy_iff: "ngx_http_shield_check_httpoxy env r slcf hit =
  (if cat_skipped slcf CAT_HTTPOXY \<or> \<not> list_ex (\<lambda>h. ngx_http_shield_header_name_is env h ''Proxy'') (r_headers r)
   then (NGX_DECLINED, hit) else (NGX_OK, structural_hit NAME_HTTPOXY CAT_HTTPOXY ''header''))"
  by (simp add: ngx_http_shield_check_httpoxy_def ngx_http_shield_header_name_is_def)

lemma range_iff: "ngx_http_shield_check_range r slcf hit =
  (if cat_skipped slcf CAT_RANGE_DOS \<or> r_range r = None \<or> length (filter (\<lambda>c. c = CHR '','') (the (r_range r))) < MAX_RANGES
   then (NGX_DECLINED, hit) else (NGX_OK, structural_hit NAME_RANGE_DOS CAT_RANGE_DOS ''range''))"
  by (auto simp: ngx_http_shield_check_range_def count_ranges_eq split: option.split)

lemma ctrl_char_iff: "ngx_http_shield_check_ctrl_char r slcf hit =
  (if cat_skipped slcf CAT_CTRL_CHAR \<or> \<not> (\<exists>c \<in> set (r_uri r). byte_val c < 32 \<and> c \<notin> {CHR 0x00, CHR 0x0D, CHR 0x0A})
   then (NGX_DECLINED, hit) else (NGX_OK, structural_hit NAME_CTRL_CHAR CAT_CTRL_CHAR ''uri''))"
  unfolding ngx_http_shield_check_ctrl_char_def has_ctrl_char_iff by (simp only: split: if_split) blast

lemma dotfile_iff: "ngx_http_shield_check_dotfile r slcf hit =
  (if cat_skipped slcf CAT_DOTFILE \<or> \<not> list_ex dot_segment (segments (r_uri r))
   then (NGX_DECLINED, hit) else (NGX_OK, structural_hit NAME_DOTFILE CAT_DOTFILE ''uri''))"
proof -
  have "has_dotfile True cs \<longleftrightarrow> list_ex dot_segment (segments cs)" for cs
    unfolding has_dotfile_segments using segments_ne [of cs] by (cases "segments cs") (auto simp: list_ex_iff)
  then show ?thesis by (simp add: ngx_http_shield_check_dotfile_def)
qed

lemma prebody_structural:
  assumes "\<not> structural_clean env slcf r"
  shows "fst (fst (ngx_http_shield_inspect_prebody env pool r slcf hit)) = NGX_OK"
proof -
  let ?A = "cat_skipped slcf CAT_HTTPOXY \<or> \<not> list_ex (\<lambda>h. ngx_http_shield_header_name_is env h ''Proxy'') (r_headers r)"
    and ?B = "cat_skipped slcf CAT_RANGE_DOS \<or> r_range r = None \<or> length (filter (\<lambda>c. c = CHR '','') (the (r_range r))) < MAX_RANGES"
    and ?C = "cat_skipped slcf CAT_CTRL_CHAR \<or> \<not> (\<exists>c \<in> set (r_uri r). byte_val c < 32 \<and> c \<notin> {CHR 0x00, CHR 0x0D, CHR 0x0A})"
    and ?D = "cat_skipped slcf CAT_DOTFILE \<or> \<not> list_ex dot_segment (segments (r_uri r))"
  note unf = ngx_http_shield_inspect_prebody_def httpoxy_iff range_iff ctrl_char_iff dotfile_iff
  consider "\<not> ?A" | "?A" "\<not> ?B" | "?A" "?B" "\<not> ?C" | "?A" "?B" "?C" "\<not> ?D"
    using assms unfolding structural_clean_def by blast
  then show ?thesis
  proof cases
    case 1
    show ?thesis unfolding unf if_not_P [OF 1] by (simp only: prod.case if_True fst_conv simp_thms)
  next
    case 2
    show ?thesis unfolding unf if_P [OF 2(1)] if_not_P [OF 2(2)]
      by (simp only: prod.case if_True if_False fst_conv simp_thms ngx_rc.distinct)
  next
    case 3
    show ?thesis unfolding unf if_P [OF 3(1)] if_P [OF 3(2)] if_not_P [OF 3(3)]
      by (simp only: prod.case if_True if_False fst_conv simp_thms ngx_rc.distinct)
  next
    case 4
    show ?thesis unfolding unf if_P [OF 4(1)] if_P [OF 4(2)] if_P [OF 4(3)] if_not_P [OF 4(4)]
      by (simp only: prod.case if_True if_False fst_conv simp_thms ngx_rc.distinct)
  qed
qed

lemma prebody_scans:
  "structural_clean env slcf r \<Longrightarrow> ngx_http_shield_inspect_prebody env pool r slcf hit =
     (case scan_target env (lc_skip slcf) pool (r_unparsed_uri r) hit of ((rc5, hit5), pool5) \<Rightarrow>
      if rc5 \<noteq> NGX_DECLINED then ((rc5, hit5), pool5)
      else scan_headers env (lc_skip slcf) pool5 (r_headers r) hit5)"
  unfolding ngx_http_shield_inspect_prebody_def httpoxy_iff range_iff ctrl_char_iff dotfile_iff structural_clean_def
  by (simp only: simp_thms if_True prod.case ngx_rc.distinct if_False)

lemma prebody_declined:
  assumes g: "globals_ok (e_globals env)" and i: "ngx_http_shield_inspect_prebody env pool r slcf hit = ((rc, hit'), pool')"
  shows "(rc = NGX_DECLINED \<longrightarrow> prebody_clean env slcf r)
    \<and> (prebody_clean env slcf r \<longrightarrow> rc \<in> {NGX_DECLINED, NGX_ERROR})
    \<and> (list_all (\<lambda>b. b) pool \<longrightarrow> rc \<noteq> NGX_ERROR)"
proof (cases "structural_clean env slcf r")
  case False
  then have "rc = NGX_OK" using prebody_structural [OF False, of pool hit] i by simp
  then show ?thesis using False by (simp add: prebody_clean_def)
next
  case True
  obtain rc5 hit5 pool5 where s: "scan_target env (lc_skip slcf) pool (r_unparsed_uri r) hit = ((rc5, hit5), pool5)"
    by (metis surj_pair)
  note t = scan_target_declined [OF g s] and unf = i [unfolded prebody_scans [OF True] s prod.case]
  show ?thesis
  proof (cases "rc5 = NGX_DECLINED")
    case d: True
    then have h: "scan_headers env (lc_skip slcf) pool5 (r_headers r) hit5 = ((rc, hit'), pool')" using unf by simp
    show ?thesis using scan_headers_declined [OF g h] t d True by (auto simp: prebody_clean_def)
  next
    case False
    then have "rc = rc5" using unf by simp
    then show ?thesis using t(2,3) False by (auto simp: prebody_clean_def)
  qed
qed

lemma scan_headers_rc:
  assumes "globals_ok (e_globals env)" and "scan_headers env skip pool hs hit = ((rc, hit'), pool')"
  shows "rc \<in> {NGX_OK, NGX_DECLINED, NGX_ERROR}"
  using assms(2)
proof (induction hs arbitrary: pool hit)
  case (Cons h hs)
  obtain source sk where p: "header_policy env skip h = (source, sk)" by fastforce
  obtain rc1 hit1 pool1 where s: "ngx_http_shield_scan_r env pool (hd_value h) source sk hit = ((rc1, hit1), pool1)"
    by (metis surj_pair)
  show ?case using Cons.IH [of pool hit] Cons.IH [of pool1 hit1] Cons.prems p s scan_r_declined(4) [OF assms(1) s]
    by (simp split: if_splits)
qed simp

lemma prebody_rc:
  assumes "globals_ok (e_globals env)" and "ngx_http_shield_inspect_prebody env pool r slcf hit = ((rc, hit'), pool')"
  shows "rc \<in> {NGX_OK, NGX_DECLINED, NGX_ERROR}"
proof (cases "structural_clean env slcf r")
  case False
  then show ?thesis using prebody_structural [OF False, of pool hit] assms(2) by simp
next
  case True
  obtain rc5 hit5 pool5 where s: "scan_target env (lc_skip slcf) pool (r_unparsed_uri r) hit = ((rc5, hit5), pool5)"
    by (metis surj_pair)
  have "rc5 \<in> {NGX_OK, NGX_DECLINED, NGX_ERROR}" by (rule scan_target_declined(4) [OF assms(1) s])
  then show ?thesis
    using assms(2) scan_headers_rc [OF assms(1)] unfolding prebody_scans [OF True] s prod.case by (auto split: if_splits)
qed

text \<open>The body: what is scanned is a prefix of the body, and an unread body is never clean.\<close>

definition body_limit :: "ngx_http_request_t \<Rightarrow> nat \<Rightarrow> nat" where
  "body_limit r mx = (if r_content_length_n r > 0 \<and> off_t_of mx > r_content_length_n r then nat (r_content_length_n r) else mx)"

lemma off_t_of_le: "off_t_of n \<le> int n"
  by (simp add: off_t_of_def)

lemma body_limit_le: "body_limit r mx \<le> mx"
  using off_t_of_le [of mx] by (auto simp: body_limit_def)

text \<open>Up to the largest \<open>off_t\<close> the limit is the smaller of the cap and the announced length.\<close>

lemma body_limit_min: "mx < 2 ^ 63 \<Longrightarrow> body_limit r mx = (if r_content_length_n r > 0 then min mx (nat (r_content_length_n r)) else mx)"
  by (auto simp: body_limit_def off_t_of_def min_def)

definition body_prefix :: "bytes \<Rightarrow> ngx_http_request_t \<Rightarrow> nat \<Rightarrow> bytes" where
  "body_prefix file r mx = (case r_body r of None \<Rightarrow> [] | Some bufs \<Rightarrow>
     take (body_limit r mx) (concat (map (buf_bytes file) bufs)))"

lemma collect_body_correct:
  assumes "case r_body r of None \<Rightarrow> True | Some bufs \<Rightarrow> list_all (buf_reads file) bufs"
    and "ngx_http_shield_collect_body pool r mx = (Some body, pool')"
  shows "body = body_prefix file r mx"
proof (cases "r_body r")
  case None
  then show ?thesis using assms(2) by (simp add: ngx_http_shield_collect_body_def body_prefix_def)
next
  case (Some bufs)
  show ?thesis
  proof (cases "bufs = [] \<or> mx = 0")
    case True
    then have "body_limit r 0 = 0" using body_limit_le [of r 0] by simp
    then show ?thesis using True Some assms(2) by (auto simp: ngx_http_shield_collect_body_def body_prefix_def)
  next
    case False
    then have c: "collect_bufs (body_limit r mx) [] bufs = Some body"
      using Some assms(2) by (auto simp: ngx_http_shield_collect_body_def body_limit_def Let_def split: prod.splits if_splits)
    have "list_all (buf_reads file) bufs" using assms(1) Some by simp
    from collect_bufs_correct [OF this _ c] show ?thesis using Some by (simp add: body_prefix_def)
  qed
qed

lemma inspect_body_declined:
  assumes g: "globals_ok (e_globals env)"
    and files: "case r_body r of None \<Rightarrow> True | Some bufs \<Rightarrow> list_all (buf_reads file) bufs"
    and i: "ngx_http_shield_inspect_body env pool r slcf hit = ((NGX_DECLINED, hit'), pool')"
  shows "clean env (lc_skip slcf OR ngx_http_shield_no_body_mask) (body_prefix file r (lc_max_body slcf))"
proof -
  obtain body pool1 where c: "ngx_http_shield_collect_body pool r (lc_max_body slcf) = (Some body, pool1)"
    using i by (auto simp: ngx_http_shield_inspect_body_def split: prod.splits option.splits)
  have "clean env (lc_skip slcf OR ngx_http_shield_no_body_mask) body"
    using i c scan_r_declined(1) [OF g] by (auto simp: ngx_http_shield_inspect_body_def split: if_splits)
  then show ?thesis using collect_body_correct [OF files c] by simp
qed

lemma inspect_body_hit:
  assumes g: "globals_ok (e_globals env)"
    and files: "case r_body r of None \<Rightarrow> True | Some bufs \<Rightarrow> list_all (buf_reads file) bufs"
    and i: "ngx_http_shield_inspect_body env pool r slcf hit = ((NGX_OK, hit'), pool')"
  shows "\<not> clean env (lc_skip slcf OR ngx_http_shield_no_body_mask) (body_prefix file r (lc_max_body slcf))"
proof -
  obtain body pool1 where c: "ngx_http_shield_collect_body pool r (lc_max_body slcf) = (Some body, pool1)"
    using i by (auto simp: ngx_http_shield_inspect_body_def split: prod.splits option.splits)
  have "\<not> clean env (lc_skip slcf OR ngx_http_shield_no_body_mask) body"
    using i c scan_r_declined(2) [OF g] by (fastforce simp: ngx_http_shield_inspect_body_def split: if_splits)
  then show ?thesis using collect_body_correct [OF files c] by simp
qed

lemma inspect_body_rc:
  assumes "globals_ok (e_globals env)" and "ngx_http_shield_inspect_body env pool r slcf hit = ((rc, hit'), pool')"
  shows "rc \<in> {NGX_OK, NGX_DECLINED, NGX_ERROR}"
  using assms(2) scan_r_declined(4) [OF assms(1)]
  by (auto simp: ngx_http_shield_inspect_body_def split: prod.splits option.splits if_splits)

end
