(* ===== verification/Ban.thy ===== *)
theory Ban
  imports Prelude "HOL-Library.Tree"
begin

text \<open>
  The shared-memory ban engine of \<open>src/ngx_http_shield_ban.c\<close>: the forwarded-for token, the
  saturating clock addition, the search tree, the LRU queue with its eviction cursor, the counters
  and the recording of hits.

  A node is named by its address in the slab.  The store \<open>sh_nodes\<close> maps the addresses in use to
  their contents; a read through an address that is not in use is undefined behaviour in C and the
  value \<open>None\<close> of the operation here.  The LRU queue is the list of its nodes from head to tail, the
  cursor is \<open>None\<close> when it points at the queue sentinel.

  The rebalancing of \<open>ngx_rbtree_insert\<close> and \<open>ngx_rbtree_delete\<close> and the slab allocator belong to
  nginx and are the fields of \<open>ngx_ops\<close>.
\<close>

section \<open>Types\<close>

type_synonym ptr = nat

text \<open>The byte pair (\<open>addr\<close>, \<open>len\<close>) is a byte list; the colour byte belongs to the rebalancing.\<close>

record ngx_http_shield_ban_node_t =
  bn_key :: nat
  bn_addr :: bytes
  bn_window_start :: time_t
  bn_banned_until :: time_t
  bn_hits :: nat

definition BAN_NCOUNTERS :: nat where "BAN_NCOUNTERS = 64"
definition BAN_EXPIRE_SCAN :: nat where "BAN_EXPIRE_SCAN = 32"
definition BAN_EXPIRE_EVICT :: nat where "BAN_EXPIRE_EVICT = 4"

record ngx_http_shield_ban_shctx_t =
  sh_rbtree :: "ptr tree"
  sh_queue :: "ptr list"
  sh_cat_hits :: "nat list"
  sh_blocked :: nat
  sh_bans :: nat
  sh_cursor :: "ptr option"
  sh_fault_nth :: int
  sh_fault_seen :: nat
  sh_nodes :: "ptr \<rightharpoonup> ngx_http_shield_ban_node_t"

text \<open>
  What the engine calls of nginx: the rebalancing after an insertion, the removal of a node from the
  tree, and the slab allocation, given the nodes in use.  \<open>op_harness\<close> is the build flag
  \<open>NGX_TEST_HARNESS\<close>.
\<close>

record ngx_ops =
  op_rebalance :: "ptr tree \<Rightarrow> ptr tree"
  op_rb_delete :: "ptr \<Rightarrow> ptr tree \<Rightarrow> ptr tree"
  op_slab_alloc :: "ptr list \<Rightarrow> ptr option"
  op_harness :: bool

text \<open>An unsigned 64-bit counter stepped by one.\<close>

definition inc64 :: "nat \<Rightarrow> nat" where
  "inc64 n = (n + 1) mod 2 ^ 64"

section \<open>Forwarded-for token\<close>

text \<open>The backward search for a comma: the bytes after the last one.\<close>

fun after_comma :: "bytes \<Rightarrow> bytes \<Rightarrow> bytes" where
  "after_comma [] acc = acc"
| "after_comma (c # rev_rest) acc = (if c = CHR '','' then acc else after_comma rev_rest (c # acc))"

definition is_blank :: "byte \<Rightarrow> bool" where
  "is_blank c \<longleftrightarrow> c = CHR '' '' \<or> c = CHR 0x09"

definition ngx_http_shield_xff_last_token :: "bytes \<Rightarrow> bytes" where
  "ngx_http_shield_xff_last_token v =
     (let start = dropWhile is_blank (after_comma (rev v) [])
      in rev (dropWhile is_blank (rev start)))"

section \<open>Clock\<close>

text \<open>\<open>sizeof(time_t)\<close> of the build is 8; the clamp is derived from it as in the code.\<close>

definition SIZEOF_TIME_T :: nat where "SIZEOF_TIME_T = 8"

definition time_t_max :: time_t where
  "time_t_max = 2 ^ (SIZEOF_TIME_T * 8 - 1) - 1"

definition ngx_http_shield_time_add_clamp :: "time_t \<Rightarrow> time_t \<Rightarrow> time_t" where
  "ngx_http_shield_time_add_clamp now delta =
     (if delta > time_t_max - now then time_t_max else now + delta)"

section \<open>Search tree\<close>

text \<open>\<open>ngx_memcmp\<close> of two equally long byte strings: the difference at the first differing byte.\<close>

fun ngx_memcmp :: "bytes \<Rightarrow> bytes \<Rightarrow> int" where
  "ngx_memcmp (a # as) (b # bs) = (if a = b then ngx_memcmp as bs else int (byte_val a) - int (byte_val b))"
| "ngx_memcmp _ _ = 0"

text \<open>Whether the new node goes to the left of \<open>temp\<close>.\<close>

definition goes_left :: "ngx_http_shield_ban_node_t \<Rightarrow> ngx_http_shield_ban_node_t \<Rightarrow> bool" where
  "goes_left bn bnt \<longleftrightarrow>
     (if bn_key bn < bn_key bnt then True
      else if bn_key bn > bn_key bnt then False
      else length (bn_addr bn) < length (bn_addr bnt)
           \<or> length (bn_addr bn) = length (bn_addr bnt) \<and> ngx_memcmp (bn_addr bn) (bn_addr bnt) < 0)"

fun ngx_http_shield_ban_rbtree_insert :: "(ptr \<rightharpoonup> ngx_http_shield_ban_node_t) \<Rightarrow> ptr
    \<Rightarrow> ngx_http_shield_ban_node_t \<Rightarrow> ptr tree \<Rightarrow> ptr tree option" where
  "ngx_http_shield_ban_rbtree_insert nodes node bn \<langle>\<rangle> = Some \<langle>\<langle>\<rangle>, node, \<langle>\<rangle>\<rangle>"
| "ngx_http_shield_ban_rbtree_insert nodes node bn \<langle>l, temp, r\<rangle> =
     (case nodes temp of
        None \<Rightarrow> None
      | Some bnt \<Rightarrow>
          if goes_left bn bnt
          then map_option (\<lambda>l'. \<langle>l', temp, r\<rangle>) (ngx_http_shield_ban_rbtree_insert nodes node bn l)
          else map_option (\<lambda>r'. \<langle>l, temp, r'\<rangle>) (ngx_http_shield_ban_rbtree_insert nodes node bn r))"

text \<open>
  The descent of the lookup.  The outer option is the read of a node, the inner one the result
  (\<open>NULL\<close> or the node found).
\<close>

fun ban_search :: "(ptr \<rightharpoonup> ngx_http_shield_ban_node_t) \<Rightarrow> nat \<Rightarrow> bytes \<Rightarrow> ptr tree \<Rightarrow> ptr option option" where
  "ban_search nodes hash addr \<langle>\<rangle> = Some None"
| "ban_search nodes hash addr \<langle>l, node, r\<rangle> =
     (case nodes node of
        None \<Rightarrow> None
      | Some bn \<Rightarrow>
          if hash < bn_key bn then ban_search nodes hash addr l
          else if hash > bn_key bn then ban_search nodes hash addr r
          else (let d = int (length addr) - int (length (bn_addr bn));
                    rc = (if d = 0 then ngx_memcmp addr (bn_addr bn) else d)
                in if rc = 0 then Some (Some node)
                   else if rc < 0 then ban_search nodes hash addr l
                   else ban_search nodes hash addr r))"

definition ngx_http_shield_ban_lookup :: "ngx_http_shield_ban_shctx_t \<Rightarrow> nat \<Rightarrow> bytes
    \<Rightarrow> (ptr option \<times> ngx_http_shield_ban_shctx_t) option" where
  "ngx_http_shield_ban_lookup sh hash addr =
     (case ban_search (sh_nodes sh) hash addr (sh_rbtree sh) of
        None \<Rightarrow> None
      | Some None \<Rightarrow> Some (None, sh)
      | Some (Some p) \<Rightarrow> Some (Some p, sh\<lparr>sh_queue := p # remove1 p (sh_queue sh)\<rparr>))"

section \<open>Initial state and counters\<close>

text \<open>
  The zone initialization sets up an empty tree before it calls this; the fields of the fault
  injection are not touched here.
\<close>

definition ngx_http_shield_ban_shctx_init :: "ngx_http_shield_ban_shctx_t \<Rightarrow> ngx_http_shield_ban_shctx_t" where
  "ngx_http_shield_ban_shctx_init sh = sh\<lparr>sh_queue := [], sh_cursor := None,
     sh_cat_hits := replicate BAN_NCOUNTERS 0, sh_blocked := 0, sh_bans := 0\<rparr>"

definition ngx_http_shield_ban_count_hit :: "ngx_http_shield_ban_shctx_t \<Rightarrow> nat \<Rightarrow> bool \<Rightarrow> ngx_http_shield_ban_shctx_t" where
  "ngx_http_shield_ban_count_hit sh cat blocked =
     (let sh1 = (if cat < BAN_NCOUNTERS
                 then sh\<lparr>sh_cat_hits := (sh_cat_hits sh)[cat := inc64 (sh_cat_hits sh ! cat)]\<rparr> else sh)
      in if blocked then sh1\<lparr>sh_blocked := inc64 (sh_blocked sh1)\<rparr> else sh1)"

section \<open>Eviction\<close>

text \<open>\<open>ngx_queue_last\<close> and \<open>ngx_queue_prev\<close>, with the sentinel as \<open>None\<close>.\<close>

definition queue_last :: "ptr list \<Rightarrow> ptr option" where
  "queue_last q = (if q = [] then None else Some (last q))"

fun queue_prev :: "ptr list \<Rightarrow> ptr \<Rightarrow> ptr option" where
  "queue_prev (x # y # ys) p = (if y = p then Some x else queue_prev (y # ys) p)"
| "queue_prev _ p = None"

definition ban_live :: "time_t \<Rightarrow> time_t \<Rightarrow> ngx_http_shield_ban_node_t \<Rightarrow> bool" where
  "ban_live now window bn \<longleftrightarrow>
     bn_banned_until bn > now
     \<or> (bn_banned_until bn = 0 \<and> now \<ge> bn_window_start bn
        \<and> ngx_http_shield_time_add_clamp (bn_window_start bn) window > now)"

definition ban_evict :: "ngx_ops \<Rightarrow> ngx_http_shield_ban_shctx_t \<Rightarrow> ptr \<Rightarrow> ngx_http_shield_ban_shctx_t" where
  "ban_evict ops sh p = sh\<lparr>sh_queue := remove1 p (sh_queue sh),
     sh_rbtree := op_rb_delete ops p (sh_rbtree sh), sh_nodes := (sh_nodes sh)(p := None)\<rparr>"

text \<open>The loop with its two budgets and the single wrap; \<open>q\<close> is parked as the cursor at the end.\<close>

function ban_expire_loop :: "ngx_ops \<Rightarrow> time_t \<Rightarrow> time_t \<Rightarrow> ngx_http_shield_ban_shctx_t \<Rightarrow> ptr option
    \<Rightarrow> nat \<Rightarrow> nat \<Rightarrow> bool \<Rightarrow> ngx_http_shield_ban_shctx_t option" where
  "ban_expire_loop ops now window sh q scanned evicted wrapped =
     (if scanned < BAN_EXPIRE_SCAN \<and> evicted < BAN_EXPIRE_EVICT
      then (case q of
              None \<Rightarrow>
                if wrapped then Some (sh\<lparr>sh_cursor := q\<rparr>)
                else ban_expire_loop ops now window sh (queue_last (sh_queue sh)) scanned evicted True
            | Some p \<Rightarrow>
                (case sh_nodes sh p of
                   None \<Rightarrow> None
                 | Some bn \<Rightarrow>
                     (let prev = queue_prev (sh_queue sh) p
                      in if ban_live now window bn
                         then ban_expire_loop ops now window sh prev (scanned + 1) evicted wrapped
                         else ban_expire_loop ops now window (ban_evict ops sh p) prev
                                (scanned + 1) (evicted + 1) wrapped)))
      else Some (sh\<lparr>sh_cursor := q\<rparr>))"
  by pat_completeness auto
termination
  by (relation "measure (\<lambda>(ops, now, window, sh, q, scanned, evicted, wrapped).
        2 * (BAN_EXPIRE_SCAN - scanned) + (if wrapped then 0 else 1))") auto

declare ban_expire_loop.simps [simp del]

definition ngx_http_shield_ban_expire :: "ngx_ops \<Rightarrow> ngx_http_shield_ban_shctx_t \<Rightarrow> time_t \<Rightarrow> time_t
    \<Rightarrow> ngx_http_shield_ban_shctx_t option" where
  "ngx_http_shield_ban_expire ops sh now window =
     (case sh_cursor sh of
        None \<Rightarrow> ban_expire_loop ops now window sh (queue_last (sh_queue sh)) 0 0 True
      | Some p \<Rightarrow> ban_expire_loop ops now window sh (Some p) 0 0 False)"

section \<open>Bans\<close>

definition ngx_http_shield_ban_is_banned_locked :: "ngx_http_shield_ban_shctx_t \<Rightarrow> nat \<Rightarrow> bytes \<Rightarrow> time_t
    \<Rightarrow> (bool \<times> ngx_http_shield_ban_shctx_t) option" where
  "ngx_http_shield_ban_is_banned_locked sh hash addr now =
     (case ngx_http_shield_ban_lookup sh hash addr of
        None \<Rightarrow> None
      | Some (None, sh') \<Rightarrow> Some (False, sh')
      | Some (Some p, sh') \<Rightarrow>
          (case sh_nodes sh' p of None \<Rightarrow> None | Some bn \<Rightarrow> Some (bn_banned_until bn > now, sh')))"

text \<open>The allocation, with the fault injection of the test build.\<close>

definition ngx_http_shield_ban_slab_alloc :: "ngx_ops \<Rightarrow> ngx_http_shield_ban_shctx_t
    \<Rightarrow> ptr option \<times> ngx_http_shield_ban_shctx_t" where
  "ngx_http_shield_ban_slab_alloc ops sh =
     (if sh_fault_nth sh \<ge> 0
      then (let sh1 = sh\<lparr>sh_fault_seen := inc64 (sh_fault_seen sh)\<rparr>
            in if int (sh_fault_seen sh1) = sh_fault_nth sh1 then (None, sh1)
               else (op_slab_alloc ops (sh_queue sh1), sh1))
      else (op_slab_alloc ops (sh_queue sh), sh))"

definition ngx_shield_slab_alloc :: "ngx_ops \<Rightarrow> ngx_http_shield_ban_shctx_t
    \<Rightarrow> ptr option \<times> ngx_http_shield_ban_shctx_t" where
  "ngx_shield_slab_alloc ops sh =
     (if op_harness ops then ngx_http_shield_ban_slab_alloc ops sh
      else (op_slab_alloc ops (sh_queue sh), sh))"

text \<open>What a recorded hit does to the node of its client; the flag says whether the ban was armed.\<close>

definition retire_lapsed :: "time_t \<Rightarrow> ngx_http_shield_ban_node_t \<Rightarrow> ngx_http_shield_ban_node_t" where
  "retire_lapsed now bn =
     (if bn_banned_until bn \<noteq> 0 \<and> bn_banned_until bn \<le> now then bn\<lparr>bn_banned_until := 0\<rparr> else bn)"

definition roll_window :: "time_t \<Rightarrow> time_t \<Rightarrow> ngx_http_shield_ban_node_t \<Rightarrow> ngx_http_shield_ban_node_t" where
  "roll_window now window bn =
     (if now < bn_window_start bn \<or> now - bn_window_start bn \<ge> window
      then bn\<lparr>bn_window_start := now, bn_hits := 0\<rparr> else bn)"

definition ban_hit :: "time_t \<Rightarrow> nat \<Rightarrow> time_t \<Rightarrow> time_t \<Rightarrow> ngx_http_shield_ban_node_t
    \<Rightarrow> bool \<times> ngx_http_shield_ban_node_t" where
  "ban_hit now count window ban_time bn =
     (let bn1 = roll_window now window (retire_lapsed now bn);
          bn2 = bn1\<lparr>bn_hits := inc64 (bn_hits bn1)\<rparr>
      in if bn_hits bn2 \<ge> count
         then (True, bn2\<lparr>bn_banned_until := ngx_http_shield_time_add_clamp now ban_time,
                         bn_hits := 0, bn_window_start := now\<rparr>)
         else (False, bn2))"

text \<open>The second half of the recording, on the node found or created.\<close>

definition ban_record_at :: "ngx_http_shield_ban_shctx_t \<Rightarrow> ptr \<Rightarrow> time_t \<Rightarrow> nat \<Rightarrow> time_t \<Rightarrow> time_t
    \<Rightarrow> (ngx_rc \<times> ngx_http_shield_ban_shctx_t) option" where
  "ban_record_at sh p now count window ban_time =
     (case sh_nodes sh p of
        None \<Rightarrow> None
      | Some bn \<Rightarrow>
          (case ban_hit now count window ban_time bn of (armed, bn') \<Rightarrow>
             let sh1 = sh\<lparr>sh_nodes := (sh_nodes sh)(p \<mapsto> bn')\<rparr>
             in Some (NGX_OK, if armed then sh1\<lparr>sh_bans := inc64 (sh_bans sh1)\<rparr> else sh1)))"

definition ban_new_node :: "nat \<Rightarrow> bytes \<Rightarrow> time_t \<Rightarrow> ngx_http_shield_ban_node_t" where
  "ban_new_node hash addr now =
     \<lparr>bn_key = hash, bn_addr = addr, bn_window_start = now, bn_banned_until = 0, bn_hits = 0\<rparr>"

text \<open>\<open>ngx_rbtree_insert\<close> places the node with the module's insertion function and rebalances.\<close>

definition ban_link :: "ngx_ops \<Rightarrow> ngx_http_shield_ban_shctx_t \<Rightarrow> ptr \<Rightarrow> ngx_http_shield_ban_node_t
    \<Rightarrow> ngx_http_shield_ban_shctx_t option" where
  "ban_link ops sh p bn =
     (case ngx_http_shield_ban_rbtree_insert (sh_nodes sh) p bn (sh_rbtree sh) of
        None \<Rightarrow> None
      | Some t \<Rightarrow> Some (sh\<lparr>sh_nodes := (sh_nodes sh)(p \<mapsto> bn), sh_rbtree := op_rebalance ops t,
                           sh_queue := p # sh_queue sh\<rparr>))"

definition ngx_http_shield_ban_record_locked :: "ngx_ops \<Rightarrow> ngx_http_shield_ban_shctx_t \<Rightarrow> nat \<Rightarrow> bytes
    \<Rightarrow> time_t \<Rightarrow> nat \<Rightarrow> time_t \<Rightarrow> time_t \<Rightarrow> (ngx_rc \<times> ngx_http_shield_ban_shctx_t) option" where
  "ngx_http_shield_ban_record_locked ops sh hash addr now count window ban_time =
     (case ngx_http_shield_ban_lookup sh hash addr of
        None \<Rightarrow> None
      | Some (Some p, sh1) \<Rightarrow> ban_record_at sh1 p now count window ban_time
      | Some (None, sh1) \<Rightarrow>
          (case ngx_http_shield_ban_expire ops sh1 now window of
             None \<Rightarrow> None
           | Some sh2 \<Rightarrow>
               (case ngx_shield_slab_alloc ops sh2 of
                  (None, sh3) \<Rightarrow> Some (NGX_ERROR, sh3)
                | (Some p, sh3) \<Rightarrow>
                    (case ban_link ops sh3 p (ban_new_node hash addr now) of
                       None \<Rightarrow> None
                     | Some sh4 \<Rightarrow> ban_record_at sh4 p now count window ban_time))))"

end
