(* ===== verification/Ban_Tree.thy ===== *)
theory Ban_Tree
  imports Ban
begin

text \<open>
  The order of the ban tree (hash, then address length, then address bytes) is a strict linear order
  on clients; search and insertion are correct with respect to the in-order sequence of the tree.
\<close>

section \<open>Order of the clients\<close>

type_synonym client = "nat \<times> bytes"

definition client_of :: "ngx_http_shield_ban_node_t \<Rightarrow> client" where
  "client_of bn = (bn_key bn, bn_addr bn)"

fun client_less :: "client \<Rightarrow> client \<Rightarrow> bool" where
  "client_less (h, a) (h', a') \<longleftrightarrow>
     h < h' \<or> h = h' \<and> (length a < length a' \<or> length a = length a' \<and> ngx_memcmp a a' < 0)"

lemma goes_left_client_less: "goes_left bn bnt \<longleftrightarrow> client_less (client_of bn) (client_of bnt)"
  by (auto simp: goes_left_def client_of_def)

lemma memcmp_0: "length a = length b \<Longrightarrow> ngx_memcmp a b = 0 \<longleftrightarrow> a = b"
  by (induction a b rule: list_induct2) (auto simp: byte_val_inj)

lemma memcmp_swap: "length a = length b \<Longrightarrow> ngx_memcmp b a = - ngx_memcmp a b"
  by (induction a b rule: list_induct2) auto

lemma memcmp_trans:
  "length a = length b \<Longrightarrow> length b = length c \<Longrightarrow> ngx_memcmp a b < 0 \<Longrightarrow> ngx_memcmp b c < 0 \<Longrightarrow> ngx_memcmp a c < 0"
  by (induction a b c rule: list_induct3) (auto split: if_splits)

lemma client_less_irrefl: "\<not> client_less c c"
proof -
  have "ngx_memcmp a a = 0" for a by (simp add: memcmp_0)
  then show ?thesis by (cases c) simp
qed

lemma client_less_trans: "client_less c d \<Longrightarrow> client_less d e \<Longrightarrow> client_less c e"
  by (cases c; cases d; cases e) (auto dest: memcmp_trans [rotated 2])

lemma client_less_total: "c = d \<or> client_less c d \<or> client_less d c"
proof (cases c, cases d)
  fix h a h' a' assume c: "c = (h, a)" and d: "d = (h', a')"
  show ?thesis
  proof (cases "length a = length a'")
    case True
    then show ?thesis using memcmp_0 [OF True] memcmp_swap [OF True] by (auto simp: c d)
  next
    case False
    then show ?thesis by (auto simp: c d)
  qed
qed

lemma client_less_asym: "client_less c d \<Longrightarrow> \<not> client_less d c"
  using client_less_trans client_less_irrefl by blast

section \<open>Search\<close>

definition client_at :: "(ptr \<rightharpoonup> ngx_http_shield_ban_node_t) \<Rightarrow> ptr \<Rightarrow> client" where
  "client_at nodes p = client_of (the (nodes p))"

lemma client_at_upd [simp]:
  "client_at (nodes(p \<mapsto> bn)) x = (if x = p then client_of bn else client_at nodes x)"
  by (simp add: client_at_def)

definition tree_ok :: "(ptr \<rightharpoonup> ngx_http_shield_ban_node_t) \<Rightarrow> ptr list \<Rightarrow> bool" where
  "tree_ok nodes ps \<longleftrightarrow> set ps \<subseteq> dom nodes \<and> sorted_wrt (\<lambda>p q. client_less (client_at nodes p) (client_at nodes q)) ps"

lemma tree_ok_Node:
  "tree_ok nodes (inorder \<langle>l, p, r\<rangle>) \<longleftrightarrow>
     tree_ok nodes (inorder l) \<and> tree_ok nodes (inorder r) \<and> p \<in> dom nodes
     \<and> (\<forall>q \<in> set_tree l. client_less (client_at nodes q) (client_at nodes p))
     \<and> (\<forall>q \<in> set_tree r. client_less (client_at nodes p) (client_at nodes q))"
  by (auto simp: tree_ok_def sorted_wrt_append intro: client_less_trans)

lemma tree_ok_unique:
  assumes "tree_ok nodes ps" and "p \<in> set ps" and "q \<in> set ps" and "client_at nodes p = client_at nodes q"
  shows "p = q"
proof (rule ccontr)
  assume "p \<noteq> q"
  then obtain i j where ij: "i < length ps" "j < length ps" "ps ! i = p" "ps ! j = q" "i \<noteq> j"
    using assms(2,3) by (metis in_set_conv_nth)
  then have "client_less (client_at nodes p) (client_at nodes q) \<or> client_less (client_at nodes q) (client_at nodes p)"
    using assms(1) by (metis tree_ok_def linorder_neqE_nat sorted_wrt_nth_less)
  then show False using assms(4) client_less_irrefl by simp
qed

lemma tree_ok_distinct: "tree_ok nodes ps \<Longrightarrow> distinct ps"
  unfolding tree_ok_def by (induction ps) (auto simp: client_less_irrefl)

text \<open>One step of the search follows the order of the clients.\<close>

lemma ban_search_step:
  assumes "nodes p = Some bn"
  shows "ban_search nodes h a \<langle>l, p, r\<rangle> =
    (if (h, a) = client_of bn then Some (Some p)
     else if client_less (h, a) (client_of bn) then ban_search nodes h a l else ban_search nodes h a r)"
proof (cases "length a = length (bn_addr bn)")
  case True
  then show ?thesis using assms memcmp_0 [OF True] by (auto simp: client_of_def Let_def)
qed (use assms in \<open>auto simp: client_of_def Let_def\<close>)

lemma ban_search_correct:
  assumes "tree_ok nodes (inorder t)"
  shows "\<exists>res. ban_search nodes h a t = Some res
    \<and> (\<forall>p. res = Some p \<longleftrightarrow> p \<in> set_tree t \<and> client_at nodes p = (h, a))"
  using assms
proof (induction t)
  case (Node l p r)
  note ok = Node.prems [unfolded tree_ok_Node]
  then obtain bn where bn: "nodes p = Some bn" by blast
  then have cp: "client_at nodes p = client_of bn" by (simp add: client_at_def)
  note step = ban_search_step [of nodes p bn h a l r, OF bn]
  consider "(h, a) = client_of bn" | "client_less (h, a) (client_of bn)" | "client_less (client_of bn) (h, a)"
    using client_less_total by blast
  then show ?case
  proof cases
    case 1
    have "q = p" if "q \<in> set_tree \<langle>l, p, r\<rangle>" "client_at nodes q = (h, a)" for q
      using tree_ok_unique [OF Node.prems, of q p] that 1 cp by simp
    then show ?thesis using 1 cp step by auto
  next
    case 2
    then have "\<forall>q \<in> insert p (set_tree r). client_at nodes q \<noteq> (h, a)"
      using ok cp client_less_asym client_less_irrefl by (metis insert_iff)
    moreover have "ban_search nodes h a \<langle>l, p, r\<rangle> = ban_search nodes h a l"
      unfolding step using 2 client_less_irrefl by (simp only: if_True if_False split: if_split) metis
    ultimately show ?thesis using Node.IH(1) ok by auto
  next
    case 3
    then have "\<forall>q \<in> insert p (set_tree l). client_at nodes q \<noteq> (h, a)"
      using ok cp client_less_asym client_less_irrefl by (metis insert_iff)
    moreover have "ban_search nodes h a \<langle>l, p, r\<rangle> = ban_search nodes h a r"
      unfolding step using 3 client_less_asym client_less_irrefl by (simp only: if_True if_False split: if_split) metis
    ultimately show ?thesis using Node.IH(2) ok by auto
  qed
qed simp

section \<open>Insertion\<close>

lemma rbtree_insert_correct:
  assumes "tree_ok nodes (inorder t)" and "p \<notin> set_tree t"
    and "\<forall>q \<in> set_tree t. client_at nodes q \<noteq> client_of bn"
  shows "\<exists>t'. ngx_http_shield_ban_rbtree_insert nodes p bn t = Some t'
    \<and> tree_ok (nodes(p \<mapsto> bn)) (inorder t') \<and> set_tree t' = insert p (set_tree t)"
  using assms
proof (induction t)
  case Leaf
  then show ?case by (simp add: tree_ok_def dom_def)
next
  case (Node l q r)
  let ?n = "nodes(p \<mapsto> bn)"
  note ok = Node.prems(1) [unfolded tree_ok_Node]
  then obtain bq where bq: "nodes q = Some bq" by blast
  then have cq: "client_at nodes q = client_of bq" by (simp add: client_at_def)
  have okn: "tree_ok ?n (inorder t)" if "tree_ok nodes (inorder t)" "p \<notin> set_tree t" for t
    using that by (auto simp: tree_ok_def client_at_def intro: sorted_wrt_mono_rel [rotated])
  show ?case
  proof (cases "client_less (client_of bn) (client_of bq)")
    case True
    obtain l' where l': "ngx_http_shield_ban_rbtree_insert nodes p bn l = Some l'"
        "tree_ok ?n (inorder l')" "set_tree l' = insert p (set_tree l)"
      using Node.IH(1) [OF conjunct1 [OF ok]] Node.prems(2,3) by (metis tree.set_intros(1))
    have "tree_ok ?n (inorder \<langle>l', q, r\<rangle>)"
      unfolding tree_ok_Node using ok l' okn [of r] Node.prems(2) True bq cq by auto
    moreover have "ngx_http_shield_ban_rbtree_insert nodes p bn \<langle>l, q, r\<rangle> = Some \<langle>l', q, r\<rangle>"
      using l'(1) bq True by (simp add: goes_left_client_less)
    moreover have "set_tree \<langle>l', q, r\<rangle> = insert p (set_tree \<langle>l, q, r\<rangle>)" using l'(3) by auto
    ultimately show ?thesis by blast
  next
    case False
    then have gt: "client_less (client_of bq) (client_of bn)"
      using client_less_total Node.prems(3) cq by (metis tree.set_intros(2))
    obtain r' where r': "ngx_http_shield_ban_rbtree_insert nodes p bn r = Some r'"
        "tree_ok ?n (inorder r')" "set_tree r' = insert p (set_tree r)"
      using Node.IH(2) [OF conjunct1 [OF conjunct2 [OF ok]]] Node.prems(2,3) by (metis tree.set_intros(3))
    have "tree_ok ?n (inorder \<langle>l, q, r'\<rangle>)"
      unfolding tree_ok_Node using ok r' okn [of l] Node.prems(2) gt bq cq by auto
    moreover have "ngx_http_shield_ban_rbtree_insert nodes p bn \<langle>l, q, r\<rangle> = Some \<langle>l, q, r'\<rangle>"
      using r'(1) bq False by (simp add: goes_left_client_less)
    moreover have "set_tree \<langle>l, q, r'\<rangle> = insert p (set_tree \<langle>l, q, r\<rangle>)" using r'(3) by auto
    ultimately show ?thesis by blast
  qed
qed

end
