(* ===== verification/Ban_Correct.thy ===== *)
theory Ban_Correct
  imports Ban_Tree
begin

text \<open>
  The invariant of the ban zone, kept by every operation, with the fact that no operation reads a
  freed node; eviction removes stale nodes only, within its two budgets.
\<close>

section \<open>What the engine relies on of nginx\<close>

text \<open>
  Rebalancing keeps the in-order sequence; deletion removes exactly the node it is given; the slab
  never hands out memory that is in use.
\<close>

definition ops_ok :: "ngx_ops \<Rightarrow> bool" where
  "ops_ok ops \<longleftrightarrow> (\<forall>t. inorder (op_rebalance ops t) = inorder t)
     \<and> (\<forall>p t. distinct (inorder t) \<longrightarrow> p \<in> set_tree t \<longrightarrow> inorder (op_rb_delete ops p t) = remove1 p (inorder t))
     \<and> (\<forall>used p. op_slab_alloc ops used = Some p \<longrightarrow> p \<notin> set used)"

lemma set_tree_rebalance: "ops_ok ops \<Longrightarrow> set_tree (op_rebalance ops t) = set_tree t"
  by (metis ops_ok_def set_inorder)

section \<open>Invariant\<close>

text \<open>
  The tree, the queue and the store hold the same nodes; the tree is ordered, so there is one node
  per client; the queue has no duplicates; there are 64 counters.  The full invariant adds that the
  cursor is the sentinel or a node in use.
\<close>

definition zone_ok :: "ngx_http_shield_ban_shctx_t \<Rightarrow> bool" where
  "zone_ok sh \<longleftrightarrow> tree_ok (sh_nodes sh) (inorder (sh_rbtree sh)) \<and> set_tree (sh_rbtree sh) = dom (sh_nodes sh)
     \<and> distinct (sh_queue sh) \<and> set (sh_queue sh) = dom (sh_nodes sh) \<and> length (sh_cat_hits sh) = BAN_NCOUNTERS"

definition in_use :: "ngx_http_shield_ban_shctx_t \<Rightarrow> ptr option \<Rightarrow> bool" where
  "in_use sh q \<longleftrightarrow> (case q of None \<Rightarrow> True | Some p \<Rightarrow> sh_nodes sh p \<noteq> None)"

definition ban_inv :: "ngx_http_shield_ban_shctx_t \<Rightarrow> bool" where
  "ban_inv sh \<longleftrightarrow> zone_ok sh \<and> in_use sh (sh_cursor sh)"

lemma zone_ok_unique:
  assumes "zone_ok sh" "sh_nodes sh p = Some bn" "sh_nodes sh q = Some bn'" "client_of bn = client_of bn'"
  shows "p = q"
proof (rule tree_ok_unique)
  show "tree_ok (sh_nodes sh) (inorder (sh_rbtree sh))" using assms(1) by (simp add: zone_ok_def)
  show "p \<in> set (inorder (sh_rbtree sh))" "q \<in> set (inorder (sh_rbtree sh))"
    using assms by (auto simp: zone_ok_def)
  show "client_at (sh_nodes sh) p = client_at (sh_nodes sh) q" using assms(2-4) by (simp add: client_at_def)
qed

lemma zone_ok_cursor [simp]: "zone_ok (sh\<lparr>sh_cursor := q\<rparr>) = zone_ok sh"
  by (simp add: zone_ok_def)

lemma in_use_cursor [simp]: "in_use (sh\<lparr>sh_cursor := q\<rparr>) = in_use sh"
  by (auto simp: in_use_def fun_eq_iff split: option.split)

section \<open>Queue\<close>

lemma queue_last_in: "queue_last xs = Some p \<Longrightarrow> p \<in> set xs"
  by (auto simp: queue_last_def split: if_splits)

lemma queue_prev_in: "queue_prev xs p = Some x \<Longrightarrow> x \<in> set xs"
  by (induction xs p rule: queue_prev.induct) (auto split: if_splits)

lemma queue_prev_neq: "distinct xs \<Longrightarrow> queue_prev xs p = Some x \<Longrightarrow> x \<noteq> p"
  by (induction xs p rule: queue_prev.induct) (auto split: if_splits)

lemma in_use_queue:
  assumes "zone_ok sh"
  shows "in_use sh (queue_last (sh_queue sh))" and "in_use sh (queue_prev (sh_queue sh) p)"
  using assms queue_last_in [of "sh_queue sh"] queue_prev_in [of "sh_queue sh" p]
  by (auto simp: in_use_def zone_ok_def split: option.split)

section \<open>Eviction\<close>

lemma tree_ok_drop:
  assumes "tree_ok nodes ps"
  shows "tree_ok (nodes(p := None)) (filter (\<lambda>q. q \<noteq> p) ps)"
proof -
  have "sorted_wrt (\<lambda>p q. client_less (client_at nodes p) (client_at nodes q)) (filter (\<lambda>q. q \<noteq> p) ps)"
    using assms by (simp add: tree_ok_def sorted_wrt_filter)
  then have "sorted_wrt (\<lambda>x y. client_less (client_at (nodes(p := None)) x) (client_at (nodes(p := None)) y))
      (filter (\<lambda>q. q \<noteq> p) ps)"
    by (rule sorted_wrt_mono_rel [rotated]) (simp add: client_at_def)
  then show ?thesis using assms unfolding tree_ok_def by auto
qed

lemma ban_evict_ok:
  assumes "ops_ok ops" and "zone_ok sh" and "sh_nodes sh p = Some bn"
  shows "zone_ok (ban_evict ops sh p)"
proof -
  let ?t = "sh_rbtree sh" and ?n = "(sh_nodes sh)(p := None)"
  have ok: "tree_ok (sh_nodes sh) (inorder ?t)" and d: "distinct (inorder ?t)" and p: "p \<in> set_tree ?t"
    using assms(2,3) tree_ok_distinct by (auto simp: zone_ok_def)
  have io: "inorder (op_rb_delete ops p ?t) = filter (\<lambda>q. q \<noteq> p) (inorder ?t)"
    using assms(1) d p by (simp add: ops_ok_def distinct_remove1_removeAll removeAll_filter_not_eq neq_commute)
  have "tree_ok ?n (inorder (op_rb_delete ops p ?t))"
    unfolding io by (rule tree_ok_drop [OF ok])
  moreover have "set_tree (op_rb_delete ops p ?t) = dom ?n"
    using assms(2) by (subst set_inorder [symmetric], subst io) (auto simp: zone_ok_def)
  ultimately show ?thesis using assms(2) by (auto simp: zone_ok_def ban_evict_def)
qed

text \<open>
  What an eviction run may do: drop a set of stale nodes from store and queue, and nothing else.
\<close>

definition reclaimed :: "time_t \<Rightarrow> time_t \<Rightarrow> ptr set \<Rightarrow> ngx_http_shield_ban_shctx_t \<Rightarrow> ngx_http_shield_ban_shctx_t \<Rightarrow> bool" where
  "reclaimed now window E sh sh' \<longleftrightarrow>
     (\<forall>p \<in> E. \<exists>bn. sh_nodes sh p = Some bn \<and> \<not> ban_live now window bn)
     \<and> sh_nodes sh' = sh_nodes sh |` (- E) \<and> sh_queue sh' = filter (\<lambda>p. p \<notin> E) (sh_queue sh)
     \<and> sh_cat_hits sh' = sh_cat_hits sh \<and> sh_blocked sh' = sh_blocked sh \<and> sh_bans sh' = sh_bans sh
     \<and> sh_fault_nth sh' = sh_fault_nth sh \<and> sh_fault_seen sh' = sh_fault_seen sh"

lemma reclaimed_refl: "reclaimed now window {} sh (sh\<lparr>sh_cursor := q\<rparr>)"
  by (simp add: reclaimed_def restrict_map_def)

lemma reclaimed_evict:
  assumes "zone_ok sh" and "sh_nodes sh p = Some bn" and "\<not> ban_live now window bn"
    and "reclaimed now window E (ban_evict ops sh p) sh'"
  shows "reclaimed now window (insert p E) sh sh'" and "p \<notin> E"
proof -
  have E: "\<forall>q \<in> E. q \<noteq> p \<and> (\<exists>bn. sh_nodes sh q = Some bn \<and> \<not> ban_live now window bn)"
    using assms(4) by (auto simp: reclaimed_def ban_evict_def split: if_splits)
  then show "p \<notin> E" by blast
  have "sh_nodes sh' = sh_nodes sh |` (- insert p E)"
    using assms(4) by (auto simp: reclaimed_def ban_evict_def restrict_map_def fun_eq_iff)
  moreover have "filter (\<lambda>q. q \<notin> insert p E) (sh_queue sh) = filter (\<lambda>q. q \<notin> E) (remove1 p (sh_queue sh))"
    using assms(1) by (simp add: zone_ok_def distinct_remove1_removeAll removeAll_filter_not_eq conj_commute neq_commute)
  ultimately show "reclaimed now window (insert p E) sh sh'"
    using assms E by (auto simp: reclaimed_def ban_evict_def)
qed

text \<open>What the rest of the loop reclaims after one node more was removed.\<close>

definition loop_reclaims :: "ngx_ops \<Rightarrow> time_t \<Rightarrow> time_t \<Rightarrow> ngx_http_shield_ban_shctx_t \<Rightarrow> ptr option \<Rightarrow> nat \<Rightarrow> nat \<Rightarrow> bool \<Rightarrow> bool" where
  "loop_reclaims ops now window sh q scanned evicted wrapped \<longleftrightarrow>
     (\<exists>sh' E. ban_expire_loop ops now window sh q scanned evicted wrapped = Some sh' \<and> ban_inv sh'
        \<and> reclaimed now window E sh sh' \<and> finite E \<and> card E + evicted \<le> BAN_EXPIRE_EVICT)"

lemma loop_stops:
  assumes "zone_ok sh" and "in_use sh q" and "evicted \<le> BAN_EXPIRE_EVICT"
    and "ban_expire_loop ops now window sh q scanned evicted wrapped = Some (sh\<lparr>sh_cursor := q\<rparr>)"
  shows "loop_reclaims ops now window sh q scanned evicted wrapped"
  unfolding loop_reclaims_def using assms reclaimed_refl [of now window sh q]
  by (intro exI [of _ "sh\<lparr>sh_cursor := q\<rparr>"] exI [of _ "{}"]) (simp add: ban_inv_def)

lemma loop_evicts:
  assumes z: "zone_ok sh" and bn: "sh_nodes sh p = Some bn" "\<not> ban_live now window bn"
    and go: "scanned < BAN_EXPIRE_SCAN \<and> evicted < BAN_EXPIRE_EVICT"
    and rest: "loop_reclaims ops now window (ban_evict ops sh p) (queue_prev (sh_queue sh) p) (scanned + 1) (evicted + 1) wrapped"
  shows "loop_reclaims ops now window sh (Some p) scanned evicted wrapped"
proof -
  obtain sh' E where r: "ban_expire_loop ops now window (ban_evict ops sh p) (queue_prev (sh_queue sh) p) (scanned + 1) (evicted + 1) wrapped = Some sh'"
      and inv: "ban_inv sh'" and E: "reclaimed now window E (ban_evict ops sh p) sh'" "finite E" "card E + (evicted + 1) \<le> BAN_EXPIRE_EVICT"
    using rest unfolding loop_reclaims_def by blast
  have "ban_expire_loop ops now window sh (Some p) scanned evicted wrapped = Some sh'"
    using r go bn by (subst ban_expire_loop.simps) simp
  then show ?thesis unfolding loop_reclaims_def
    using inv E reclaimed_evict [OF z bn E(1)] by (intro exI [of _ sh'] exI [of _ "insert p E"]) simp
qed

lemma ban_expire_loop_correct:
  assumes "ops_ok ops" and "zone_ok sh" and "in_use sh q" and "evicted \<le> BAN_EXPIRE_EVICT"
  shows "loop_reclaims ops now window sh q scanned evicted wrapped"
  using assms
proof (induction ops now window sh q scanned evicted wrapped rule: ban_expire_loop.induct)
  case (1 ops now window sh q scanned evicted wrapped)
  note unfold = ban_expire_loop.simps [of ops now window sh q scanned evicted wrapped] and stop = loop_stops [OF "1.prems"(2-4)]
  show ?case
  proof (cases "scanned < BAN_EXPIRE_SCAN \<and> evicted < BAN_EXPIRE_EVICT")
    case False
    then show ?thesis using stop unfold by presburger
  next
    case go: True
    show ?thesis
    proof (cases q)
      case None
      show ?thesis
      proof (cases wrapped)
        case True
        then show ?thesis using stop unfold go None by simp
      next
        case False
        then show ?thesis using "1.IH"(1) [OF go None False] "1.prems" in_use_queue(1) unfold go None by (simp add: loop_reclaims_def)
      qed
    next
      case (Some p)
      then obtain bn where bn: "sh_nodes sh p = Some bn" using "1.prems"(3) by (auto simp: in_use_def)
      have prev: "in_use sh (queue_prev (sh_queue sh) p)" by (rule in_use_queue(2) [OF "1.prems"(2)])
      show ?thesis
      proof (cases "ban_live now window bn")
        case True
        then show ?thesis using "1.IH"(2) [OF go Some bn refl True] "1.prems" prev unfold go Some bn by (simp add: loop_reclaims_def)
      next
        case False
        have "in_use (ban_evict ops sh p) (queue_prev (sh_queue sh) p)"
          using prev queue_prev_neq [of "sh_queue sh" p] "1.prems"(2)
          by (auto simp: in_use_def ban_evict_def zone_ok_def split: option.splits)
        then show ?thesis unfolding Some using "1.IH"(3) [OF go Some bn refl False] "1.prems"(1) ban_evict_ok [OF "1.prems"(1,2) bn] go
          by (intro loop_evicts [OF "1.prems"(2) bn False go]) auto
      qed
    qed
  qed
qed

lemma ban_expire_correct:
  assumes "ops_ok ops" and "ban_inv sh"
  shows "\<exists>sh' E. ngx_http_shield_ban_expire ops sh now window = Some sh' \<and> ban_inv sh'
    \<and> reclaimed now window E sh sh' \<and> finite E \<and> card E \<le> BAN_EXPIRE_EVICT"
proof -
  have "in_use sh (queue_last (sh_queue sh))" "zone_ok sh" "in_use sh (sh_cursor sh)"
    using assms(2) in_use_queue(1) by (auto simp: ban_inv_def)
  then show ?thesis
    using ban_expire_loop_correct [OF assms(1), of sh _ 0 now window 0, unfolded loop_reclaims_def]
    by (cases "sh_cursor sh") (simp_all add: ngx_http_shield_ban_expire_def)
qed

section \<open>Lookup\<close>

lemma ban_lookup_correct:
  assumes "ban_inv sh"
  shows "\<exists>res sh'. ngx_http_shield_ban_lookup sh h a = Some (res, sh') \<and> ban_inv sh'
    \<and> sh' = sh\<lparr>sh_queue := sh_queue sh'\<rparr>
    \<and> (\<forall>p. res = Some p \<longleftrightarrow> (\<exists>bn. sh_nodes sh p = Some bn \<and> client_of bn = (h, a)))
    \<and> sh_queue sh' = (case res of None \<Rightarrow> sh_queue sh | Some p \<Rightarrow> p # remove1 p (sh_queue sh))"
proof -
  have z: "zone_ok sh" using assms by (simp add: ban_inv_def)
  obtain res where res: "ban_search (sh_nodes sh) h a (sh_rbtree sh) = Some res"
      "\<forall>p. res = Some p \<longleftrightarrow> (\<exists>bn. sh_nodes sh p = Some bn \<and> client_of bn = (h, a))"
  proof -
    have "p \<in> dom (sh_nodes sh) \<and> client_at (sh_nodes sh) p = (h, a) \<longleftrightarrow> (\<exists>bn. sh_nodes sh p = Some bn \<and> client_of bn = (h, a))" for p
      by (auto simp: client_at_def)
    moreover have "tree_ok (sh_nodes sh) (inorder (sh_rbtree sh))" "set_tree (sh_rbtree sh) = dom (sh_nodes sh)"
      using z by (simp_all add: zone_ok_def)
    ultimately show ?thesis
      using ban_search_correct [of "sh_nodes sh" "sh_rbtree sh" h a] that by metis
  qed
  show ?thesis
  proof (cases res)
    case None
    then show ?thesis using res assms by (simp add: ngx_http_shield_ban_lookup_def)
  next
    case (Some p)
    then have p: "p \<in> set (sh_queue sh)" using res(2) z by (auto simp: zone_ok_def)
    have "ban_inv (sh\<lparr>sh_queue := p # remove1 p (sh_queue sh)\<rparr>)"
      using assms p by (auto simp: ban_inv_def zone_ok_def in_use_def split: option.splits)
    then show ?thesis using res Some by (simp add: ngx_http_shield_ban_lookup_def)
  qed
qed

section \<open>The zone as a table of clients\<close>

text \<open>The abstract state: which clients are tracked, and what is known of each.\<close>

definition ban_view :: "ngx_http_shield_ban_shctx_t \<Rightarrow> client \<rightharpoonup> ngx_http_shield_ban_node_t" where
  "ban_view sh c = (case find (\<lambda>p. client_at (sh_nodes sh) p = c) (sh_queue sh) of
     None \<Rightarrow> None | Some p \<Rightarrow> sh_nodes sh p)"

lemma ban_view_Some:
  assumes "zone_ok sh"
  shows "ban_view sh c = Some bn \<longleftrightarrow> (\<exists>p. sh_nodes sh p = Some bn \<and> client_of bn = c)"
proof
  assume "ban_view sh c = Some bn"
  then obtain p where "find (\<lambda>p. client_at (sh_nodes sh) p = c) (sh_queue sh) = Some p" "sh_nodes sh p = Some bn"
    by (auto simp: ban_view_def split: option.splits)
  then show "\<exists>p. sh_nodes sh p = Some bn \<and> client_of bn = c"
    by (auto simp: find_Some_iff client_at_def)
next
  assume "\<exists>p. sh_nodes sh p = Some bn \<and> client_of bn = c"
  then obtain p where p: "sh_nodes sh p = Some bn" "client_of bn = c" by blast
  then have "p \<in> set (sh_queue sh)" "client_at (sh_nodes sh) p = c" using assms by (auto simp: zone_ok_def client_at_def)
  then obtain q where q: "find (\<lambda>p. client_at (sh_nodes sh) p = c) (sh_queue sh) = Some q"
    by (metis (mono_tags, lifting) find_None_iff not_Some_eq)
  then have "q \<in> set (sh_queue sh)" "client_at (sh_nodes sh) q = c" by (auto simp: find_Some_iff)
  then obtain bn' where "sh_nodes sh q = Some bn'" "client_of bn' = c" using assms by (auto simp: zone_ok_def client_at_def)
  then have "q = p" using zone_ok_unique [OF assms] p by metis
  then show "ban_view sh c = Some bn" using q p by (simp add: ban_view_def)
qed

lemma ban_view_None:
  assumes "zone_ok sh"
  shows "ban_view sh c = None \<longleftrightarrow> (\<forall>p bn. sh_nodes sh p = Some bn \<longrightarrow> client_of bn \<noteq> c)"
  using ban_view_Some [OF assms] by (metis not_Some_eq)

lemma ban_view_cong:
  assumes "zone_ok sh" and "zone_ok sh'" and "sh_nodes sh' = sh_nodes sh"
  shows "ban_view sh' = ban_view sh"
proof
  show "ban_view sh' c = ban_view sh c" for c
    using ban_view_Some [OF assms(1), of c] ban_view_Some [OF assms(2), of c] assms(3)
    by (metis not_Some_eq)
qed

lemma ban_view_upd:
  assumes "zone_ok sh" and "zone_ok sh'" and "sh_nodes sh' = (sh_nodes sh)(p \<mapsto> bn)"
    and "\<forall>b. sh_nodes sh p = Some b \<longrightarrow> client_of b = client_of bn"
  shows "ban_view sh' = (ban_view sh)(client_of bn \<mapsto> bn)"
proof
  fix c
  show "ban_view sh' c = ((ban_view sh)(client_of bn \<mapsto> bn)) c"
  proof (cases "c = client_of bn")
    case True
    then show ?thesis using ban_view_Some [OF assms(2), of c bn] assms(3) by auto
  next
    case False
    then have "ban_view sh' c = Some b \<longleftrightarrow> ban_view sh c = Some b" for b
      using ban_view_Some [OF assms(1), of c b] ban_view_Some [OF assms(2), of c b] assms(3,4)
      by (auto split: if_splits)
    then show ?thesis using False by (metis fun_upd_other not_Some_eq)
  qed
qed

text \<open>Eviction seen on the table: some stale clients are forgotten.\<close>

definition forgets :: "time_t \<Rightarrow> time_t \<Rightarrow> (client \<rightharpoonup> ngx_http_shield_ban_node_t) \<Rightarrow> (client \<rightharpoonup> ngx_http_shield_ban_node_t) \<Rightarrow> bool" where
  "forgets now window v v' \<longleftrightarrow> (\<forall>c. v' c = v c \<or> v' c = None \<and> (\<exists>bn. v c = Some bn \<and> \<not> ban_live now window bn))"

lemma reclaimed_view:
  assumes "zone_ok sh" and "zone_ok sh'" and "reclaimed now window E sh sh'"
  shows "forgets now window (ban_view sh) (ban_view sh')"
  unfolding forgets_def
proof
  fix c
  have n: "sh_nodes sh' p = (if p \<in> E then None else sh_nodes sh p)" for p
    using assms(3) by (simp add: reclaimed_def restrict_map_def)
  show "ban_view sh' c = ban_view sh c \<or> ban_view sh' c = None \<and> (\<exists>bn. ban_view sh c = Some bn \<and> \<not> ban_live now window bn)"
  proof (cases "ban_view sh c")
    case None
    then have "ban_view sh' c = None"
      using n unfolding ban_view_None [OF assms(1)] ban_view_None [OF assms(2)] by (metis option.distinct(1))
    then show ?thesis using None by simp
  next
    case (Some bn)
    then obtain p where p: "sh_nodes sh p = Some bn" "client_of bn = c" using ban_view_Some [OF assms(1)] by blast
    show ?thesis
    proof (cases "p \<in> E")
      case True
      then have "\<not> ban_live now window bn" using assms(3) p by (auto simp: reclaimed_def)
      moreover have "ban_view sh' c = None"
        using True n zone_ok_unique [OF assms(1)] p unfolding ban_view_None [OF assms(2)] by (metis option.distinct(1))
      ultimately show ?thesis using Some by blast
    next
      case False
      then have "sh_nodes sh' p = Some bn" using p n by simp
      then show ?thesis using Some p ban_view_Some [OF assms(2)] by metis
    qed
  qed
qed

section \<open>Recording and checking\<close>

lemma ban_is_banned_correct:
  assumes "ban_inv sh"
  shows "\<exists>sh'. ngx_http_shield_ban_is_banned_locked sh h a now
      = Some (case ban_view sh (h, a) of None \<Rightarrow> False | Some bn \<Rightarrow> bn_banned_until bn > now, sh')
    \<and> ban_inv sh' \<and> ban_view sh' = ban_view sh"
proof -
  obtain res sh' where l: "ngx_http_shield_ban_lookup sh h a = Some (res, sh')" "ban_inv sh'"
      "sh' = sh\<lparr>sh_queue := sh_queue sh'\<rparr>"
      "\<forall>p. res = Some p \<longleftrightarrow> (\<exists>bn. sh_nodes sh p = Some bn \<and> client_of bn = (h, a))"
    using ban_lookup_correct [OF assms, of h a] by blast
  have n: "sh_nodes sh' = sh_nodes sh" by (subst l(3)) simp
  have z: "zone_ok sh" "zone_ok sh'" using assms l(2) by (auto simp: ban_inv_def)
  have v: "ban_view sh' = ban_view sh" by (rule ban_view_cong [OF z n])
  show ?thesis
  proof (cases res)
    case None
    then have "\<forall>p bn. sh_nodes sh p = Some bn \<longrightarrow> client_of bn \<noteq> (h, a)" using l(4) by auto
    then have "ban_view sh (h, a) = None" unfolding ban_view_None [OF z(1)] .
    then show ?thesis using None l(1,2) v by (simp add: ngx_http_shield_ban_is_banned_locked_def)
  next
    case (Some p)
    then obtain bn where bn: "sh_nodes sh p = Some bn" "client_of bn = (h, a)" using l(4) by auto
    then have "ban_view sh (h, a) = Some bn" using ban_view_Some [OF z(1)] by blast
    then show ?thesis using Some l(1,2) v bn(1) n by (simp add: ngx_http_shield_ban_is_banned_locked_def)
  qed
qed

lemma client_of_ban_hit [simp]: "client_of (snd (ban_hit now count window ban_time bn)) = client_of bn"
  by (simp add: ban_hit_def client_of_def Let_def roll_window_def retire_lapsed_def)

lemma tree_ok_same_client:
  assumes "tree_ok nodes ps" and "nodes p = Some bn" and "client_of bn' = client_of bn"
  shows "tree_ok (nodes(p \<mapsto> bn')) ps"
proof -
  have "client_at (nodes(p \<mapsto> bn')) = client_at nodes" using assms(2,3) by (auto simp: client_at_def)
  then show ?thesis using assms(1) by (auto simp: tree_ok_def)
qed

lemma ban_record_at_correct:
  fixes now window ban_time :: time_t and count :: nat
  assumes "ban_inv sh" and "sh_nodes sh p = Some bn"
  defines "hit \<equiv> ban_hit now count window ban_time bn"
  shows "\<exists>sh'. ban_record_at sh p now count window ban_time = Some (NGX_OK, sh') \<and> ban_inv sh'
    \<and> ban_view sh' = (ban_view sh)(client_of bn \<mapsto> snd hit)
    \<and> sh_bans sh' = (if fst hit then inc64 (sh_bans sh) else sh_bans sh)"
proof -
  obtain armed bn' where h: "hit = (armed, bn')" by fastforce
  have c: "client_of bn' = client_of bn" using client_of_ban_hit [of now count window ban_time bn] h unfolding hit_def by (simp del: client_of_ban_hit)
  let ?sh1 = "sh\<lparr>sh_nodes := (sh_nodes sh)(p \<mapsto> bn')\<rparr>"
  let ?sh' = "if armed then ?sh1\<lparr>sh_bans := inc64 (sh_bans ?sh1)\<rparr> else ?sh1"
  have z: "zone_ok sh" using assms(1) by (simp add: ban_inv_def)
  have z': "zone_ok ?sh'"
    using z tree_ok_same_client [of "sh_nodes sh" _ p bn bn', OF _ assms(2) c] assms(2) by (auto simp: zone_ok_def dom_def)
  have "ban_inv ?sh'" using z' assms(1) by (auto simp: ban_inv_def in_use_def split: option.splits)
  moreover have "ban_view ?sh' = (ban_view sh)(client_of bn' \<mapsto> bn')"
    by (rule ban_view_upd [OF z z']) (use assms(2) c in auto)
  ultimately show ?thesis
    using h assms(2) c by (intro exI [of _ ?sh']) (auto simp: ban_record_at_def hit_def Let_def)
qed

lemma ban_link_correct:
  assumes "ops_ok ops" and "ban_inv sh" and "p \<notin> set (sh_queue sh)" and "ban_view sh (client_of bn) = None"
  shows "\<exists>sh'. ban_link ops sh p bn = Some sh' \<and> ban_inv sh' \<and> sh_nodes sh' p = Some bn
    \<and> ban_view sh' = (ban_view sh)(client_of bn \<mapsto> bn) \<and> sh_bans sh' = sh_bans sh"
proof -
  have z: "zone_ok sh" using assms(2) by (simp add: ban_inv_def)
  have p: "p \<notin> set_tree (sh_rbtree sh)" "sh_nodes sh p = None" using z assms(3) by (auto simp: zone_ok_def)
  have "\<forall>q \<in> set_tree (sh_rbtree sh). client_at (sh_nodes sh) q \<noteq> client_of bn"
    using assms(4) z unfolding ban_view_None [OF z] by (auto simp: zone_ok_def client_at_def)
  then obtain t where t: "ngx_http_shield_ban_rbtree_insert (sh_nodes sh) p bn (sh_rbtree sh) = Some t"
      "tree_ok ((sh_nodes sh)(p \<mapsto> bn)) (inorder t)" "set_tree t = insert p (set_tree (sh_rbtree sh))"
    using rbtree_insert_correct [of "sh_nodes sh" "sh_rbtree sh" p bn] z p(1) by (auto simp only: zone_ok_def)
  let ?sh' = "sh\<lparr>sh_nodes := (sh_nodes sh)(p \<mapsto> bn), sh_rbtree := op_rebalance ops t, sh_queue := p # sh_queue sh\<rparr>"
  have z': "zone_ok ?sh'"
    using z t(2,3) assms(1,3) set_tree_rebalance [OF assms(1), of t] by (auto simp: zone_ok_def ops_ok_def)
  then have "ban_inv ?sh'" using assms(2) by (auto simp: ban_inv_def in_use_def split: option.splits)
  moreover have "ban_view ?sh' = (ban_view sh)(client_of bn \<mapsto> bn)"
    by (rule ban_view_upd [OF z z']) (use p in auto)
  ultimately show ?thesis using t(1) by (simp add: ban_link_def)
qed

lemma ban_alloc_correct:
  assumes "ops_ok ops" and "ban_inv sh"
  shows "\<exists>res sh'. ngx_shield_slab_alloc ops sh = (res, sh') \<and> ban_inv sh' \<and> ban_view sh' = ban_view sh
    \<and> sh_bans sh' = sh_bans sh \<and> (\<forall>p. res = Some p \<longrightarrow> p \<notin> set (sh_queue sh'))"
proof -
  obtain res sh' where r: "ngx_shield_slab_alloc ops sh = (res, sh')" by fastforce
  have sh': "\<exists>s. sh' = sh\<lparr>sh_fault_seen := s\<rparr>"
    using r by (auto simp: ngx_shield_slab_alloc_def ngx_http_shield_ban_slab_alloc_def Let_def split: if_splits)
       (metis ngx_http_shield_ban_shctx_t.surjective ngx_http_shield_ban_shctx_t.update_convs(8))+
  have res: "res = None \<or> res = op_slab_alloc ops (sh_queue sh)"
    using r by (auto simp: ngx_shield_slab_alloc_def ngx_http_shield_ban_slab_alloc_def Let_def split: if_splits)
  obtain s where s: "sh' = sh\<lparr>sh_fault_seen := s\<rparr>" using sh' by blast
  have "ban_inv sh'" using assms(2) unfolding s by (auto simp: ban_inv_def zone_ok_def in_use_def split: option.splits)
  moreover have "ban_view sh' = ban_view sh" unfolding s by (rule ext) (simp add: ban_view_def split: option.split)
  ultimately show ?thesis using r s res assms(1) by (auto simp: ops_ok_def)
qed

text \<open>
  A recorded hit of a client that is tracked, and of one that is not: what it returns and what it
  does to the table.
\<close>

lemma ban_record_known:
  fixes now window ban_time :: time_t and count :: nat
  assumes "ban_inv sh" and "ban_view sh (h, a) = Some bn"
  defines "hit \<equiv> ban_hit now count window ban_time bn"
  shows "\<exists>sh'. ngx_http_shield_ban_record_locked ops sh h a now count window ban_time = Some (NGX_OK, sh') \<and> ban_inv sh'
    \<and> ban_view sh' = (ban_view sh)((h, a) \<mapsto> snd hit) \<and> sh_bans sh' = (if fst hit then inc64 (sh_bans sh) else sh_bans sh)"
proof -
  have z: "zone_ok sh" using assms(1) by (simp add: ban_inv_def)
  obtain p where p: "sh_nodes sh p = Some bn" "client_of bn = (h, a)" using assms(2) ban_view_Some [OF z] by blast
  obtain sh1 where l: "ngx_http_shield_ban_lookup sh h a = Some (Some p, sh1)" "ban_inv sh1" "sh1 = sh\<lparr>sh_queue := sh_queue sh1\<rparr>"
    using ban_lookup_correct [OF assms(1), of h a] p by metis
  have n: "sh_nodes sh1 = sh_nodes sh" "sh_bans sh1 = sh_bans sh" by (subst l(3), simp)+
  have v: "ban_view sh1 = ban_view sh" using ban_view_cong [OF z _ n(1)] l(2) by (simp add: ban_inv_def)
  then show ?thesis
    using ban_record_at_correct [OF l(2), of p bn now count window ban_time] l(1) n p
    by (simp add: ngx_http_shield_ban_record_locked_def hit_def cong: if_cong split del: if_split)
qed

lemma ban_record_new:
  fixes now window ban_time :: time_t and count :: nat
  assumes "ops_ok ops" and "ban_inv sh" and "ban_view sh (h, a) = None"
  defines "hit \<equiv> ban_hit now count window ban_time (ban_new_node h a now)"
  shows "\<exists>rc sh' v. ngx_http_shield_ban_record_locked ops sh h a now count window ban_time = Some (rc, sh') \<and> ban_inv sh'
    \<and> forgets now window (ban_view sh) v
    \<and> (rc = NGX_OK \<and> ban_view sh' = v((h, a) \<mapsto> snd hit) \<and> sh_bans sh' = (if fst hit then inc64 (sh_bans sh) else sh_bans sh)
       \<or> rc = NGX_ERROR \<and> ban_view sh' = v \<and> sh_bans sh' = sh_bans sh)"
proof -
  have z: "zone_ok sh" using assms(2) by (simp add: ban_inv_def)
  have no: "\<forall>p bn. sh_nodes sh p = Some bn \<longrightarrow> client_of bn \<noteq> (h, a)" using assms(3) ban_view_None [OF z] by blast
  then have l: "ngx_http_shield_ban_lookup sh h a = Some (None, sh)"
  proof -
    obtain res sh' where "ngx_http_shield_ban_lookup sh h a = Some (res, sh')" "\<forall>p. res \<noteq> Some p"
      using ban_lookup_correct [OF assms(2), of h a] no by metis
    then show ?thesis by (auto simp: ngx_http_shield_ban_lookup_def split: option.splits)
  qed
  obtain sh2 E where e: "ngx_http_shield_ban_expire ops sh now window = Some sh2" "ban_inv sh2" "reclaimed now window E sh sh2"
    using ban_expire_correct [OF assms(1,2), of now window] by blast
  have f: "forgets now window (ban_view sh) (ban_view sh2)"
    using reclaimed_view [OF z _ e(3)] e(2) by (simp add: ban_inv_def)
  have b: "sh_bans sh2 = sh_bans sh" using e(3) by (simp add: reclaimed_def)
  obtain res sh3 where al: "ngx_shield_slab_alloc ops sh2 = (res, sh3)" "ban_inv sh3" "ban_view sh3 = ban_view sh2"
      "sh_bans sh3 = sh_bans sh2" "\<forall>p. res = Some p \<longrightarrow> p \<notin> set (sh_queue sh3)"
    using ban_alloc_correct [OF assms(1) e(2)] by blast
  show ?thesis
  proof (cases res)
    case None
    then show ?thesis using l e(1) al f b
      by (intro exI [of _ NGX_ERROR] exI [of _ sh3] exI [of _ "ban_view sh2"]) (simp add: ngx_http_shield_ban_record_locked_def)
  next
    case (Some p)
    let ?bn = "ban_new_node h a now"
    have c: "client_of ?bn = (h, a)" by (simp add: ban_new_node_def client_of_def)
    have "ban_view sh3 (client_of ?bn) = None" using f assms(3) al(3) c unfolding forgets_def by (metis option.distinct(1))
    then obtain sh4 where k: "ban_link ops sh3 p ?bn = Some sh4" "ban_inv sh4" "sh_nodes sh4 p = Some ?bn"
        "ban_view sh4 = (ban_view sh3)(client_of ?bn \<mapsto> ?bn)" "sh_bans sh4 = sh_bans sh3"
      using ban_link_correct [OF assms(1) al(2), of p ?bn] al(5) Some by blast
    obtain sh5 where r: "ban_record_at sh4 p now count window ban_time = Some (NGX_OK, sh5)" "ban_inv sh5"
        "ban_view sh5 = (ban_view sh4)(client_of ?bn \<mapsto> snd hit)"
        "sh_bans sh5 = (if fst hit then inc64 (sh_bans sh4) else sh_bans sh4)"
      using ban_record_at_correct [OF k(2,3), of now count window ban_time] by (auto simp: hit_def)
    show ?thesis using l e(1) al Some k r f b c
      by (intro exI [of _ NGX_OK] exI [of _ sh5] exI [of _ "ban_view sh2"]) (simp add: ngx_http_shield_ban_record_locked_def)
  qed
qed

end
