(* ===== verification/Ban_Service.thy ===== *)
theory Ban_Service
  imports Ban_Correct
begin

text \<open>
  The ban engine as its callers see it: a table of clients stepped by checks and recorded hits.  The
  interface is the locale \<open>ban_service\<close>; what follows from it for sequences of operations is proved
  there once and holds for the engine through its interpretation.
\<close>

section \<open>Operations as data\<close>

datatype ban_op =
    Check client time_t
  | Hit ngx_ops client time_t nat time_t time_t

fun ban_step :: "ngx_http_shield_ban_shctx_t \<Rightarrow> ban_op \<Rightarrow> ngx_http_shield_ban_shctx_t option" where
  "ban_step sh (Check (h, a) now) = map_option snd (ngx_http_shield_ban_is_banned_locked sh h a now)"
| "ban_step sh (Hit ops (h, a) now count window ban_time) =
     map_option snd (ngx_http_shield_ban_record_locked ops sh h a now count window ban_time)"

fun run_steps :: "('s \<Rightarrow> 'a \<Rightarrow> 's option) \<Rightarrow> 's \<Rightarrow> 'a list \<Rightarrow> 's option" where
  "run_steps step s [] = Some s"
| "run_steps step s (x # xs) = (case step s x of None \<Rightarrow> None | Some s' \<Rightarrow> run_steps step s' xs)"

fun op_ops_ok :: "ban_op \<Rightarrow> bool" where
  "op_ops_ok (Check c now) = True"
| "op_ops_ok (Hit ops c now count window ban_time) = ops_ok ops"

fun hits_client :: "client \<Rightarrow> ban_op \<Rightarrow> bool" where
  "hits_client c (Check d now) = False"
| "hits_client c (Hit ops d now count window ban_time) = (d = c)"

text \<open>An operation during which a node is live, so that it may not be evicted.\<close>

fun live_during :: "ngx_http_shield_ban_node_t \<Rightarrow> ban_op \<Rightarrow> bool" where
  "live_during bn (Check d now) = True"
| "live_during bn (Hit ops d now count window ban_time) = ban_live now window bn"

text \<open>A check, or a hit under a given policy at a time inside a given window.\<close>

fun in_policy :: "nat \<Rightarrow> time_t \<Rightarrow> time_t \<Rightarrow> time_t \<Rightarrow> ban_op \<Rightarrow> bool" where
  "in_policy count window ban_time t0 (Check d now) = True"
| "in_policy count window ban_time t0 (Hit ops d now c w b) =
     (c = count \<and> w = window \<and> b = ban_time \<and> t0 \<le> now \<and> now < t0 + window)"

definition new_for :: "client \<Rightarrow> time_t \<Rightarrow> ngx_http_shield_ban_node_t" where
  "new_for c now = ban_new_node (fst c) (snd c) now"

section \<open>Interface\<close>

locale ban_service =
  fixes step :: "'s \<Rightarrow> ban_op \<Rightarrow> 's option" and inv :: "'s \<Rightarrow> bool"
    and view :: "'s \<Rightarrow> client \<rightharpoonup> ngx_http_shield_ban_node_t"
  assumes check: "inv s \<Longrightarrow> \<exists>s'. step s (Check c now) = Some s' \<and> inv s' \<and> view s' = view s"
    and hit_known: "inv s \<Longrightarrow> view s c = Some bn \<Longrightarrow>
      \<exists>s'. step s (Hit ops c now count window ban_time) = Some s' \<and> inv s'
         \<and> view s' = (view s)(c \<mapsto> snd (ban_hit now count window ban_time bn))"
    and hit_new: "ops_ok ops \<Longrightarrow> inv s \<Longrightarrow> view s c = None \<Longrightarrow>
      \<exists>s' v. step s (Hit ops c now count window ban_time) = Some s' \<and> inv s' \<and> forgets now window (view s) v
         \<and> (view s' = v(c \<mapsto> snd (ban_hit now count window ban_time (new_for c now))) \<or> view s' = v)"
begin

lemma step_total:
  assumes "op_ops_ok x" and "inv s"
  shows "\<exists>s'. step s x = Some s' \<and> inv s'"
proof (cases x)
  case (Hit ops c now count window ban_time)
  then show ?thesis using assms hit_known [of s c] hit_new [of ops s c] by (cases "view s c") (simp, metis)+
qed (use assms check in \<open>metis\<close>)

lemma run_total: "list_all op_ops_ok xs \<Longrightarrow> inv s \<Longrightarrow> \<exists>s'. run_steps step s xs = Some s' \<and> inv s'"
proof (induction xs arbitrary: s)
  case (Cons x xs)
  obtain s1 where "step s x = Some s1" "inv s1" using step_total [of x s] Cons.prems by auto
  then show ?case using Cons.IH [of s1] Cons.prems by simp
qed simp

text \<open>A step that is not a hit of the client keeps what is known of it while the node is live.\<close>

lemma step_keeps:
  assumes "inv s" and "view s c = Some bn" and "step s x = Some s'"
    and "op_ops_ok x" and "\<not> hits_client c x" and "live_during bn x"
  shows "view s' c = Some bn"
proof (cases x)
  case (Check d now)
  then show ?thesis using check [OF assms(1), of d now] assms(2,3) by auto
next
  case (Hit ops d now count window ban_time)
  have d: "d \<noteq> c" and live: "ban_live now window bn" using Hit assms(5,6) by auto
  show ?thesis
  proof (cases "view s d")
    case (Some b)
    then show ?thesis using hit_known [OF assms(1) Some, of ops now count window ban_time] assms(2,3) d Hit by auto
  next
    case None
    obtain v where v: "forgets now window (view s) v" "view s' c = v c"
      using hit_new [OF _ assms(1) None, of ops now count window ban_time] assms(3,4) d Hit by fastforce
    then have "v c = view s c" using live assms(2) unfolding forgets_def by (metis option.inject)
    then show ?thesis using v(2) assms(2) by simp
  qed
qed

lemma run_keeps:
  assumes "inv s" and "view s c = Some bn" and "list_all op_ops_ok xs"
    and "list_all (\<lambda>x. \<not> hits_client c x \<and> live_during bn x) xs"
  shows "\<exists>s'. run_steps step s xs = Some s' \<and> inv s' \<and> view s' c = Some bn"
  using assms
proof (induction xs arbitrary: s)
  case (Cons x xs)
  obtain s1 where s1: "step s x = Some s1" "inv s1" using step_total [of x s] Cons.prems by auto
  have "view s1 c = Some bn" using step_keeps [OF Cons.prems(1,2) s1(1)] Cons.prems(3,4) by simp
  then show ?case using Cons.IH [of s1] Cons.prems s1 by simp
qed simp

text \<open>
  Counting: under one policy, inside the window, every hit of the client is counted and none of the
  other operations loses the count.
\<close>

lemma run_counts:
  assumes "inv s" and "view s c = Some bn" and "bn_banned_until bn = 0" and "bn_window_start bn = t0"
    and "t0 + window \<le> time_t_max" and "list_all op_ops_ok xs" and "list_all (in_policy count window ban_time t0) xs"
    and "bn_hits bn + length (filter (hits_client c) xs) < count" and "count < 2 ^ 64"
  shows "\<exists>s'. run_steps step s xs = Some s' \<and> inv s'
    \<and> view s' c = Some (bn\<lparr>bn_hits := bn_hits bn + length (filter (hits_client c) xs)\<rparr>)"
  using assms
proof (induction xs arbitrary: s bn)
  case (Cons x xs)
  obtain s1 where s1: "step s x = Some s1" "inv s1" using step_total [of x s] Cons.prems by auto
  show ?case
  proof (cases "hits_client c x")
    case True
    then obtain ops now where x: "x = Hit ops c now count window ban_time" "t0 \<le> now" "now < t0 + window"
      using Cons.prems(7) by (cases x) auto
    let ?bn = "bn\<lparr>bn_hits := bn_hits bn + 1\<rparr>"
    have lt: "bn_hits bn + 1 < count" "bn_hits bn + 1 < 2 ^ 64" using Cons.prems(8,9) True by auto
    have "inc64 (bn_hits bn) = bn_hits bn + 1" unfolding inc64_def by (rule mod_less [OF lt(2)])
    then have "ban_hit now count window ban_time bn = (False, ?bn)"
      using Cons.prems(3,4) x(2,3) lt(1) by (simp add: ban_hit_def retire_lapsed_def roll_window_def Let_def)
    then have "view s1 c = Some ?bn"
      using hit_known [OF Cons.prems(1,2), of ops now count window ban_time] s1(1) x(1) by simp
    then show ?thesis using Cons.IH [OF s1(2), of ?bn] Cons.prems True s1(1) by (simp add: add.assoc)
  next
    case False
    have "live_during bn x"
      using Cons.prems(3,4,5,7) by (cases x) (auto simp: ban_live_def ngx_http_shield_time_add_clamp_def)
    then have "view s1 c = Some bn" using step_keeps [OF Cons.prems(1,2) s1(1)] Cons.prems(6) False by simp
    then show ?thesis using Cons.IH [OF s1(2), of bn] Cons.prems False s1(1) by simp
  qed
qed simp

end

section \<open>The engine provides it\<close>

interpretation engine: ban_service ban_step ban_inv ban_view
proof
  fix s :: ngx_http_shield_ban_shctx_t and c :: client and now
  assume "ban_inv s"
  then show "\<exists>s'. ban_step s (Check c now) = Some s' \<and> ban_inv s' \<and> ban_view s' = ban_view s"
    using ban_is_banned_correct [of s "fst c" "snd c" now] by (cases c) auto
next
  fix s :: ngx_http_shield_ban_shctx_t and c :: client and bn ops now count window ban_time
  assume "ban_inv s" "ban_view s c = Some bn"
  then show "\<exists>s'. ban_step s (Hit ops c now count window ban_time) = Some s' \<and> ban_inv s'
      \<and> ban_view s' = (ban_view s)(c \<mapsto> snd (ban_hit now count window ban_time bn))"
    using ban_record_known [where sh = s and h = "fst c" and a = "snd c" and now = now and count = count and ops = ops
        and window = window and ban_time = ban_time] by (cases c) auto
next
  fix ops and s :: ngx_http_shield_ban_shctx_t and c :: client and now count window ban_time
  assume "ops_ok ops" "ban_inv s" "ban_view s c = None"
  then show "\<exists>s' v. ban_step s (Hit ops c now count window ban_time) = Some s' \<and> ban_inv s'
      \<and> forgets now window (ban_view s) v
      \<and> (ban_view s' = v(c \<mapsto> snd (ban_hit now count window ban_time (new_for c now))) \<or> ban_view s' = v)"
    using ban_record_new [where sh = s and h = "fst c" and a = "snd c" and now = now and count = count and ops = ops
        and window = window and ban_time = ban_time] by (cases c) (fastforce simp: new_for_def)
qed

end
