(* ===== verification/Ban_Reclaim.thy ===== *)
theory Ban_Reclaim
  imports Ban_Service
begin

text \<open>
  Progress of the eviction.  A zone of at most \<open>BAN_EXPIRE_SCAN\<close> nodes is examined completely by one
  call, wherever the cursor is parked.  In a larger zone a call examines part of the queue, and the
  last section shows requests under which one stale node is not examined for as long as bans last.
\<close>

section \<open>One call examines a small zone\<close>

definition all_live :: "time_t \<Rightarrow> time_t \<Rightarrow> ngx_http_shield_ban_shctx_t \<Rightarrow> ptr list \<Rightarrow> bool" where
  "all_live now window sh ps \<longleftrightarrow> (\<forall>p \<in> set ps. \<forall>bn. sh_nodes sh p = Some bn \<longrightarrow> ban_live now window bn)"

lemma all_live_simps [simp]:
  "all_live now window sh []"
  "all_live now window sh (p # ps) \<longleftrightarrow> (\<forall>bn. sh_nodes sh p = Some bn \<longrightarrow> ban_live now window bn) \<and> all_live now window sh ps"
  "all_live now window sh (ps @ qs) \<longleftrightarrow> all_live now window sh ps \<and> all_live now window sh qs"
  by (auto simp: all_live_def)

lemma all_live_evict: "all_live now window sh ps \<Longrightarrow> all_live now window (ban_evict ops sh p) ps"
  by (auto simp: all_live_def ban_evict_def)

lemma queue_prev_first: "p \<notin> set (tl xs) \<Longrightarrow> queue_prev xs p = None"
  by (induction xs p rule: queue_prev.induct) auto

lemma queue_prev_split: "distinct (us @ p # vs) \<Longrightarrow> queue_prev (us @ p # vs) p = queue_last us"
proof (induction us)
  case Nil
  then show ?case by (simp add: queue_last_def queue_prev_first)
next
  case (Cons u us)
  then show ?case by (cases us) (auto simp: queue_last_def)
qed

text \<open>What a finished call guarantees: no stale node is left, or the eviction budget was used up.\<close>

definition reclaim_done :: "time_t \<Rightarrow> time_t \<Rightarrow> nat \<Rightarrow> ngx_http_shield_ban_shctx_t \<Rightarrow> ngx_http_shield_ban_shctx_t \<Rightarrow> bool" where
  "reclaim_done now window evicted sh sh' \<longleftrightarrow> all_live now window sh' (sh_queue sh')
     \<or> length (sh_queue sh') + BAN_EXPIRE_EVICT = length (sh_queue sh) + evicted"

lemma reclaim_done_live:
  assumes "ops_ok ops" and "zone_ok sh" and "in_use sh q" and "evicted \<le> BAN_EXPIRE_EVICT"
    and "all_live now window sh (sh_queue sh)"
    and "ban_expire_loop ops now window sh q scanned evicted wrapped = Some sh'"
  shows "reclaim_done now window evicted sh sh'"
proof -
  obtain E where E: "reclaimed now window E sh sh'"
    using ban_expire_loop_correct [OF assms(1-4), of now window scanned wrapped, unfolded loop_reclaims_def] assms(6) by auto
  have "p \<notin> E" for p
  proof
    assume "p \<in> E"
    then obtain bn where bn: "sh_nodes sh p = Some bn" "\<not> ban_live now window bn" using E unfolding reclaimed_def by blast
    then have "p \<in> set (sh_queue sh)" using assms(2) by (auto simp: zone_ok_def)
    then show False using bn assms(5) unfolding all_live_def by blast
  qed
  then have "E = {}" by blast
  then show ?thesis using E assms(5) by (auto simp: reclaim_done_def reclaimed_def all_live_def)
qed

lemma reclaim_done_stop:
  assumes "ban_expire_loop ops now window sh q scanned evicted wrapped = Some sh'" and "evicted = BAN_EXPIRE_EVICT"
  shows "reclaim_done now window evicted sh sh'"
  using assms by (subst (asm) ban_expire_loop.simps) (auto simp: reclaim_done_def)

lemma reclaim_done_evict:
  assumes "zone_ok sh" and "p \<in> set (sh_queue sh)" and "reclaim_done now window (Suc evicted) (ban_evict ops sh p) sh'"
  shows "reclaim_done now window evicted sh sh'"
proof -
  have "length (sh_queue sh) = Suc (length (sh_queue (ban_evict ops sh p)))"
    using assms(2) length_pos_if_in_set [OF assms(2)] by (simp add: ban_evict_def length_remove1)
  then show ?thesis using assms(3) by (simp add: reclaim_done_def)
qed

text \<open>One step of the loop at a node, in terms of the queue around it.\<close>

lemma expire_step:
  assumes "ops_ok ops" and "zone_ok sh" and "sh_queue sh = us @ p # vs"
    and "scanned < BAN_EXPIRE_SCAN" and "evicted < BAN_EXPIRE_EVICT"
    and "ban_expire_loop ops now window sh (Some p) scanned evicted wrapped = Some sh'"
  obtains bn where "sh_nodes sh p = Some bn" and "ban_live now window bn"
      and "ban_expire_loop ops now window sh (queue_last us) (Suc scanned) evicted wrapped = Some sh'"
  | "zone_ok (ban_evict ops sh p)" and "sh_queue (ban_evict ops sh p) = us @ vs"
      and "ban_expire_loop ops now window (ban_evict ops sh p) (queue_last us) (Suc scanned) (Suc evicted) wrapped = Some sh'"
proof -
  have d: "distinct (us @ p # vs)" and p: "p \<in> set (sh_queue sh)" using assms(2,3) by (auto simp: zone_ok_def)
  then obtain bn where bn: "sh_nodes sh p = Some bn" using assms(2) by (auto simp: zone_ok_def)
  note pr = queue_prev_split [OF d, folded assms(3)]
  have r: "sh_queue (ban_evict ops sh p) = us @ vs" using assms(3) d by (simp add: ban_evict_def remove1_append)
  show thesis
    using assms(4-6) that ban_evict_ok [OF assms(1,2) bn] bn r
    by (subst (asm) ban_expire_loop.simps) (auto simp: pr Let_def split: if_splits)
qed

lemma second_lap:
  assumes "ops_ok ops" and "zone_ok sh" and "sh_queue sh = us @ vs @ ws"
    and "all_live now window sh us" and "all_live now window sh ws"
    and "scanned + length vs \<le> BAN_EXPIRE_SCAN" and "evicted \<le> BAN_EXPIRE_EVICT"
    and "ban_expire_loop ops now window sh (queue_last (us @ vs)) scanned evicted True = Some sh'"
  shows "reclaim_done now window evicted sh sh'"
  using assms
proof (induction vs arbitrary: sh ws scanned evicted rule: rev_induct)
  case Nil
  have "in_use sh (queue_last us)"
    using Nil.prems(2,3) queue_last_in [of us] by (auto simp: in_use_def zone_ok_def split: option.split)
  moreover have "all_live now window sh (sh_queue sh)" using Nil.prems(3-5) by simp
  ultimately show ?case using reclaim_done_live [OF Nil.prems(1,2)] Nil.prems(7,8) by simp
next
  case (snoc p vs)
  show ?case
  proof (cases "evicted = BAN_EXPIRE_EVICT")
    case True
    then show ?thesis using reclaim_done_stop snoc.prems(8) by blast
  next
    case False
    have q: "sh_queue sh = (us @ vs) @ p # ws" and l: "queue_last (us @ vs @ [p]) = Some p"
      using snoc.prems(3) by (auto simp: queue_last_def)
    have lt: "scanned < BAN_EXPIRE_SCAN" "evicted < BAN_EXPIRE_EVICT" using snoc.prems(6,7) False by auto
    show ?thesis
    proof (rule expire_step [OF snoc.prems(1,2) q lt snoc.prems(8) [unfolded l]])
      fix bn assume "sh_nodes sh p = Some bn" "ban_live now window bn"
        "ban_expire_loop ops now window sh (queue_last (us @ vs)) (Suc scanned) evicted True = Some sh'"
      then show ?thesis using snoc.IH [of sh "p # ws" "Suc scanned" evicted] snoc.prems by simp
    next
      assume ev: "zone_ok (ban_evict ops sh p)" "sh_queue (ban_evict ops sh p) = (us @ vs) @ ws"
        "ban_expire_loop ops now window (ban_evict ops sh p) (queue_last (us @ vs)) (Suc scanned) (Suc evicted) True = Some sh'"
      then have "reclaim_done now window (Suc evicted) (ban_evict ops sh p) sh'"
        using snoc.IH [of "ban_evict ops sh p" ws "Suc scanned" "Suc evicted"] snoc.prems lt all_live_evict by simp
      then show ?thesis using reclaim_done_evict [OF snoc.prems(2), of p] unfolding q by simp
    qed
  qed
qed

text \<open>The first lap is over: the cursor wraps to the tail of the queue.\<close>

lemma first_lap_end:
  assumes "ops_ok ops" and "zone_ok sh" and "sh_queue sh = ls @ ws" and "all_live now window sh ls"
    and "scanned + length ws \<le> BAN_EXPIRE_SCAN" and "evicted \<le> BAN_EXPIRE_EVICT"
    and "ban_expire_loop ops now window sh None scanned evicted False = Some sh'"
  shows "reclaim_done now window evicted sh sh'"
proof (cases "scanned < BAN_EXPIRE_SCAN \<and> evicted < BAN_EXPIRE_EVICT")
  case True
  then have "ban_expire_loop ops now window sh (queue_last (ls @ ws)) scanned evicted True = Some sh'"
    using assms(3,7) by (subst (asm) ban_expire_loop.simps) simp
  then show ?thesis using second_lap [OF assms(1,2), of ls ws "[]" now window scanned evicted sh'] assms by simp
next
  case stop: False
  show ?thesis
  proof (cases "evicted = BAN_EXPIRE_EVICT")
    case True
    then show ?thesis using reclaim_done_stop assms(7) by blast
  next
    case False
    then have "ws = []" using stop assms(5,6) by (cases ws) auto
    then show ?thesis using reclaim_done_live [OF assms(1,2) _ assms(6) _ assms(7)] assms(3,4) by (simp add: in_use_def)
  qed
qed

lemma first_lap:
  assumes "ops_ok ops" and "zone_ok sh" and "sh_queue sh = us @ ls @ ws" and "all_live now window sh ls"
    and "scanned + length us + length ws \<le> BAN_EXPIRE_SCAN" and "evicted \<le> BAN_EXPIRE_EVICT"
    and "ban_expire_loop ops now window sh (queue_last us) scanned evicted False = Some sh'"
  shows "reclaim_done now window evicted sh sh'"
  using assms
proof (induction us arbitrary: sh ls scanned evicted rule: rev_induct)
  case Nil
  then show ?case using first_lap_end [of ops sh ls ws now window scanned evicted sh'] by (simp add: queue_last_def)
next
  case (snoc p us)
  show ?case
  proof (cases "evicted = BAN_EXPIRE_EVICT")
    case True
    then show ?thesis using reclaim_done_stop snoc.prems(7) by blast
  next
    case False
    have q: "sh_queue sh = us @ p # (ls @ ws)" and l: "queue_last (us @ [p]) = Some p"
      using snoc.prems(3) by (auto simp: queue_last_def)
    have lt: "scanned < BAN_EXPIRE_SCAN" "evicted < BAN_EXPIRE_EVICT" using snoc.prems(5,6) False by auto
    show ?thesis
    proof (rule expire_step [OF snoc.prems(1,2) q lt snoc.prems(7) [unfolded l]])
      fix bn assume "sh_nodes sh p = Some bn" "ban_live now window bn"
        "ban_expire_loop ops now window sh (queue_last us) (Suc scanned) evicted False = Some sh'"
      then show ?thesis using snoc.IH [of sh "p # ls" "Suc scanned" evicted] snoc.prems by simp
    next
      assume ev: "zone_ok (ban_evict ops sh p)" "sh_queue (ban_evict ops sh p) = us @ (ls @ ws)"
        "ban_expire_loop ops now window (ban_evict ops sh p) (queue_last us) (Suc scanned) (Suc evicted) False = Some sh'"
      then have "reclaim_done now window (Suc evicted) (ban_evict ops sh p) sh'"
        using snoc.IH [of "ban_evict ops sh p" ls "Suc scanned" "Suc evicted"] snoc.prems lt all_live_evict by simp
      then show ?thesis using reclaim_done_evict [OF snoc.prems(2), of p] unfolding q by simp
    qed
  qed
qed

lemma expire_small_zone:
  assumes "ops_ok ops" and "ban_inv sh" and "length (sh_queue sh) \<le> BAN_EXPIRE_SCAN"
  shows "\<exists>sh'. ngx_http_shield_ban_expire ops sh now window = Some sh' \<and> reclaim_done now window 0 sh sh'"
proof -
  obtain sh' where e: "ngx_http_shield_ban_expire ops sh now window = Some sh'"
    using ban_expire_correct [OF assms(1,2)] by blast
  have z: "zone_ok sh" using assms(2) by (simp add: ban_inv_def)
  show ?thesis
  proof (cases "sh_cursor sh")
    case None
    then show ?thesis
      using e second_lap [OF assms(1) z, of "[]" "sh_queue sh" "[]" now window 0 0 sh'] assms(3)
      by (simp add: ngx_http_shield_ban_expire_def)
  next
    case (Some p)
    then have "p \<in> set (sh_queue sh)" using assms(2) by (auto simp: ban_inv_def zone_ok_def in_use_def)
    then obtain us ws where q: "sh_queue sh = us @ p # ws" by (meson split_list)
    then show ?thesis
      using e Some first_lap [OF assms(1) z, of "us @ [p]" "[]" ws now window 0 0 sh'] assms(3)
      by (simp add: ngx_http_shield_ban_expire_def queue_last_def)
  qed
qed

section \<open>Concrete nginx operations\<close>

text \<open>An instance of the nginx operations: a tree without balance, and a slab with a given answer.\<close>

fun spine :: "ptr list \<Rightarrow> ptr tree" where
  "spine [] = \<langle>\<rangle>"
| "spine (p # ps) = \<langle>\<langle>\<rangle>, p, spine ps\<rangle>"

lemma inorder_spine [simp]: "inorder (spine ps) = ps"
  by (induction ps) auto

lemma set_spine [simp]: "set_tree (spine ps) = set ps"
  by (induction ps) auto

definition spine_ops :: "(ptr list \<Rightarrow> ptr option) \<Rightarrow> ngx_ops" where
  "spine_ops alloc = \<lparr>op_rebalance = (\<lambda>t. t), op_rb_delete = (\<lambda>p t. spine (remove1 p (inorder t))),
     op_slab_alloc = alloc, op_harness = False\<rparr>"

lemma spine_ops_ok: "(\<And>used p. alloc used = Some p \<Longrightarrow> p \<notin> set used) \<Longrightarrow> ops_ok (spine_ops alloc)"
  by (simp add: ops_ok_def spine_ops_def)

definition full_slab :: "ptr list \<Rightarrow> ptr option" where
  "full_slab used = None"

definition fresh_slab :: "ptr list \<Rightarrow> ptr option" where
  "fresh_slab used = Some (Suc (fold max used 0))"

lemma fresh_slab_fresh: "fresh_slab used = Some p \<Longrightarrow> p \<notin> set used"
proof
  assume p: "fresh_slab used = Some p" "p \<in> set used"
  then have "p \<le> Max (set (0 # used))" by (intro Max_ge) auto
  then show False using p(1) unfolding fresh_slab_def Max.set_eq_fold by simp
qed

definition room_slab :: "nat \<Rightarrow> ptr list \<Rightarrow> ptr option" where
  "room_slab room used = (if length used < room then fresh_slab used else None)"

lemma full_ops_ok: "ops_ok (spine_ops full_slab)"
  by (rule spine_ops_ok) (simp add: full_slab_def)

lemma fresh_ops_ok: "ops_ok (spine_ops fresh_slab)"
  by (rule spine_ops_ok) (rule fresh_slab_fresh)

lemma room_ops_ok: "ops_ok (spine_ops (room_slab room))"
  by (rule spine_ops_ok) (auto simp: room_slab_def fresh_slab_fresh split: if_splits)

text \<open>Memory before its initialization, with whatever it held.\<close>

definition raw_zone :: ngx_http_shield_ban_shctx_t where
  "raw_zone = \<lparr>sh_rbtree = \<langle>\<langle>\<rangle>, 9, \<langle>\<rangle>\<rangle>, sh_queue = [5, 9], sh_cat_hits = [7, 7, 7], sh_blocked = 6, sh_bans = 8, sh_cursor = Some 5,
     sh_fault_nth = 4, sh_fault_seen = 3, sh_nodes = (\<lambda>p. None)\<rparr>"

section \<open>A stale node that is not examined\<close>

text \<open>The loop over live nodes only moves the cursor.\<close>

lemma expire_walk:
  assumes "distinct (sh_queue sh)" and "sh_queue sh = us @ vs @ ws" and "all_live now window sh vs" and "set vs \<subseteq> dom (sh_nodes sh)"
    and "scanned + length vs \<le> BAN_EXPIRE_SCAN" and "evicted < BAN_EXPIRE_EVICT"
  shows "ban_expire_loop ops now window sh (queue_last (us @ vs)) scanned evicted wrapped =
    ban_expire_loop ops now window sh (queue_last us) (scanned + length vs) evicted wrapped"
  using assms
proof (induction vs arbitrary: ws scanned rule: rev_induct)
  case (snoc p vs)
  have q: "sh_queue sh = (us @ vs) @ p # ws" and l: "queue_last (us @ vs @ [p]) = Some p" using snoc.prems(2) by (auto simp: queue_last_def)
  obtain bn where bn: "sh_nodes sh p = Some bn" "ban_live now window bn" using snoc.prems(3,4) by auto
  have "queue_prev (sh_queue sh) p = queue_last (us @ vs)" using queue_prev_split [of "us @ vs" p ws] snoc.prems(1) q by simp
  then have "ban_expire_loop ops now window sh (Some p) scanned evicted wrapped =
      ban_expire_loop ops now window sh (queue_last (us @ vs)) (Suc scanned) evicted wrapped"
    using bn snoc.prems(5,6) by (subst ban_expire_loop.simps) (simp add: Let_def)
  then show ?case using snoc.IH [of "p # ws" "Suc scanned"] snoc.prems l by simp
qed simp

lemma expire_stop:
  "scanned = BAN_EXPIRE_SCAN \<or> q = None \<and> wrapped \<Longrightarrow> ban_expire_loop ops now window sh q scanned evicted wrapped = Some (sh\<lparr>sh_cursor := q\<rparr>)"
  by (subst ban_expire_loop.simps) auto

text \<open>A call that starts at the tail of a queue of live nodes.\<close>

lemma expire_from_tail:
  assumes "zone_ok sh" and "sh_cursor sh = None" and "sh_queue sh = us @ vs" and "all_live now window sh vs"
    and "us = [] \<and> length vs \<le> BAN_EXPIRE_SCAN \<or> length vs = BAN_EXPIRE_SCAN"
  shows "ngx_http_shield_ban_expire ops sh now window = Some (sh\<lparr>sh_cursor := queue_last us\<rparr>)"
proof -
  have d: "distinct (sh_queue sh)" "set vs \<subseteq> dom (sh_nodes sh)" using assms(1,3) by (auto simp: zone_ok_def)
  have "ban_expire_loop ops now window sh (queue_last us) (length vs) 0 True = Some (sh\<lparr>sh_cursor := queue_last us\<rparr>)"
    by (rule expire_stop) (use assms(5) in \<open>auto simp: queue_last_def\<close>)
  then show ?thesis using expire_walk [OF d(1) _ assms(4) d(2), of us "[]" 0 0 ops True] assms(2,3,5)
    by (auto simp: ngx_http_shield_ban_expire_def BAN_EXPIRE_EVICT_def)
qed

text \<open>A call that starts at the head of the queue and goes on with the last nodes.\<close>

lemma expire_from_head:
  assumes "zone_ok sh" and "sh_cursor sh = Some p" and "sh_queue sh = p # us @ vs" and "all_live now window sh (p # vs)"
    and "Suc (length vs) = BAN_EXPIRE_SCAN"
  shows "ngx_http_shield_ban_expire ops sh now window = Some (sh\<lparr>sh_cursor := queue_last (p # us)\<rparr>)"
proof -
  have d: "distinct (sh_queue sh)" "set vs \<subseteq> dom (sh_nodes sh)" "p \<in> dom (sh_nodes sh)" using assms(1,3) by (auto simp: zone_ok_def)
  obtain bn where bn: "sh_nodes sh p = Some bn" "ban_live now window bn" using d(3) assms(4) by auto
  have h: "queue_prev (sh_queue sh) p = None" using queue_prev_first d(1) assms(3) by simp
  have "ngx_http_shield_ban_expire ops sh now window = ban_expire_loop ops now window sh None 1 0 False"
    using bn h assms(2) by (subst ngx_http_shield_ban_expire_def) (simp add: ban_expire_loop.simps [of _ _ _ _ "Some p"] BAN_EXPIRE_SCAN_def BAN_EXPIRE_EVICT_def)
  also have "\<dots> = ban_expire_loop ops now window sh (queue_last ((p # us) @ vs)) 1 0 True"
    using assms(3) by (subst ban_expire_loop.simps) (simp add: BAN_EXPIRE_SCAN_def BAN_EXPIRE_EVICT_def)
  also have "\<dots> = ban_expire_loop ops now window sh (queue_last (p # us)) (1 + length vs) 0 True"
    using expire_walk [OF d(1) _ _ d(2), of "p # us" "[]" now window 1 0 ops True] assms(3-5) by (simp add: BAN_EXPIRE_EVICT_def)
  also have "\<dots> = Some (sh\<lparr>sh_cursor := queue_last (p # us)\<rparr>)" by (rule expire_stop) (simp add: assms(5))
  finally show ?thesis .
qed

text \<open>The operations in terms of the queue.\<close>

lemma check_moves:
  assumes "ban_inv sh" and "sh_nodes sh p = Some bn" and "client_of bn = c"
  shows "ban_step sh (Check c now) = Some (sh\<lparr>sh_queue := p # remove1 p (sh_queue sh)\<rparr>) \<and> ban_inv (sh\<lparr>sh_queue := p # remove1 p (sh_queue sh)\<rparr>)"
proof -
  obtain h a where c: "c = (h, a)" by fastforce
  obtain sh' where "ngx_http_shield_ban_lookup sh h a = Some (Some p, sh')" "ban_inv sh'" "sh' = sh\<lparr>sh_queue := p # remove1 p (sh_queue sh)\<rparr>"
    using ban_lookup_correct [OF assms(1), of h a] assms(2,3) c by fastforce
  then show ?thesis using assms(2) by (simp add: c ngx_http_shield_ban_is_banned_locked_def)
qed

lemma lookup_unknown: "ban_inv sh \<Longrightarrow> ban_view sh (h, a) = None \<Longrightarrow> ngx_http_shield_ban_lookup sh h a = Some (None, sh)"
proof -
  assume i: "ban_inv sh" and n: "ban_view sh (h, a) = None"
  have "\<forall>p bn. sh_nodes sh p = Some bn \<longrightarrow> client_of bn \<noteq> (h, a)" using n ban_view_None i by (simp add: ban_inv_def)
  then obtain sh' where "ngx_http_shield_ban_lookup sh h a = Some (None, sh')" using ban_lookup_correct [OF i, of h a] by fastforce
  then show ?thesis by (auto simp: ngx_http_shield_ban_lookup_def split: option.splits)
qed

lemma check_unknown: "ban_inv sh \<Longrightarrow> ban_view sh c = None \<Longrightarrow> ban_step sh (Check c now) = Some sh"
  using lookup_unknown by (cases c) (simp add: ngx_http_shield_ban_is_banned_locked_def)

lemma hit_refused:
  assumes "ban_inv sh" and "ban_view sh c = None" and "ngx_http_shield_ban_expire ops sh now window = Some (sh\<lparr>sh_cursor := q\<rparr>)"
    and "\<not> op_harness ops" and "op_slab_alloc ops (sh_queue sh) = None"
  shows "ban_step sh (Hit ops c now count window ban_time) = Some (sh\<lparr>sh_cursor := q\<rparr>)"
  using lookup_unknown [OF assms(1)] assms(2-5)
  by (cases c) (simp add: ngx_http_shield_ban_record_locked_def ngx_shield_slab_alloc_def)

lemma hit_links:
  assumes "ops_ok ops" and "ban_inv sh" and "ban_view sh (h, a) = None" and "ngx_http_shield_ban_expire ops sh now window = Some (sh\<lparr>sh_cursor := q\<rparr>)"
    and "\<not> op_harness ops" and "op_slab_alloc ops (sh_queue sh) = Some p"
  shows "\<exists>sh'. ban_step sh (Hit ops (h, a) now count window ban_time) = Some sh' \<and> ban_inv sh' \<and> sh_queue sh' = p # sh_queue sh \<and> sh_cursor sh' = q
    \<and> sh_nodes sh' = (sh_nodes sh)(p \<mapsto> snd (ban_hit now count window ban_time (ban_new_node h a now)))"
proof -
  obtain rc sh' where r: "ngx_http_shield_ban_record_locked ops sh h a now count window ban_time = Some (rc, sh')" "ban_inv sh'"
    using ban_record_new [OF assms(1-3), of now count window ban_time] by blast
  have "sh_queue sh' = p # sh_queue sh \<and> sh_cursor sh' = q
      \<and> sh_nodes sh' = (sh_nodes sh)(p \<mapsto> snd (ban_hit now count window ban_time (ban_new_node h a now)))"
    using r(1) lookup_unknown [OF assms(2,3)] assms(4-6)
    by (auto simp: ngx_http_shield_ban_record_locked_def ngx_shield_slab_alloc_def ban_link_def ban_record_at_def Let_def
        split: option.splits prod.splits if_splits)
  then show ?thesis using r by simp
qed

lemma run_steps_append: "run_steps step s (xs @ ys) = (case run_steps step s xs of None \<Rightarrow> None | Some s' \<Rightarrow> run_steps step s' ys)"
  by (induction xs arbitrary: s) (auto split: option.split)

text \<open>
  The requests of 35 clients \<open>c 0\<close> to \<open>c 34\<close>; every request is checked first.  At time 0 the clients up to
  \<open>c 33\<close> send one attack each, which bans them until \<open>T\<close>, but for \<open>c 31\<close>, whose location asks for five;
  \<open>c 31\<close> and \<open>c 33\<close> send a second request.  In each half of a round \<open>c 31\<close> and a banned client send a
  request without consequences, and \<open>c 34\<close> an attack.
\<close>

definition park_one :: "ngx_ops \<Rightarrow> (nat \<Rightarrow> client) \<Rightarrow> time_t \<Rightarrow> nat \<Rightarrow> ban_op list" where
  "park_one ops c T i = [Check (c i) 0, Hit ops (c i) 0 (if i = 31 then 5 else 1) 60 T]"

definition park_setup :: "ngx_ops \<Rightarrow> (nat \<Rightarrow> client) \<Rightarrow> time_t \<Rightarrow> ban_op list" where
  "park_setup ops c T = concat (map (park_one ops c T) [0..<34]) @ [Check (c 31) 0, Check (c 33) 0]"

definition park_half :: "ngx_ops \<Rightarrow> (nat \<Rightarrow> client) \<Rightarrow> nat \<Rightarrow> time_t \<Rightarrow> ban_op list" where
  "park_half ops c b t = [Check (c 31) t, Check (c b) t, Check (c 34) t, Hit ops (c 34) t 5 60 3600]"

definition park_round :: "ngx_ops \<Rightarrow> (nat \<Rightarrow> client) \<Rightarrow> time_t \<times> time_t \<Rightarrow> ban_op list" where
  "park_round ops c tu = park_half ops c 32 (fst tu) @ park_half ops c 33 (snd tu)"

definition park_node :: "(nat \<Rightarrow> client) \<Rightarrow> time_t \<Rightarrow> nat \<Rightarrow> ngx_http_shield_ban_node_t" where
  "park_node c T i = (if i = 31 then (ban_new_node (fst (c i)) (snd (c i)) 0)\<lparr>bn_hits := 1\<rparr>
     else (ban_new_node (fst (c i)) (snd (c i)) 0)\<lparr>bn_banned_until := T\<rparr>)"

lemma park_node_facts:
  assumes "0 < T" and "T \<le> time_t_max"
  shows "snd (ban_hit 0 (if i = 31 then 5 else 1) 60 T (ban_new_node (fst (c i)) (snd (c i)) 0)) = park_node c T i"
    and "client_of (park_node c T i) = c i" and "ban_live 0 60 (park_node c T i)"
    and "i \<noteq> 31 \<Longrightarrow> t < T \<Longrightarrow> ban_live t 60 (park_node c T i)" and "60 \<le> t \<Longrightarrow> \<not> ban_live t 60 (park_node c T 31)"
  using assms by (auto simp: park_node_def ban_new_node_def ban_hit_def roll_window_def retire_lapsed_def inc64_def client_of_def ban_live_def
      ngx_http_shield_time_add_clamp_def time_t_max_def SIZEOF_TIME_T_def Let_def)

text \<open>The zone after the first \<open>n\<close> attacks, \<open>ps\<close> being the nodes in the order of their clients.\<close>

definition built :: "(nat \<Rightarrow> client) \<Rightarrow> time_t \<Rightarrow> nat \<Rightarrow> ngx_http_shield_ban_shctx_t \<Rightarrow> ptr list \<Rightarrow> bool" where
  "built c T n sh ps \<longleftrightarrow> ban_inv sh \<and> sh_queue sh = rev ps \<and> length ps = n \<and> (\<forall>i < n. sh_nodes sh (ps ! i) = Some (park_node c T i))
     \<and> sh_cursor sh = (if n = 34 then Some (ps ! 32) else None)"

lemma builtD:
  assumes "built c T n sh ps"
  shows "ban_inv sh" and "zone_ok sh" and "sh_queue sh = rev ps" and "length ps = n" and "i < n \<Longrightarrow> sh_nodes sh (ps ! i) = Some (park_node c T i)"
    and "sh_cursor sh = (if n = 34 then Some (ps ! 32) else None)"
    and "sh_nodes sh p = Some bn \<Longrightarrow> \<exists>i < n. p = ps ! i \<and> bn = park_node c T i"
proof -
  show z: "zone_ok sh" using assms by (simp add: built_def ban_inv_def)
  assume p: "sh_nodes sh p = Some bn"
  then have "p \<in> set ps" using z assms by (auto simp: built_def zone_ok_def)
  then show "\<exists>i < n. p = ps ! i \<and> bn = park_node c T i" using p assms by (auto simp: built_def in_set_conv_nth)
qed (use assms in \<open>simp_all add: built_def\<close>)

lemma built_new:
  assumes "built c T n sh ps" and "inj_on c {..34}" and "n \<le> i" and "i \<le> 34" and "0 < T" and "T \<le> time_t_max"
  shows "ban_view sh (c i) = None"
proof -
  have "client_of bn \<noteq> c i" if n: "sh_nodes sh p = Some bn" for p bn
  proof -
    obtain k where "k < n" "bn = park_node c T k" using builtD(7) [OF assms(1) n] by blast
    then show ?thesis using park_node_facts(2) [OF assms(5,6)] inj_onD [OF assms(2), of k i] assms(3,4) by auto
  qed
  then show ?thesis unfolding ban_view_None [OF builtD(2) [OF assms(1)]] by blast
qed

lemma built_step:
  assumes b: "built c T n sh ps" and "n < 34" and inj: "inj_on c {..34}" and T: "0 < T" "T \<le> time_t_max"
    and ops: "ops_ok ops" "\<not> op_harness ops" "\<And>used. op_slab_alloc ops used = None \<longleftrightarrow> 34 \<le> length used"
  shows "\<exists>sh' ps'. run_steps ban_step sh (park_one ops c T n) = Some sh' \<and> built c T (Suc n) sh' ps'"
proof -
  let ?q = "if n = 33 then Some (ps ! 32) else None"
  have new: "ban_view sh (c n) = None" using built_new [OF b inj, of n] assms(2) T by simp
  have live: "all_live 0 60 sh vs" for vs using builtD(7) [OF b] park_node_facts(3) [OF T] unfolding all_live_def by blast
  have cur: "sh_cursor sh = None" using builtD(6) [OF b] assms(2) by simp
  have e: "ngx_http_shield_ban_expire ops sh 0 60 = Some (sh\<lparr>sh_cursor := ?q\<rparr>)"
  proof (cases "n = 33")
    case True
    have "ps = take 32 ps @ [ps ! 32]" using take_Suc_conv_app_nth [of 32 ps] builtD(4) [OF b] True by simp
    then have "rev ps = [ps ! 32] @ rev (take 32 ps)" by (metis rev.simps(2) rev_append rev_rev_ident append_Nil rev.simps(1))
    then show ?thesis using expire_from_tail [OF builtD(2) [OF b] cur, of "[ps ! 32]" "rev (take 32 ps)" 0 60 ops] live builtD(3,4) [OF b] True
      by (simp add: queue_last_def BAN_EXPIRE_SCAN_def)
  next
    case False
    then show ?thesis using expire_from_tail [OF builtD(2) [OF b] cur, of "[]" "rev ps" 0 60 ops] live builtD(3,4) [OF b] assms(2)
      by (simp add: queue_last_def BAN_EXPIRE_SCAN_def)
  qed
  obtain p where p: "op_slab_alloc ops (sh_queue sh) = Some p" using ops(3) [of "sh_queue sh"] builtD(3,4) [OF b] assms(2) by fastforce
  then have "p \<notin> set (sh_queue sh)" using ops(1) by (auto simp: ops_ok_def)
  then have f: "p \<notin> set ps" using builtD(3) [OF b] by simp
  obtain sh' where h: "ban_step sh (Hit ops (c n) 0 (if n = 31 then 5 else 1) 60 T) = Some sh'" "ban_inv sh'" "sh_queue sh' = p # sh_queue sh"
      "sh_cursor sh' = ?q" "sh_nodes sh' = (sh_nodes sh)(p \<mapsto> park_node c T n)"
    using hit_links [OF ops(1) builtD(1) [OF b] _ e ops(2) p, of "fst (c n)" "snd (c n)" "if n = 31 then 5 else 1" T] new
    unfolding park_node_facts(1) [OF T] by auto
  have "built c T (Suc n) sh' (ps @ [p])"
    using h builtD(3-5) [OF b] f by (auto simp: built_def nth_append less_Suc_eq nth_mem)
  moreover have "run_steps ban_step sh (park_one ops c T n) = Some sh'"
    using check_unknown [OF builtD(1) [OF b] new] h(1) by (simp add: park_one_def)
  ultimately show ?thesis by blast
qed

lemma built_run:
  assumes "ban_inv sh" and "sh_queue sh = []" and "sh_cursor sh = None" and "inj_on c {..34}" and "0 < T" and "T \<le> time_t_max"
    and ops: "ops_ok ops" "\<not> op_harness ops" "\<And>used. op_slab_alloc ops used = None \<longleftrightarrow> 34 \<le> length used"
  shows "n \<le> 34 \<Longrightarrow> \<exists>sh' ps. run_steps ban_step sh (concat (map (park_one ops c T) [0..<n])) = Some sh' \<and> built c T n sh' ps"
proof (induction n)
  case 0
  then show ?case using assms(1-3) by (simp add: built_def)
next
  case (Suc n)
  then obtain sh1 ps where r: "run_steps ban_step sh (concat (map (park_one ops c T) [0..<n])) = Some sh1" "built c T n sh1 ps" by auto
  obtain sh2 ps2 where "run_steps ban_step sh1 (park_one ops c T n) = Some sh2" "built c T (Suc n) sh2 ps2"
    using built_step [OF r(2) _ assms(4-6) ops] Suc.prems by auto
  then show ?case using r(1) by (auto simp: run_steps_append)
qed

text \<open>
  Half a round: the stale node \<open>s\<close> is kept between \<open>p1\<close> and \<open>p2\<close>, at the head of the queue, where the
  cursor of the full scan ends.
\<close>

lemma park_half_run:
  assumes inv: "ban_inv sh" and q: "sh_queue sh = [p1, s, p2] @ rs" "length rs = 31" and cur: "sh_cursor sh = Some p2"
    and n: "sh_nodes sh s = Some ns" "client_of ns = c 31" "sh_nodes sh p2 = Some n2" "client_of n2 = c b" "ban_view sh (c 34) = None"
    and live: "all_live t 60 sh (p2 # rs)" and ops: "\<not> op_harness ops" "\<And>used. op_slab_alloc ops used = None \<longleftrightarrow> 34 \<le> length used"
  defines "sh' \<equiv> sh\<lparr>sh_queue := [p2, s, p1] @ rs, sh_cursor := Some p1\<rparr>"
  shows "run_steps ban_step sh (park_half ops c b t) = Some sh' \<and> ban_inv sh'"
proof -
  have d: "distinct (sh_queue sh)" "sh_nodes sh p1 \<noteq> None" using inv q(1) by (auto simp: ban_inv_def zone_ok_def)
  let ?sh1 = "sh\<lparr>sh_queue := [s, p1, p2] @ rs\<rparr>" and ?sh2 = "sh\<lparr>sh_queue := [p2, s, p1] @ rs\<rparr>"
  have c1: "ban_step sh (Check (c 31) t) = Some ?sh1" "ban_inv ?sh1" using check_moves [OF inv n(1,2), of t] q(1) d(1) by simp_all
  have "remove1 p2 (sh_queue ?sh1) = [s, p1] @ rs" using d(1) q(1) by simp
  then have c2: "ban_step ?sh1 (Check (c b) t) = Some ?sh2" "ban_inv ?sh2" using check_moves [OF c1(2), of p2 n2 "c b" t] n(3,4) by simp_all
  have v: "ban_view ?sh2 (c 34) = None" using ban_view_cong [of sh ?sh2] inv c2(2) n(5) by (simp add: ban_inv_def)
  have z: "zone_ok ?sh2" using c2(2) by (simp add: ban_inv_def)
  have l: "all_live t 60 ?sh2 (p2 # rs)" using live by (simp add: all_live_def)
  have e: "ngx_http_shield_ban_expire ops ?sh2 t 60 = Some sh'"
    using expire_from_head [OF z _ _ l, of "[s, p1]" ops] cur q(2) by (simp add: sh'_def queue_last_def BAN_EXPIRE_SCAN_def)
  have "ban_step ?sh2 (Hit ops (c 34) t 5 60 3600) = Some (?sh2\<lparr>sh_cursor := Some p1\<rparr>)"
    by (rule hit_refused [OF c2(2) v _ ops(1)]) (use e ops(2) q(2) in \<open>simp_all add: sh'_def\<close>)
  moreover have "ban_inv sh'" using c2(2) d(2) by (simp add: sh'_def ban_inv_def zone_ok_def in_use_def)
  ultimately show ?thesis using c1(1) c2(1) check_unknown [OF c2(2) v] by (simp add: park_half_def sh'_def)
qed

text \<open>The zone after the setup, which every round brings back.\<close>

definition parked :: "(nat \<Rightarrow> client) \<Rightarrow> time_t \<Rightarrow> ngx_http_shield_ban_shctx_t \<Rightarrow> ptr list \<Rightarrow> bool" where
  "parked c T sh ps \<longleftrightarrow> ban_inv sh \<and> length ps = 34 \<and> (\<forall>i < 34. sh_nodes sh (ps ! i) = Some (park_node c T i)) \<and> ban_view sh (c 34) = None
     \<and> sh_queue sh = [ps ! 33, ps ! 31, ps ! 32] @ rev (take 31 ps) \<and> sh_cursor sh = Some (ps ! 32)"

lemma park_round_run:
  assumes p: "parked c T sh ps" and T: "0 < T" "T \<le> time_t_max" "t < T" "u < T"
    and ops: "\<not> op_harness ops" "\<And>used. op_slab_alloc ops used = None \<longleftrightarrow> 34 \<le> length used"
  shows "run_steps ban_step sh (park_round ops c (t, u)) = Some sh"
proof -
  let ?s = "ps ! 31" and ?rs = "rev (take 31 ps)"
  let ?sh1 = "sh\<lparr>sh_queue := [ps ! 32, ?s, ps ! 33] @ ?rs, sh_cursor := Some (ps ! 33)\<rparr>"
  have f: "ban_inv sh" "length ?rs = 31" "ban_view sh (c 34) = None" "sh_queue sh = [ps ! 33, ?s, ps ! 32] @ ?rs" "sh_cursor sh = Some (ps ! 32)"
    using p by (simp_all add: parked_def)
  have n: "sh_nodes sh (ps ! i) = Some (park_node c T i)" if "i < 34" for i using p that by (simp add: parked_def)
  have live: "all_live t 60 sh (ps ! b # ?rs)" if "t < T" "b \<in> {32, 33}" for t b
  proof -
    have "\<exists>i < 34. i \<noteq> 31 \<and> x = ps ! i" if x: "x \<in> set (ps ! b # ?rs)" for x
    proof -
      obtain i where "x = ps ! i" "i = b \<or> i < 31" using x by (auto simp: in_set_conv_nth)
      then show ?thesis using \<open>b \<in> {32, 33}\<close> by (intro exI [of _ i]) auto
    qed
    then show ?thesis using n park_node_facts(4) [OF T(1,2) _ that(1)] unfolding all_live_def by fastforce
  qed
  have n31: "sh_nodes sh ?s = Some (park_node c T 31)" and n32: "sh_nodes sh (ps ! 32) = Some (park_node c T 32)"
    and n33: "sh_nodes sh (ps ! 33) = Some (park_node c T 33)" by (simp_all add: n)
  note cl = park_node_facts(2) [OF T(1,2)]
  have one: "run_steps ban_step sh (park_half ops c 32 t) = Some ?sh1" "ban_inv ?sh1"
    using park_half_run [where c = c and b = 32, OF f(1,4,2,5) n31 cl n32 cl f(3) live [OF T(3)] ops] by simp_all
  have v: "ban_view ?sh1 (c 34) = None" using ban_view_cong [of sh ?sh1] f(1,3) one(2) by (simp add: ban_inv_def)
  have l: "all_live u 60 ?sh1 (ps ! 33 # ?rs)" using live [OF T(4), of 33] by (simp add: all_live_def)
  have "run_steps ban_step ?sh1 (park_half ops c 33 u) = Some (?sh1\<lparr>sh_queue := [ps ! 33, ?s, ps ! 32] @ ?rs, sh_cursor := Some (ps ! 32)\<rparr>)"
    using park_half_run [where c = c and b = 33 and sh = ?sh1 and ns = "park_node c T 31" and ?n2.0 = "park_node c T 33",
        OF one(2) _ f(2) _ _ cl _ cl v l ops] n31 n33 by simp
  moreover have "?sh1\<lparr>sh_queue := [ps ! 33, ?s, ps ! 32] @ ?rs, sh_cursor := Some (ps ! 32)\<rparr> = sh" using f(4,5) by simp
  ultimately show ?thesis using one(1) by (simp add: park_round_def run_steps_append)
qed

lemma park_setup_run:
  assumes "ban_inv sh" and "sh_queue sh = []" and "sh_cursor sh = None" and inj: "inj_on c {..34}" and T: "0 < T" "T \<le> time_t_max"
    and ops: "ops_ok ops" "\<not> op_harness ops" "\<And>used. op_slab_alloc ops used = None \<longleftrightarrow> 34 \<le> length used"
  shows "\<exists>sh' ps. run_steps ban_step sh (park_setup ops c T) = Some sh' \<and> parked c T sh' ps"
proof -
  obtain sh0 ps where r: "run_steps ban_step sh (concat (map (park_one ops c T) [0..<34])) = Some sh0" and b: "built c T 34 sh0 ps"
    using built_run [OF assms(1-6) ops, of 34] by auto
  let ?rs = "rev (take 31 ps)"
  have len: "length ps = 34" by (rule builtD(4) [OF b])
  have e: "ps = take 31 ps @ [ps ! 31, ps ! 32, ps ! 33]"
    using take_Suc_conv_app_nth [of 31 ps] take_Suc_conv_app_nth [of 32 ps] take_Suc_conv_app_nth [of 33 ps] len by simp
  have q: "sh_queue sh0 = [ps ! 33, ps ! 32, ps ! 31] @ ?rs" using builtD(3) [OF b] arg_cong [OF e, of rev] by simp
  have d: "distinct (sh_queue sh0)" using builtD(2) [OF b] by (simp add: zone_ok_def)
  let ?sh1 = "sh0\<lparr>sh_queue := [ps ! 31, ps ! 33, ps ! 32] @ ?rs\<rparr>" and ?sh2 = "sh0\<lparr>sh_queue := [ps ! 33, ps ! 31, ps ! 32] @ ?rs\<rparr>"
  have c1: "ban_step sh0 (Check (c 31) 0) = Some ?sh1" "ban_inv ?sh1"
    using check_moves [OF builtD(1) [OF b] builtD(5) [OF b], of 31 "c 31" 0] park_node_facts(2) [OF T] d q by simp_all
  have "remove1 (ps ! 33) (sh_queue ?sh1) = [ps ! 31, ps ! 32] @ ?rs" using d q by simp
  then have c2: "ban_step ?sh1 (Check (c 33) 0) = Some ?sh2" "ban_inv ?sh2"
    using check_moves [OF c1(2), of "ps ! 33" "park_node c T 33" "c 33" 0] builtD(5) [OF b, of 33] park_node_facts(2) [OF T] by simp_all
  have "ban_view ?sh2 (c 34) = None"
    using ban_view_cong [of sh0 ?sh2] builtD(2) [OF b] c2(2) built_new [OF b inj, of 34] T by (simp add: ban_inv_def)
  then have "parked c T ?sh2 ps" using c2(2) len builtD(5,6) [OF b] by (simp add: parked_def)
  then show ?thesis using r c1(1) c2(1) by (auto simp: park_setup_def run_steps_append)
qed

lemma park_rounds_run:
  assumes "parked c T sh ps" and "0 < T" and "T \<le> time_t_max" and "list_all (\<lambda>(t, u). t < T \<and> u < T) ts"
    and ops: "\<not> op_harness ops" "\<And>used. op_slab_alloc ops used = None \<longleftrightarrow> 34 \<le> length used"
  shows "run_steps ban_step sh (concat (map (park_round ops c) ts)) = Some sh"
  using assms(4)
proof (induction ts)
  case (Cons tu ts)
  then show ?case using park_round_run [OF assms(1-3) _ _ ops] by (cases tu) (simp add: run_steps_append)
qed simp

end
