(* ===== verification/Handler.thy ===== *)
theory Handler
  imports Log Request_Correct Ban_Reclaim
begin

text \<open>
  The phase handler of \<open>src/ngx_http_shield_module.c\<close> and what it is made of: the ban key of a
  request, the locked ban operations, the decision on a hit, the failure path, the handler with its
  re-entry after the body was read, the body handler, the initialization of a zone and of the module.

  A zone handle is mapped to its shared context, absent while the zone is not initialized in this
  worker.  A read through a null or freed pointer is the value \<open>None\<close> of the operation.  The
  lock around each ban operation makes it one step.
\<close>

section \<open>State\<close>

record handler_env =
  he_env :: ngx_env
  he_log :: log_env
  he_ops :: ngx_ops
  he_crc32 :: "bytes \<Rightarrow> nat"
  he_time :: time_t
  he_cidr_match :: "sockaddr \<Rightarrow> cidr list \<Rightarrow> bool"
  he_parse_addr_port :: "bytes \<Rightarrow> sockaddr option"
  he_read_body :: ngx_rc

type_synonym zones = "nat \<rightharpoonup> ngx_http_shield_ban_shctx_t"

text \<open>
  What a request works on: the zones, the module context of the request (the recorded verdict), the
  pool, the configuration, and the log effects so far, latest first.
\<close>

record req_state =
  rs_zones :: zones
  rs_ctx :: "ngx_rc option"
  rs_pool :: pool
  rs_conf :: ngx_http_shield_loc_conf_t
  rs_log :: "log_effect list"

definition NGX_HTTP_SPECIAL_RESPONSE :: nat where "NGX_HTTP_SPECIAL_RESPONSE = 300"
definition NGX_HTTP_INTERNAL_SERVER_ERROR :: nat where "NGX_HTTP_INTERNAL_SERVER_ERROR = 500"

definition special_response :: "ngx_rc \<Rightarrow> bool" where
  "special_response rc = (case rc of NGX_HTTP n \<Rightarrow> n \<ge> NGX_HTTP_SPECIAL_RESPONSE | _ \<Rightarrow> False)"

section \<open>Ban key\<close>

text \<open>\<open>None\<close> is \<open>NGX_DECLINED\<close>.\<close>

fun ngx_http_shield_ban_sockaddr_bytes :: "sockaddr \<Rightarrow> bytes option" where
  "ngx_http_shield_ban_sockaddr_bytes (AF_INET a) = Some (take 4 a)"
| "ngx_http_shield_ban_sockaddr_bytes (AF_INET6 a) = Some (take 16 a)"
| "ngx_http_shield_ban_sockaddr_bytes AF_OTHER = None"

definition ngx_http_shield_ban_peer_trusted :: "handler_env \<Rightarrow> ngx_http_request_t \<Rightarrow> cidr list conf_ptr \<Rightarrow> bool" where
  "ngx_http_shield_ban_peer_trusted he r trusted =
     (case trusted of PTR cs \<Rightarrow> he_cidr_match he (r_sockaddr r) cs | _ \<Rightarrow> False)"

definition ngx_http_shield_ban_addr :: "handler_env \<Rightarrow> ngx_http_request_t \<Rightarrow> ngx_http_shield_loc_conf_t \<Rightarrow> bytes option" where
  "ngx_http_shield_ban_addr he r slcf =
     (if lc_ban_key slcf \<noteq> BAN_KEY_FORWARDED \<or> \<not> ngx_http_shield_ban_peer_trusted he r (lc_ban_trusted slcf)
      then ngx_http_shield_ban_sockaddr_bytes (r_sockaddr r)
      else if r_x_forwarded_for r = [] then ngx_http_shield_ban_sockaddr_bytes (r_sockaddr r)
      else (let name = ngx_http_shield_xff_last_token (last (r_x_forwarded_for r))
            in if name = [] then ngx_http_shield_ban_sockaddr_bytes (r_sockaddr r)
               else (case he_parse_addr_port he name of
                       None \<Rightarrow> ngx_http_shield_ban_sockaddr_bytes (r_sockaddr r)
                     | Some sa \<Rightarrow> ngx_http_shield_ban_sockaddr_bytes sa)))"

section \<open>Ban operations of a request\<close>

definition zone_of :: "ngx_http_shield_loc_conf_t \<Rightarrow> zones \<Rightarrow> (nat \<times> ngx_http_shield_ban_shctx_t) option" where
  "zone_of slcf zs = (case lc_ban_zone slcf of PTR z \<Rightarrow> map_option (\<lambda>sh. (z, sh)) (zs z) | _ \<Rightarrow> None)"

definition ngx_http_shield_ban_is_banned :: "handler_env \<Rightarrow> ngx_http_request_t \<Rightarrow> ngx_http_shield_loc_conf_t
    \<Rightarrow> zones \<Rightarrow> (bool \<times> zones) option" where
  "ngx_http_shield_ban_is_banned he r slcf zs =
     (case ngx_http_shield_ban_addr he r slcf of
        None \<Rightarrow> Some (False, zs)
      | Some addr \<Rightarrow>
          (case zone_of slcf zs of
             None \<Rightarrow> None
           | Some (z, sh) \<Rightarrow>
               (case ngx_http_shield_ban_is_banned_locked sh (he_crc32 he addr) addr (he_time he) of
                  None \<Rightarrow> None
                | Some (banned, sh') \<Rightarrow> Some (banned, zs(z \<mapsto> sh')))))"

definition ngx_http_shield_ban_record :: "handler_env \<Rightarrow> ngx_http_request_t \<Rightarrow> ngx_http_shield_loc_conf_t
    \<Rightarrow> zones \<Rightarrow> zones option" where
  "ngx_http_shield_ban_record he r slcf zs =
     (case ngx_http_shield_ban_addr he r slcf of
        None \<Rightarrow> Some zs
      | Some addr \<Rightarrow>
          (case zone_of slcf zs of
             None \<Rightarrow> None
           | Some (z, sh) \<Rightarrow>
               (case ngx_http_shield_ban_record_locked (he_ops he) sh (he_crc32 he addr) addr (he_time he)
                       (lc_ban_count slcf) (lc_ban_window slcf) (lc_ban_time slcf) of
                  None \<Rightarrow> None
                | Some (rc, sh') \<Rightarrow> Some (zs(z \<mapsto> sh')))))"

definition ngx_http_shield_ban_count :: "ngx_http_shield_loc_conf_t \<Rightarrow> ngx_http_shield_hit_t \<Rightarrow> zones \<Rightarrow> zones" where
  "ngx_http_shield_ban_count slcf hit zs =
     (case zone_of slcf zs of
        None \<Rightarrow> zs
      | Some (z, sh) \<Rightarrow> zs(z \<mapsto> ngx_http_shield_ban_count_hit sh (h_cat hit) (lc_mode slcf = SHIELD_BLOCK)))"

section \<open>Decision\<close>

definition log_hit :: "handler_env \<Rightarrow> ngx_http_request_t \<Rightarrow> ngx_http_shield_hit_t \<Rightarrow> req_state \<Rightarrow> req_state" where
  "log_hit he r hit st =
     (case ngx_http_shield_write_log (he_log he) (rs_pool st) r (rs_conf st) hit of (eff, pool) \<Rightarrow>
        st\<lparr>rs_pool := pool, rs_conf := lf_conf eff, rs_log := eff # rs_log st\<rparr>)"

definition ngx_http_shield_act :: "handler_env \<Rightarrow> ngx_http_request_t \<Rightarrow> ngx_http_shield_hit_t \<Rightarrow> req_state
    \<Rightarrow> (ngx_rc \<times> req_state) option" where
  "ngx_http_shield_act he r hit st =
     (let slcf = rs_conf st;
          zs = (if lc_ban_zone slcf \<noteq> NULL_PTR
                then map_option (ngx_http_shield_ban_count slcf hit)
                       (ngx_http_shield_ban_record he r slcf (rs_zones st))
                else Some (rs_zones st))
      in case zs of
           None \<Rightarrow> None
         | Some zs' \<Rightarrow>
             (let st' = log_hit he r hit (st\<lparr>rs_zones := zs'\<rparr>)
              in if lc_mode slcf = SHIELD_BLOCK then Some (NGX_HTTP (lc_status slcf), st')
                 else Some (NGX_DECLINED, st')))"

definition ngx_http_shield_fail :: "ngx_http_shield_loc_conf_t \<Rightarrow> ngx_rc" where
  "ngx_http_shield_fail slcf =
     (if lc_mode slcf = SHIELD_BLOCK then NGX_HTTP NGX_HTTP_INTERNAL_SERVER_ERROR else NGX_DECLINED)"

text \<open>The compile-time assertion that every category has a counter.\<close>

definition ngx_http_shield_counters_cover_categories :: int where
  "ngx_http_shield_counters_cover_categories = (if CAT_N \<le> BAN_NCOUNTERS then 1 else - 1)"

lemma counters_compile: "0 < ngx_http_shield_counters_cover_categories"
  by (simp add: ngx_http_shield_counters_cover_categories_def CAT_N_def BAN_NCOUNTERS_def)

section \<open>Handlers\<close>

definition hit0 :: ngx_http_shield_hit_t where
  "hit0 = \<lparr>h_category = [], h_source = [], h_cat = 0\<rparr>"

text \<open>The first pass over the request line and the headers, and the decision to read the body.\<close>

definition handler_inspect :: "handler_env \<Rightarrow> ngx_http_request_t \<Rightarrow> req_state \<Rightarrow> (ngx_rc \<times> req_state) option" where
  "handler_inspect he r st =
     (let slcf = rs_conf st in
      case ngx_http_shield_inspect_prebody (he_env he) (rs_pool st) r slcf hit0 of ((rc, hit), pool) \<Rightarrow>
      let st1 = st\<lparr>rs_pool := pool\<rparr> in
      if rc = NGX_ERROR then Some (ngx_http_shield_fail slcf, st1)
      else if rc = NGX_OK
      then (case ngx_http_shield_act he r hit st1 of
              None \<Rightarrow> None
            | Some (rc', st2) \<Rightarrow> if rc' \<noteq> NGX_DECLINED then Some (rc', st2) else Some (NGX_DECLINED, st2))
      else if lc_body slcf = 0 \<or> \<not> ngx_http_shield_scannable_body (he_env he) r then Some (NGX_DECLINED, st1)
      else case palloc (rs_pool st1) of (ok, pool2) \<Rightarrow>
      if \<not> ok then Some (NGX_ERROR, st1\<lparr>rs_pool := pool2\<rparr>)
      else (let st2 = st1\<lparr>rs_pool := pool2, rs_ctx := Some NGX_DECLINED\<rparr>
            in if special_response (he_read_body he) then Some (he_read_body he, st2) else Some (NGX_DONE, st2)))"

definition ngx_http_shield_handler :: "handler_env \<Rightarrow> ngx_http_request_t \<Rightarrow> req_state \<Rightarrow> (ngx_rc \<times> req_state) option" where
  "ngx_http_shield_handler he r st =
     (let slcf = rs_conf st in
      if \<not> r_main r then Some (NGX_DECLINED, st)
      else if lc_mode slcf = SHIELD_OFF then Some (NGX_DECLINED, st)
      else case rs_ctx st of
        Some status \<Rightarrow> Some (status, st)
      | None \<Rightarrow>
          if lc_ban_zone slcf \<noteq> NULL_PTR
          then (case ngx_http_shield_ban_is_banned he r slcf (rs_zones st) of
                  None \<Rightarrow> None
                | Some (banned, zs) \<Rightarrow>
                    if banned then Some (NGX_HTTP (lc_status slcf), st\<lparr>rs_zones := zs\<rparr>)
                    else handler_inspect he r (st\<lparr>rs_zones := zs\<rparr>))
          else handler_inspect he r st)"

definition ngx_http_shield_body_handler :: "handler_env \<Rightarrow> ngx_http_request_t \<Rightarrow> req_state \<Rightarrow> req_state option" where
  "ngx_http_shield_body_handler he r st =
     (case rs_ctx st of
        None \<Rightarrow> None
      | Some _ \<Rightarrow>
          (case ngx_http_shield_inspect_body (he_env he) (rs_pool st) r (rs_conf st) hit0 of ((rc, hit), pool) \<Rightarrow>
           let st1 = st\<lparr>rs_pool := pool\<rparr> in
           if rc = NGX_OK
           then (case ngx_http_shield_act he r hit st1 of
                   None \<Rightarrow> None
                 | Some (rc', st2) \<Rightarrow> Some (st2\<lparr>rs_ctx := Some (if rc' = NGX_DECLINED then NGX_DECLINED else rc')\<rparr>))
           else if rc = NGX_ERROR then Some (st1\<lparr>rs_ctx := Some (ngx_http_shield_fail (rs_conf st1))\<rparr>)
           else Some (st1\<lparr>rs_ctx := Some NGX_DECLINED\<rparr>)))"

text \<open>
  A request through the phase: the handler, and when it suspended the phase to read the body, the
  body handler and the re-entry of the handler by \<open>ngx_http_core_run_phases\<close>.
\<close>

definition shield_phase :: "handler_env \<Rightarrow> ngx_http_request_t \<Rightarrow> req_state \<Rightarrow> (ngx_rc \<times> req_state) option" where
  "shield_phase he r st =
     (case ngx_http_shield_handler he r st of
        None \<Rightarrow> None
      | Some (rc, st1) \<Rightarrow>
          if rc = NGX_DONE
          then (case ngx_http_shield_body_handler he r st1 of
                  None \<Rightarrow> None
                | Some st2 \<Rightarrow> ngx_http_shield_handler he r st2)
          else Some (rc, st1))"

section \<open>Initialization\<close>

text \<open>
  \<open>octx\<close> is the context of the previous cycle, \<open>existing\<close> the context found in an existing segment,
  \<open>slab\<close> the memory the slab returned with whatever it held.
\<close>

definition ngx_http_shield_ban_init_zone :: "bool \<Rightarrow> ngx_http_shield_ban_shctx_t option \<Rightarrow> ngx_http_shield_ban_shctx_t option
    \<Rightarrow> ngx_http_shield_ban_shctx_t option \<Rightarrow> bool \<Rightarrow> ngx_rc \<times> ngx_http_shield_ban_shctx_t option" where
  "ngx_http_shield_ban_init_zone harness octx existing slab log_ctx_ok =
     (case octx of
        Some sh \<Rightarrow> (NGX_OK, Some sh)
      | None \<Rightarrow>
         (case existing of
            Some sh \<Rightarrow> (NGX_OK, Some sh)
          | None \<Rightarrow>
             (case slab of
                None \<Rightarrow> (NGX_ERROR, None)
              | Some mem \<Rightarrow>
                  (let sh1 = ngx_http_shield_ban_shctx_init (mem\<lparr>sh_rbtree := \<langle>\<rangle>, sh_nodes := Map.empty\<rparr>);
                       sh2 = (if harness then sh1\<lparr>sh_fault_nth := - 1, sh_fault_seen := 0\<rparr> else sh1)
                   in if log_ctx_ok then (NGX_OK, Some sh2) else (NGX_ERROR, Some sh2)))))"

text \<open>The globals are as they were when the build or the registration fails.\<close>

definition ngx_http_shield_init :: "ac_mem \<Rightarrow> ac_mem \<Rightarrow> bool \<Rightarrow> shield_globals \<Rightarrow> ngx_rc \<times> shield_globals" where
  "ngx_http_shield_init mem_decoded mem_raw push_ok g =
     (case ngx_http_shield_ac_build ngx_http_shield_categories ngx_http_shield_rules mem_decoded MATCH_DECODED of
        Inl _ \<Rightarrow> (NGX_ERROR, g)
      | Inr dec \<Rightarrow>
         (case ngx_http_shield_ac_build ngx_http_shield_categories ngx_http_shield_rules mem_raw MATCH_RAW of
            Inl _ \<Rightarrow> (NGX_ERROR, g\<lparr>g_decoded := dec\<rparr>)
          | Inr raw \<Rightarrow>
              (if push_ok then NGX_OK else NGX_ERROR, g\<lparr>g_decoded := dec, g_raw := raw\<rparr>)))"

end
