(* ===== verification/Handler_Correct.thy ===== *)
theory Handler_Correct
  imports Handler
begin

text \<open>
  What a request through the phase guarantees: the zones keep their invariant and no pointer is read
  after it was freed; block mode lets nothing pass that was not inspected and clean; detect mode
  changes no response of its own.
\<close>

section \<open>Zones\<close>

definition zones_ok :: "zones \<Rightarrow> bool" where
  "zones_ok zs \<longleftrightarrow> (\<forall>z sh. zs z = Some sh \<longrightarrow> ban_inv sh)"

text \<open>Banning is off, or the zone it is bound to is initialized.\<close>

definition zone_ready :: "ngx_http_shield_loc_conf_t \<Rightarrow> zones \<Rightarrow> bool" where
  "zone_ready slcf zs \<longleftrightarrow> lc_ban_zone slcf = NULL_PTR \<or> zone_of slcf zs \<noteq> None"

definition state_ok :: "handler_env \<Rightarrow> req_state \<Rightarrow> bool" where
  "state_ok he st \<longleftrightarrow> ops_ok (he_ops he) \<and> zones_ok (rs_zones st) \<and> zone_ready (rs_conf st) (rs_zones st)"

lemma zone_of_Some: "zone_of slcf zs = Some (z, sh) \<longleftrightarrow> lc_ban_zone slcf = PTR z \<and> zs z = Some sh"
  by (auto simp: zone_of_def split: conf_ptr.split)

lemma zone_upd:
  assumes "zones_ok zs" and "zone_of slcf zs = Some (z, sh)" and "ban_inv sh'"
  shows "zones_ok (zs(z \<mapsto> sh'))" and "zone_of slcf (zs(z \<mapsto> sh')) = Some (z, sh')"
  using assms by (auto simp: zones_ok_def zone_of_Some)

lemma count_hit_inv: "ban_inv sh \<Longrightarrow> ban_inv (ngx_http_shield_ban_count_hit sh cat blocked)"
  by (auto simp: ngx_http_shield_ban_count_hit_def ban_inv_def zone_ok_def in_use_def Let_def split: option.splits)

lemma is_banned_total:
  assumes "zones_ok zs" and "zone_of slcf zs \<noteq> None"
  shows "\<exists>b zs'. ngx_http_shield_ban_is_banned he r slcf zs = Some (b, zs') \<and> zones_ok zs' \<and> zone_of slcf zs' \<noteq> None"
proof (cases "ngx_http_shield_ban_addr he r slcf")
  case None
  then have "ngx_http_shield_ban_is_banned he r slcf zs = Some (False, zs)" by (simp add: ngx_http_shield_ban_is_banned_def)
  then show ?thesis using assms by blast
next
  case (Some addr)
  obtain z sh where z: "zone_of slcf zs = Some (z, sh)" using assms(2) by auto
  then have "ban_inv sh" using assms(1) by (auto simp: zones_ok_def zone_of_Some)
  then obtain b sh' where "ngx_http_shield_ban_is_banned_locked sh (he_crc32 he addr) addr (he_time he) = Some (b, sh')" "ban_inv sh'"
    using ban_is_banned_correct by blast
  then show ?thesis using Some z zone_upd [OF assms(1) z] by (simp add: ngx_http_shield_ban_is_banned_def)
qed

lemma record_total:
  assumes "ops_ok (he_ops he)" and "zones_ok zs" and "zone_of slcf zs \<noteq> None"
  shows "\<exists>zs'. ngx_http_shield_ban_record he r slcf zs = Some zs' \<and> zones_ok zs' \<and> zone_of slcf zs' \<noteq> None"
proof (cases "ngx_http_shield_ban_addr he r slcf")
  case None
  then show ?thesis using assms by (simp add: ngx_http_shield_ban_record_def)
next
  case (Some addr)
  obtain z sh where z: "zone_of slcf zs = Some (z, sh)" using assms(3) by auto
  then have inv: "ban_inv sh" using assms(2) by (auto simp: zones_ok_def zone_of_Some)
  let ?h = "he_crc32 he addr"
  obtain rc sh' where "ngx_http_shield_ban_record_locked (he_ops he) sh ?h addr (he_time he)
      (lc_ban_count slcf) (lc_ban_window slcf) (lc_ban_time slcf) = Some (rc, sh')" "ban_inv sh'"
    using ban_record_known [OF inv, of ?h addr] ban_record_new [OF assms(1) inv, of ?h addr] by (cases "ban_view sh (?h, addr)") blast+
  then show ?thesis using Some z zone_upd [OF assms(2) z] by (simp add: ngx_http_shield_ban_record_def)
qed

lemma count_total:
  assumes "zones_ok zs"
  shows "zones_ok (ngx_http_shield_ban_count slcf hit zs)"
    and "zone_of slcf zs \<noteq> None \<Longrightarrow> zone_of slcf (ngx_http_shield_ban_count slcf hit zs) \<noteq> None"
  using assms by (auto simp: ngx_http_shield_ban_count_def zones_ok_def zone_of_Some count_hit_inv split: option.split)

section \<open>Decision\<close>

text \<open>Logging changes nothing of the configuration but the two time stamps of the log.\<close>

definition same_conf :: "ngx_http_shield_loc_conf_t \<Rightarrow> ngx_http_shield_loc_conf_t \<Rightarrow> bool" where
  "same_conf c c' \<longleftrightarrow> (\<exists>t u. c' = c\<lparr>lc_log_error_time := t, lc_log_disk_full_time := u\<rparr>)"

lemma same_conf_refl: "same_conf c c"
  unfolding same_conf_def by (intro exI [of _ "lc_log_error_time c"] exI [of _ "lc_log_disk_full_time c"]) simp

lemma same_confD:
  assumes "same_conf c c'"
  shows "lc_mode c' = lc_mode c" and "lc_ban_zone c' = lc_ban_zone c" and "lc_skip c' = lc_skip c"
    and "lc_max_body c' = lc_max_body c" and "zone_of c' = zone_of c"
  using assms by (auto simp: same_conf_def zone_of_def fun_eq_iff)

lemma same_conf_trans: "same_conf c d \<Longrightarrow> same_conf d e \<Longrightarrow> same_conf c e"
  unfolding same_conf_def
proof (elim exE)
  fix t u t' u' assume "d = c\<lparr>lc_log_error_time := t, lc_log_disk_full_time := u\<rparr>"
    and "e = d\<lparr>lc_log_error_time := t', lc_log_disk_full_time := u'\<rparr>"
  then have "e = c\<lparr>lc_log_error_time := t', lc_log_disk_full_time := u'\<rparr>" by simp
  then show "\<exists>t u. e = c\<lparr>lc_log_error_time := t, lc_log_disk_full_time := u\<rparr>" by blast
qed

lemma log_file_conf: "same_conf slcf (lf_conf (log_file le line slcf))"
proof -
  have "\<exists>t u. lf_conf (log_file le line slcf) = slcf\<lparr>lc_log_error_time := t, lc_log_disk_full_time := u\<rparr>"
  proof -
    have a: "\<exists>t u. slcf\<lparr>lc_log_disk_full_time := d\<rparr> = slcf\<lparr>lc_log_error_time := t, lc_log_disk_full_time := u\<rparr>" for d
      by (intro exI [of _ "lc_log_error_time slcf"] exI [of _ d]) simp
    have b: "\<exists>t u. slcf\<lparr>lc_log_error_time := e\<rparr> = slcf\<lparr>lc_log_error_time := t, lc_log_disk_full_time := u\<rparr>" for e
      by (intro exI [of _ e] exI [of _ "lc_log_disk_full_time slcf"]) simp
    have c: "\<exists>t u. slcf\<lparr>lc_log_disk_full_time := d, lc_log_error_time := e\<rparr>
        = slcf\<lparr>lc_log_error_time := t, lc_log_disk_full_time := u\<rparr>" for d e
      by (intro exI [of _ e] exI [of _ d]) simp
    have n: "\<exists>t u. slcf = slcf\<lparr>lc_log_error_time := t, lc_log_disk_full_time := u\<rparr>"
      using same_conf_refl [of slcf] by (simp add: same_conf_def)
    show ?thesis using a b c n by (auto simp: log_file_def Let_def split: write_result.split)
  qed
  then show ?thesis by (simp add: same_conf_def)
qed

lemma log_hit_keeps:
  "same_conf (rs_conf st) (rs_conf (log_hit he r hit st)) \<and> rs_zones (log_hit he r hit st) = rs_zones st
   \<and> rs_ctx (log_hit he r hit st) = rs_ctx st"
  using log_file_conf same_conf_refl
  by (auto simp: log_hit_def ngx_http_shield_write_log_def Let_def split: prod.split)

lemma act_total:
  assumes "state_ok he st"
  shows "\<exists>st'. ngx_http_shield_act he r hit st =
      Some (if lc_mode (rs_conf st) = SHIELD_BLOCK then NGX_HTTP (lc_status (rs_conf st)) else NGX_DECLINED, st')
    \<and> state_ok he st' \<and> rs_ctx st' = rs_ctx st \<and> same_conf (rs_conf st) (rs_conf st')"
proof -
  let ?c = "rs_conf st"
  obtain zs where zs: "(if lc_ban_zone ?c \<noteq> NULL_PTR
        then map_option (ngx_http_shield_ban_count ?c hit) (ngx_http_shield_ban_record he r ?c (rs_zones st))
        else Some (rs_zones st)) = Some zs" "zones_ok zs" "zone_ready ?c zs"
  proof (cases "lc_ban_zone ?c = NULL_PTR")
    case True
    then show ?thesis using that assms by (simp add: state_ok_def)
  next
    case False
    obtain zs where r: "ngx_http_shield_ban_record he r ?c (rs_zones st) = Some zs" "zones_ok zs" "zone_of ?c zs \<noteq> None"
      using record_total [of he "rs_zones st" ?c r] assms False by (auto simp: state_ok_def zone_ready_def)
    show ?thesis
      by (rule that [of "ngx_http_shield_ban_count ?c hit zs"])
        (use r count_total [OF r(2)] False in \<open>simp_all add: zone_ready_def\<close>)
  qed
  let ?st = "log_hit he r hit (st\<lparr>rs_zones := zs\<rparr>)"
  note k = log_hit_keeps [of "st\<lparr>rs_zones := zs\<rparr>" he r hit]
  have "state_ok he ?st" using assms zs(2,3) k same_confD [of ?c "rs_conf ?st"] by (simp add: state_ok_def zone_ready_def)
  then show ?thesis using zs(1) k by (simp add: ngx_http_shield_act_def Let_def)
qed

section \<open>The handler\<close>

text \<open>
  The outcomes of the first pass.  It declines after a hit in detect mode or after a failed inspection
  in detect mode, or when the request is clean and its body is not to be read; it suspends the phase
  only for a request whose line and headers are clean.
\<close>

lemma act_rc:
  "ngx_http_shield_act he r hit st = Some (rc, st') \<Longrightarrow>
     rc = (if lc_mode (rs_conf st) = SHIELD_BLOCK then NGX_HTTP (lc_status (rs_conf st)) else NGX_DECLINED)"
  by (auto simp: ngx_http_shield_act_def Let_def split: option.splits if_splits)

lemma act_conf: "ngx_http_shield_act he r hit st = Some (rc, st') \<Longrightarrow> same_conf (rs_conf st) (rs_conf st')"
  using log_hit_keeps [of "st\<lparr>rs_zones := zs\<rparr>" he r hit for zs]
  by (auto simp: ngx_http_shield_act_def Let_def split: option.splits if_splits)

lemma act_ctx: "ngx_http_shield_act he r hit st = Some (rc, st') \<Longrightarrow> rs_ctx st' = rs_ctx st"
  using log_hit_keeps [of "st\<lparr>rs_zones := zs\<rparr>" he r hit for zs]
  by (auto simp: ngx_http_shield_act_def Let_def split: option.splits if_splits)

lemma inspect_total:
  assumes "state_ok he st" and "rs_ctx st = None"
  shows "\<exists>rc st'. handler_inspect he r st = Some (rc, st') \<and> state_ok he st' \<and> same_conf (rs_conf st) (rs_conf st')
    \<and> (rc = NGX_DONE \<longrightarrow> rs_ctx st' \<noteq> None)"
proof -
  obtain rc hit pool where i: "ngx_http_shield_inspect_prebody (he_env he) (rs_pool st) r (rs_conf st) hit0 = ((rc, hit), pool)"
    by (metis surj_pair)
  have ok: "state_ok he (st\<lparr>rs_pool := p\<rparr>)" "state_ok he (st\<lparr>rs_pool := p, rs_ctx := c\<rparr>)" for p c
    using assms(1) by (simp_all add: state_ok_def)
  show ?thesis
  proof (cases "rc = NGX_OK")
    case True
    obtain st2 where "ngx_http_shield_act he r hit (st\<lparr>rs_pool := pool\<rparr>) =
        Some (if lc_mode (rs_conf st) = SHIELD_BLOCK then NGX_HTTP (lc_status (rs_conf st)) else NGX_DECLINED, st2)"
        "state_ok he st2" "same_conf (rs_conf st) (rs_conf st2)"
      using act_total [OF ok(1) [of pool], of r hit] by auto
    then show ?thesis using True i by (simp add: handler_inspect_def Let_def)
  next
    case False
    then show ?thesis using i ok same_conf_refl
      by (auto simp: handler_inspect_def ngx_http_shield_fail_def Let_def split: prod.split)
  qed
qed

text \<open>The first pass finds nothing, and the allocation that follows it, of the context, fails.\<close>

definition no_ctx :: "handler_env \<Rightarrow> ngx_http_request_t \<Rightarrow> pool \<Rightarrow> ngx_http_shield_loc_conf_t \<Rightarrow> bool" where
  "no_ctx he r pool slcf \<longleftrightarrow> (case ngx_http_shield_inspect_prebody (he_env he) pool r slcf hit0 of
     ((rc, hit), pool') \<Rightarrow> rc = NGX_DECLINED \<and> \<not> fst (palloc pool'))"

lemma inspect_cases:
  assumes "globals_ok (e_globals (he_env he))" and "handler_inspect he r st = Some (rc, st')"
  shows "rc = NGX_DONE \<Longrightarrow> prebody_clean (he_env he) (rs_conf st) r \<and> rs_conf st' = rs_conf st"
    and "rc = NGX_DECLINED \<Longrightarrow> lc_mode (rs_conf st) = SHIELD_BLOCK \<Longrightarrow>
      prebody_clean (he_env he) (rs_conf st) r
      \<and> (lc_body (rs_conf st) = 0 \<or> \<not> ngx_http_shield_scannable_body (he_env he) r)"
    and "lc_mode (rs_conf st) \<noteq> SHIELD_BLOCK \<Longrightarrow>
      rc \<in> {NGX_DECLINED, NGX_DONE} \<or> special_response (he_read_body he) \<and> rc = he_read_body he
      \<or> rc = NGX_ERROR \<and> lc_body (rs_conf st) \<noteq> 0 \<and> ngx_http_shield_scannable_body (he_env he) r
        \<and> prebody_clean (he_env he) (rs_conf st) r \<and> no_ctx he r (rs_pool st) (rs_conf st)"
proof -
  obtain rc0 hit pool where i: "ngx_http_shield_inspect_prebody (he_env he) (rs_pool st) r (rs_conf st) hit0 = ((rc0, hit), pool)"
    by (metis surj_pair)
  note unf = assms(2) [unfolded handler_inspect_def Let_def i prod.case]
  have rcs: "rc0 = NGX_DECLINED \<Longrightarrow> prebody_clean (he_env he) (rs_conf st) r"
    using prebody_declined [OF assms(1) i] by blast
  have three: "rc0 \<in> {NGX_OK, NGX_DECLINED, NGX_ERROR}" by (rule prebody_rc [OF assms(1) i])
  show "rc = NGX_DONE \<Longrightarrow> prebody_clean (he_env he) (rs_conf st) r \<and> rs_conf st' = rs_conf st"
    using unf three rcs by (auto simp: ngx_http_shield_fail_def special_response_def
        split: if_splits option.splits prod.splits ngx_rc.splits dest: act_rc)
  show "rc = NGX_DECLINED \<Longrightarrow> lc_mode (rs_conf st) = SHIELD_BLOCK \<Longrightarrow> prebody_clean (he_env he) (rs_conf st) r
      \<and> (lc_body (rs_conf st) = 0 \<or> \<not> ngx_http_shield_scannable_body (he_env he) r)"
    using unf three rcs by (auto simp: ngx_http_shield_fail_def special_response_def
        split: if_splits option.splits prod.splits ngx_rc.splits dest: act_rc)
  show "lc_mode (rs_conf st) \<noteq> SHIELD_BLOCK \<Longrightarrow>
      rc \<in> {NGX_DECLINED, NGX_DONE} \<or> special_response (he_read_body he) \<and> rc = he_read_body he
      \<or> rc = NGX_ERROR \<and> lc_body (rs_conf st) \<noteq> 0 \<and> ngx_http_shield_scannable_body (he_env he) r
        \<and> prebody_clean (he_env he) (rs_conf st) r \<and> no_ctx he r (rs_pool st) (rs_conf st)"
    using unf three rcs by (auto simp: no_ctx_def i ngx_http_shield_fail_def split: if_splits option.splits prod.splits dest: act_rc)
qed

text \<open>The handler on a request it has not seen: nothing, a ban in force, or the first pass.\<close>

definition passes_by :: "ngx_http_request_t \<Rightarrow> req_state \<Rightarrow> bool" where
  "passes_by r st \<longleftrightarrow> \<not> r_main r \<or> lc_mode (rs_conf st) = SHIELD_OFF"

definition ban_check :: "handler_env \<Rightarrow> ngx_http_request_t \<Rightarrow> req_state \<Rightarrow> (bool \<times> zones) option" where
  "ban_check he r st = (if lc_ban_zone (rs_conf st) = NULL_PTR then Some (False, rs_zones st)
     else ngx_http_shield_ban_is_banned he r (rs_conf st) (rs_zones st))"

lemma handler_first:
  assumes "\<not> passes_by r st" and "rs_ctx st = None"
  shows "ngx_http_shield_handler he r st = (case ban_check he r st of None \<Rightarrow> None
    | Some (banned, zs) \<Rightarrow> if banned then Some (NGX_HTTP (lc_status (rs_conf st)), st\<lparr>rs_zones := zs\<rparr>)
        else handler_inspect he r (st\<lparr>rs_zones := zs\<rparr>))"
  using assms by (simp add: ngx_http_shield_handler_def passes_by_def ban_check_def Let_def)

lemma handler_again:
  assumes "\<not> passes_by r st" and "rs_ctx st = Some status"
  shows "ngx_http_shield_handler he r st = Some (status, st)"
  using assms by (simp add: ngx_http_shield_handler_def passes_by_def Let_def)

lemma ban_check_total:
  assumes "state_ok he st"
  shows "\<exists>banned zs. ban_check he r st = Some (banned, zs) \<and> state_ok he (st\<lparr>rs_zones := zs\<rparr>)"
proof (cases "lc_ban_zone (rs_conf st) = NULL_PTR")
  case True
  then have "ban_check he r st = Some (False, rs_zones st)" "st\<lparr>rs_zones := rs_zones st\<rparr> = st" by (simp_all add: ban_check_def)
  then show ?thesis using assms by metis
next
  case False
  then obtain b zs where "ngx_http_shield_ban_is_banned he r (rs_conf st) (rs_zones st) = Some (b, zs)"
      "zones_ok zs" "zone_of (rs_conf st) zs \<noteq> None"
    using is_banned_total [of "rs_zones st" "rs_conf st" he r] assms by (auto simp: state_ok_def zone_ready_def)
  then show ?thesis using False assms by (simp add: ban_check_def state_ok_def zone_ready_def)
qed

lemma body_handler_total:
  assumes "state_ok he st" and "rs_ctx st \<noteq> None"
  shows "\<exists>st' status. ngx_http_shield_body_handler he r st = Some st' \<and> state_ok he st' \<and> rs_ctx st' = Some status
    \<and> same_conf (rs_conf st) (rs_conf st')"
proof -
  obtain rc hit pool where i: "ngx_http_shield_inspect_body (he_env he) (rs_pool st) r (rs_conf st) hit0 = ((rc, hit), pool)"
    by (metis surj_pair)
  obtain c where c: "rs_ctx st = Some c" using assms(2) by blast
  have ok: "state_ok he (st\<lparr>rs_pool := pool\<rparr>)" using assms(1) by (simp add: state_ok_def)
  show ?thesis
  proof (cases "rc = NGX_OK")
    case True
    obtain rc' st2 where "ngx_http_shield_act he r hit (st\<lparr>rs_pool := pool\<rparr>) = Some (rc', st2)"
        "state_ok he st2" "same_conf (rs_conf st) (rs_conf st2)"
      using act_total [OF ok, of r hit] by auto
    then show ?thesis using True i c by (simp add: ngx_http_shield_body_handler_def Let_def state_ok_def)
  next
    case False
    then show ?thesis using i c ok same_conf_refl [of "rs_conf st"]
      by (simp add: ngx_http_shield_body_handler_def Let_def state_ok_def)
  qed
qed

lemma body_handler_ctx:
  "ngx_http_shield_body_handler he r st = Some st' \<Longrightarrow> \<exists>status. rs_ctx st' = Some status \<and> same_conf (rs_conf st) (rs_conf st')"
  using same_conf_refl [of "rs_conf st"]
  by (auto simp: ngx_http_shield_body_handler_def Let_def split: option.splits prod.splits if_splits dest!: act_conf)

lemma handler_total:
  assumes "state_ok he st" and "rs_ctx st = None"
  shows "\<exists>rc st'. ngx_http_shield_handler he r st = Some (rc, st') \<and> state_ok he st'
    \<and> same_conf (rs_conf st) (rs_conf st') \<and> (rc = NGX_DONE \<longrightarrow> \<not> passes_by r st \<and> rs_ctx st' \<noteq> None)"
proof (cases "passes_by r st")
  case True
  then have "ngx_http_shield_handler he r st = Some (NGX_DECLINED, st)"
    by (auto simp: passes_by_def ngx_http_shield_handler_def Let_def)
  then show ?thesis using assms(1) same_conf_refl by blast
next
  case False
  obtain banned zs where b: "ban_check he r st = Some (banned, zs)" "state_ok he (st\<lparr>rs_zones := zs\<rparr>)"
    using ban_check_total [OF assms(1)] by blast
  obtain rc st' where "handler_inspect he r (st\<lparr>rs_zones := zs\<rparr>) = Some (rc, st')" "state_ok he st'"
      "same_conf (rs_conf st) (rs_conf st')" "rc = NGX_DONE \<longrightarrow> rs_ctx st' \<noteq> None"
    using inspect_total [OF b(2), of r] assms(2) by auto
  then show ?thesis using handler_first [OF False assms(2), of he] b False same_conf_refl [of "rs_conf st"] by simp
qed

lemma phase_total:
  assumes "state_ok he st" and "rs_ctx st = None"
  shows "\<exists>rc st'. shield_phase he r st = Some (rc, st') \<and> state_ok he st' \<and> same_conf (rs_conf st) (rs_conf st')"
proof -
  obtain rc st1 where h: "ngx_http_shield_handler he r st = Some (rc, st1)" "state_ok he st1"
      "same_conf (rs_conf st) (rs_conf st1)" "rc = NGX_DONE \<longrightarrow> \<not> passes_by r st \<and> rs_ctx st1 \<noteq> None"
    using handler_total [OF assms] by blast
  show ?thesis
  proof (cases "rc = NGX_DONE")
    case True
    then obtain st2 status where b: "ngx_http_shield_body_handler he r st1 = Some st2" "state_ok he st2"
        "rs_ctx st2 = Some status" "same_conf (rs_conf st1) (rs_conf st2)"
      using body_handler_total [OF h(2), of r] h(4) by blast
    have c: "same_conf (rs_conf st) (rs_conf st2)" by (rule same_conf_trans [OF h(3) b(4)])
    then have "\<not> passes_by r st2" using h(4) True same_confD(1) by (simp add: passes_by_def)
    then show ?thesis using handler_again [OF _ b(3), of r he] h(1) True b c by (simp add: shield_phase_def)
  next
    case False
    then show ?thesis using h by (simp add: shield_phase_def)
  qed
qed

section \<open>Verdicts\<close>

text \<open>What block mode requires of a request it lets pass.\<close>

definition inspected_clean :: "handler_env \<Rightarrow> bytes \<Rightarrow> ngx_http_request_t \<Rightarrow> ngx_http_shield_loc_conf_t \<Rightarrow> bool" where
  "inspected_clean he file r slcf \<longleftrightarrow> prebody_clean (he_env he) slcf r
     \<and> (lc_body slcf \<noteq> 0 \<longrightarrow> ngx_http_shield_scannable_body (he_env he) r \<longrightarrow>
          clean (he_env he) (lc_skip slcf OR ngx_http_shield_no_body_mask) (body_prefix file r (lc_max_body slcf)))"

definition files_read :: "bytes \<Rightarrow> ngx_http_request_t \<Rightarrow> bool" where
  "files_read file r \<longleftrightarrow> (case r_body r of None \<Rightarrow> True | Some bufs \<Rightarrow> list_all (buf_reads file) bufs)"

lemma body_handler_block:
  assumes "globals_ok (e_globals (he_env he))" and "files_read file r" and "lc_mode (rs_conf st) = SHIELD_BLOCK"
    and "ngx_http_shield_body_handler he r st = Some st'" and "rs_ctx st' = Some NGX_DECLINED"
  shows "clean (he_env he) (lc_skip (rs_conf st) OR ngx_http_shield_no_body_mask)
     (body_prefix file r (lc_max_body (rs_conf st)))"
proof -
  obtain rc hit pool where i: "ngx_http_shield_inspect_body (he_env he) (rs_pool st) r (rs_conf st) hit0 = ((rc, hit), pool)"
    by (metis surj_pair)
  obtain c where c: "rs_ctx st = Some c" using assms(4) by (auto simp: ngx_http_shield_body_handler_def split: option.splits)
  have "rc \<in> {NGX_OK, NGX_DECLINED, NGX_ERROR}"
    using i scan_r_declined(4) [OF assms(1)]
    by (auto simp: ngx_http_shield_inspect_body_def split: prod.splits option.splits if_splits)
  then have "rc = NGX_DECLINED"
    using assms(3-5) i c
    by (auto simp: ngx_http_shield_body_handler_def ngx_http_shield_fail_def Let_def split: option.splits prod.splits if_splits dest: act_rc)
  then show ?thesis using inspect_body_declined [OF assms(1)] assms(2) i unfolding files_read_def by blast
qed

text \<open>
  How a phase comes to its answer: the handler passes by, a ban is in force, the first inspection
  answers, or the body callback does and the second call returns what it stored.
\<close>

lemma phase_cases:
  assumes g: "globals_ok (e_globals (he_env he))" and c: "rs_ctx st = None" and p: "shield_phase he r st = Some (rc, st')"
  obtains (passes) "passes_by r st" "rc = NGX_DECLINED" "st' = st"
    | (banned) zs where "\<not> passes_by r st" "ban_check he r st = Some (True, zs)"
        "rc = NGX_HTTP (lc_status (rs_conf st))" "st' = st\<lparr>rs_zones := zs\<rparr>"
    | (inspected) zs where "\<not> passes_by r st" "ban_check he r st = Some (False, zs)"
        "handler_inspect he r (st\<lparr>rs_zones := zs\<rparr>) = Some (rc, st')" "rc \<noteq> NGX_DONE"
    | (body) zs st1 where "\<not> passes_by r st" "ban_check he r st = Some (False, zs)"
        "handler_inspect he r (st\<lparr>rs_zones := zs\<rparr>) = Some (NGX_DONE, st1)" "rs_conf st1 = rs_conf st"
        "prebody_clean (he_env he) (rs_conf st) r" "ngx_http_shield_body_handler he r st1 = Some st'" "rs_ctx st' = Some rc"
proof (cases "passes_by r st")
  case True
  then have "ngx_http_shield_handler he r st = Some (NGX_DECLINED, st)"
    by (auto simp: passes_by_def ngx_http_shield_handler_def Let_def)
  then have "rc = NGX_DECLINED" "st' = st" using p by (simp_all add: shield_phase_def)
  then show thesis by (rule passes [OF True])
next
  case act: False
  obtain rc1 st1 where h: "ngx_http_shield_handler he r st = Some (rc1, st1)" using p by (auto simp: shield_phase_def split: option.splits)
  note first = h [unfolded handler_first [OF act c]]
  obtain b zs where b: "ban_check he r st = Some (b, zs)" using first by (auto split: option.splits)
  consider "b" | "\<not> b" "rc1 \<noteq> NGX_DONE" | "\<not> b" "rc1 = NGX_DONE" by blast
  then show thesis
  proof cases
    case 1
    then have "rc1 = NGX_HTTP (lc_status (rs_conf st))" "st1 = st\<lparr>rs_zones := zs\<rparr>" using first b by simp_all
    then have "rc = NGX_HTTP (lc_status (rs_conf st))" "st' = st\<lparr>rs_zones := zs\<rparr>" using p h by (simp_all add: shield_phase_def)
    moreover have "ban_check he r st = Some (True, zs)" using b 1 by simp
    ultimately show thesis using banned [OF act] by blast
  next
    case 2
    then have "handler_inspect he r (st\<lparr>rs_zones := zs\<rparr>) = Some (rc1, st1)" "rc = rc1" "st' = st1"
      using first b p h by (simp_all add: shield_phase_def)
    then show thesis using inspected [OF act, of zs] b 2 by simp
  next
    case 3
    then have i: "handler_inspect he r (st\<lparr>rs_zones := zs\<rparr>) = Some (NGX_DONE, st1)" using first b by simp
    obtain st2 where s: "ngx_http_shield_body_handler he r st1 = Some st2" "ngx_http_shield_handler he r st2 = Some (rc, st')"
      using p h 3 by (auto simp: shield_phase_def split: option.splits)
    have pre: "prebody_clean (he_env he) (rs_conf st) r" "rs_conf st1 = rs_conf st" using inspect_cases(1) [OF g i] by simp_all
    obtain status where ctx: "rs_ctx st2 = Some status" "same_conf (rs_conf st1) (rs_conf st2)" using body_handler_ctx [OF s(1)] by blast
    have "\<not> passes_by r st2" using act ctx(2) pre(2) same_confD(1) by (simp add: passes_by_def)
    then have "rc = status" "st' = st2" using handler_again [OF _ ctx(1)] s(2) by simp_all
    then show thesis using body [OF act _ i] b 3 pre s(1) ctx(1) by simp
  qed
qed

lemma phase_block:
  assumes g: "globals_ok (e_globals (he_env he))" and f: "files_read file r"
    and m: "r_main r" "lc_mode (rs_conf st) = SHIELD_BLOCK" and c: "rs_ctx st = None"
    and p: "shield_phase he r st = Some (NGX_DECLINED, st')"
  shows "inspected_clean he file r (rs_conf st)"
  using g c p
proof (cases rule: phase_cases)
  case passes
  then show ?thesis using m by (simp add: passes_by_def SHIELD_OFF_def SHIELD_BLOCK_def)
next
  case (inspected zs)
  then show ?thesis using inspect_cases(2) [OF g inspected(3)] m(2) by (auto simp: inspected_clean_def)
next
  case (body zs st1)
  then show ?thesis using body_handler_block [OF g f _ body(6)] m(2) by (simp add: inspected_clean_def)
qed simp

text \<open>
  In detect mode the request is served, unless its client is banned, the body could not be received,
  or the context of the request could not be allocated.
\<close>

lemma body_handler_detect:
  assumes "lc_mode (rs_conf st) \<noteq> SHIELD_BLOCK" and "ngx_http_shield_body_handler he r st = Some st'"
  shows "rs_ctx st' = Some NGX_DECLINED"
  using assms by (auto simp: ngx_http_shield_body_handler_def ngx_http_shield_fail_def Let_def
      split: option.splits prod.splits if_splits dest: act_rc)

lemma phase_detect:
  assumes g: "globals_ok (e_globals (he_env he))" and m: "lc_mode (rs_conf st) = SHIELD_DETECT" and c: "rs_ctx st = None"
    and p: "shield_phase he r st = Some (rc, st')"
  shows "rc = NGX_DECLINED \<or> (\<exists>zs. ban_check he r st = Some (True, zs)) \<and> rc = NGX_HTTP (lc_status (rs_conf st))
    \<or> special_response (he_read_body he) \<and> rc = he_read_body he
    \<or> rc = NGX_ERROR \<and> lc_body (rs_conf st) \<noteq> 0 \<and> ngx_http_shield_scannable_body (he_env he) r
      \<and> prebody_clean (he_env he) (rs_conf st) r \<and> no_ctx he r (rs_pool st) (rs_conf st)"
  using g c p
proof (cases rule: phase_cases)
  case (inspected zs)
  then show ?thesis using inspect_cases(3) [OF g inspected(3)] m by (auto simp: SHIELD_BLOCK_def SHIELD_DETECT_def)
next
  case (body zs st1)
  then show ?thesis using body_handler_detect [OF _ body(6)] m by (auto simp: SHIELD_BLOCK_def SHIELD_DETECT_def)
qed simp_all

text \<open>An attack in the request line or the headers gets the configured status when memory suffices.\<close>

lemma phase_attack:
  assumes g: "globals_ok (e_globals (he_env he))" and ok: "state_ok he st" and pool: "list_all (\<lambda>b. b) (rs_pool st)"
    and m: "r_main r" "lc_mode (rs_conf st) = SHIELD_BLOCK" and c: "rs_ctx st = None"
    and attack: "\<not> prebody_clean (he_env he) (rs_conf st) r"
  shows "\<exists>st'. shield_phase he r st = Some (NGX_HTTP (lc_status (rs_conf st)), st') \<and> state_ok he st'"
proof -
  have act: "\<not> passes_by r st" using m by (simp add: passes_by_def SHIELD_OFF_def SHIELD_BLOCK_def)
  obtain banned zs where b: "ban_check he r st = Some (banned, zs)" "state_ok he (st\<lparr>rs_zones := zs\<rparr>)"
    using ban_check_total [OF ok] by blast
  obtain rc hit p where i: "ngx_http_shield_inspect_prebody (he_env he) (rs_pool st) r (rs_conf st) hit0 = ((rc, hit), p)"
    by (metis surj_pair)
  have "rc = NGX_OK" using prebody_declined [OF g i] prebody_rc [OF g i] attack pool by auto
  moreover have ok2: "state_ok he (st\<lparr>rs_zones := zs, rs_pool := p\<rparr>)" using b(2) by (simp add: state_ok_def)
  obtain st2 where "ngx_http_shield_act he r hit (st\<lparr>rs_zones := zs, rs_pool := p\<rparr>) = Some (NGX_HTTP (lc_status (rs_conf st)), st2)"
      "state_ok he st2"
    using act_total [OF ok2, of r hit] m(2) by auto
  ultimately have "handler_inspect he r (st\<lparr>rs_zones := zs\<rparr>) = Some (NGX_HTTP (lc_status (rs_conf st)), st2)" "state_ok he st2"
    using i by (simp_all add: handler_inspect_def Let_def)
  then show ?thesis using b handler_first [OF act c, of he] by (simp add: shield_phase_def)
qed

text \<open>A clean request without a body to read passes, and leaves no trace but the ban check.\<close>

lemma phase_clean:
  assumes g: "globals_ok (e_globals (he_env he))" and pool: "list_all (\<lambda>b. b) (rs_pool st)"
    and act: "\<not> passes_by r st" and c: "rs_ctx st = None" and b: "ban_check he r st = Some (False, zs)"
    and cl: "prebody_clean (he_env he) (rs_conf st) r"
    and nobody: "lc_body (rs_conf st) = 0 \<or> \<not> ngx_http_shield_scannable_body (he_env he) r"
  shows "\<exists>pool'. shield_phase he r st = Some (NGX_DECLINED, st\<lparr>rs_zones := zs, rs_pool := pool'\<rparr>)"
proof -
  obtain rc hit p where i: "ngx_http_shield_inspect_prebody (he_env he) (rs_pool st) r (rs_conf st) hit0 = ((rc, hit), p)"
    by (metis surj_pair)
  have "rc = NGX_DECLINED" using prebody_declined [OF g i] cl pool by auto
  then have "handler_inspect he r (st\<lparr>rs_zones := zs\<rparr>) = Some (NGX_DECLINED, st\<lparr>rs_zones := zs, rs_pool := p\<rparr>)"
    using i nobody by (simp add: handler_inspect_def Let_def)
  then have "shield_phase he r st = Some (NGX_DECLINED, st\<lparr>rs_zones := zs, rs_pool := p\<rparr>)"
    using b handler_first [OF act c, of he] by (simp add: shield_phase_def)
  then show ?thesis by blast
qed

section \<open>Answers\<close>

text \<open>The answers a location can give.\<close>

definition answers :: "handler_env \<Rightarrow> ngx_http_shield_loc_conf_t \<Rightarrow> ngx_rc \<Rightarrow> bool" where
  "answers he slcf rc \<longleftrightarrow> rc \<in> {NGX_DECLINED, NGX_ERROR, NGX_HTTP (lc_status slcf), NGX_HTTP NGX_HTTP_INTERNAL_SERVER_ERROR}
     \<or> special_response (he_read_body he) \<and> rc = he_read_body he"

lemma inspect_answers:
  assumes "handler_inspect he r st = Some (rc, st')"
  shows "rc = NGX_DONE \<or> answers he (rs_conf st) rc"
proof -
  obtain rc0 hit pool where i: "ngx_http_shield_inspect_prebody (he_env he) (rs_pool st) r (rs_conf st) hit0 = ((rc0, hit), pool)"
    by (metis surj_pair)
  show ?thesis using assms [unfolded handler_inspect_def Let_def i prod.case]
    by (auto simp: answers_def ngx_http_shield_fail_def split: if_splits option.splits prod.splits dest: act_rc)
qed

lemma body_handler_answers:
  assumes "ngx_http_shield_body_handler he r st = Some st'" and "rs_ctx st' = Some rc"
  shows "answers he (rs_conf st) rc"
  using assms by (auto simp: answers_def ngx_http_shield_body_handler_def ngx_http_shield_fail_def Let_def
      split: option.splits prod.splits if_splits dest: act_rc)

lemma phase_answers:
  assumes g: "globals_ok (e_globals (he_env he))" and c: "rs_ctx st = None" and p: "shield_phase he r st = Some (rc, st')"
  shows "answers he (rs_conf st) rc"
  using g c p
proof (cases rule: phase_cases)
  case (inspected zs)
  then show ?thesis using inspect_answers [OF inspected(3)] by simp
next
  case (body zs st1)
  then show ?thesis using body_handler_answers [OF body(6,7)] by simp
qed (simp_all add: answers_def)

end
