(* ===== verification/Handler_Verdict.thy ===== *)
theory Handler_Verdict
  imports Handler_Correct
begin

text \<open>
  The verdict of the phase when nothing fails: with memory and a readable body, block mode refuses
  exactly the requests that are not clean, in their line, their headers or the inspected part of their
  body, and every mode lets clean requests pass.
\<close>

section \<open>Readable bodies\<close>

text \<open>A reader that makes progress inside its file, and a buffer that lies inside the file.\<close>

definition serves_file :: "(int \<Rightarrow> nat \<Rightarrow> bytes option) \<Rightarrow> bytes \<Rightarrow> bool" where
  "serves_file rd file \<longleftrightarrow> reads_file rd file
     \<and> (\<forall>off n. 0 \<le> off \<longrightarrow> off < int (length file) \<longrightarrow> 0 < n \<longrightarrow> (\<exists>d. rd off n = Some d \<and> d \<noteq> []))"

fun buf_served :: "bytes \<Rightarrow> body_buf \<Rightarrow> bool" where
  "buf_served file (FileBuf pos n rd) \<longleftrightarrow> 0 \<le> pos \<and> pos + int n \<le> int (length file) \<and> serves_file rd file"
| "buf_served file b \<longleftrightarrow> True"

definition body_served :: "bytes \<Rightarrow> ngx_http_request_t \<Rightarrow> bool" where
  "body_served file r \<longleftrightarrow> (case r_body r of None \<Rightarrow> True | Some bufs \<Rightarrow> list_all (buf_served file) bufs)"

lemma buf_served_reads: "buf_served file b \<Longrightarrow> buf_reads file b"
  by (cases b) (auto simp: serves_file_def)

lemma body_served_reads: "body_served file r \<Longrightarrow> files_read file r"
  using buf_served_reads by (auto simp: body_served_def files_read_def list_all_iff split: option.splits)

text \<open>The read loop returns: every read brings it closer to the end of the buffer.\<close>

lemma read_file_loop_total:
  assumes "serves_file rd file" and "0 \<le> off" and "off + int need \<le> int (length file)"
  shows "\<exists>d. read_file_loop rd off need acc = Some d"
  using assms
proof (induction rd off need acc rule: read_file_loop.induct)
  case (1 rd off need acc)
  show ?case
  proof (cases "need = 0")
    case True
    then show ?thesis by (subst read_file_loop.simps) simp
  next
    case False
    then have "0 < need" "off < int (length file)" using "1.prems"(3) by simp_all
    then obtain d where d: "rd off need = Some d" "d \<noteq> []" using "1.prems"(1,2) unfolding serves_file_def by blast
    have "length d \<le> need" using "1.prems"(1) d(1) unfolding serves_file_def reads_file_def by blast
    then have "off + int (length d) + int (need - length d) \<le> int (length file)" using "1.prems"(3) by simp
    then obtain x where "read_file_loop rd (off + int (length d)) (need - length d) (acc @ d) = Some x"
      using "1.IH" [OF False d "1.prems"(1)] "1.prems"(2) by auto
    then show ?thesis using False d by (subst read_file_loop.simps) simp
  qed
qed

lemma collect_bufs_total: "list_all (buf_served file) bs \<Longrightarrow> \<exists>body. collect_bufs mx acc bs = Some body"
proof (induction bs arbitrary: acc)
  case (Cons b bs)
  show ?case
  proof (cases b)
    case (FileBuf pos n rd)
    have "pos + int (min n (mx - length acc)) \<le> pos + int n" by simp
    also have "\<dots> \<le> int (length file)" using Cons.prems FileBuf by simp
    finally obtain d where "read_file_loop rd pos (min n (mx - length acc)) [] = Some d"
      using read_file_loop_total [of rd "file" pos "min n (mx - length acc)" "[]"] Cons.prems FileBuf by auto
    then show ?thesis using Cons FileBuf by simp
  qed (use Cons in auto)
qed simp

section \<open>Inspection without faults\<close>

abbreviation no_faults :: "pool \<Rightarrow> bool" where
  "no_faults pool \<equiv> list_all (\<lambda>b. b) pool"

lemma palloc_served: "no_faults pool \<Longrightarrow> \<exists>p. palloc pool = (True, p) \<and> no_faults p"
  by (cases pool) (simp_all add: palloc_def)

lemma collect_body_total:
  assumes "body_served file r" and "no_faults pool"
  shows "\<exists>p. ngx_http_shield_collect_body pool r mx = (Some (body_prefix file r mx), p) \<and> no_faults p"
proof -
  obtain p where p: "palloc pool = (True, p)" "no_faults p" using palloc_served [OF assms(2)] by blast
  have "\<exists>body p'. ngx_http_shield_collect_body pool r mx = (Some body, p') \<and> no_faults p'"
    using p assms collect_bufs_total [of "file"]
    by (cases "r_body r") (auto simp: ngx_http_shield_collect_body_def body_served_def Let_def)
  then show ?thesis using collect_body_correct body_served_reads [OF assms(1)] unfolding files_read_def by metis
qed

lemma inspect_body_verdict:
  assumes g: "globals_ok (e_globals env)" and b: "body_served file r" and n: "no_faults pool"
    and i: "ngx_http_shield_inspect_body env pool r slcf hit = ((rc, hit'), pool')"
  shows "rc = (if clean env (lc_skip slcf OR ngx_http_shield_no_body_mask) (body_prefix file r (lc_max_body slcf)) then NGX_DECLINED else NGX_OK)"
proof -
  let ?body = "body_prefix file r (lc_max_body slcf)" and ?skip = "lc_skip slcf OR ngx_http_shield_no_body_mask"
  obtain p where p: "ngx_http_shield_collect_body pool r (lc_max_body slcf) = (Some ?body, p)" "no_faults p"
    using collect_body_total [OF b n] by blast
  show ?thesis
  proof (cases "?body = []")
    case True
    then show ?thesis using i p(1) by (simp add: ngx_http_shield_inspect_body_def)
  next
    case False
    then have s: "ngx_http_shield_scan_r env p ?body ''body'' ?skip hit = ((rc, hit'), pool')"
      using i p(1) by (simp add: ngx_http_shield_inspect_body_def)
    show ?thesis using scan_r_declined(1-4) [OF g s] p(2) by auto
  qed
qed

text \<open>What an inspection leaves of a pool without faults has none.\<close>

lemma palloc_pool: "no_faults pool \<Longrightarrow> no_faults (snd (palloc pool))"
  using palloc_served [of pool] by auto

lemma scan_r_pool: "no_faults pool \<Longrightarrow> no_faults (snd (ngx_http_shield_scan_r env pool d source skip hit))"
  using palloc_pool [OF palloc_pool, of pool] by (auto simp: ngx_http_shield_scan_r_def split: prod.split)

lemma scan_headers_pool: "no_faults pool \<Longrightarrow> no_faults (snd (scan_headers env skip pool hs hit))"
proof (induction hs arbitrary: pool hit)
  case (Cons h hs)
  have "no_faults pool1" if "ngx_http_shield_scan_r env pool d source sk hit = (res, pool1)" for d source sk res pool1
    using scan_r_pool [OF Cons.prems, of env d source sk hit] that by simp
  then show ?case using Cons by (auto split: prod.split)
qed simp

lemma scan_target_pool: "no_faults pool \<Longrightarrow> no_faults (snd (scan_target env skip pool uri hit))"
proof -
  assume n: "no_faults pool"
  have "no_faults pool1" if "ngx_http_shield_scan_r env pool d source sk hit = (res, pool1)" for d source sk res pool1
    using scan_r_pool [OF n, of env d source sk hit] that by simp
  then show ?thesis using n scan_r_pool by (auto simp: scan_target_def Let_def split: prod.split)
qed

lemma prebody_pool: "no_faults pool \<Longrightarrow> no_faults (snd (ngx_http_shield_inspect_prebody env pool r slcf hit))"
proof -
  assume n: "no_faults pool"
  have "no_faults pool5" if "scan_target env skip pool uri h = (res, pool5)" for skip uri h res pool5
    using scan_target_pool [OF n, of env skip uri h] that by simp
  then show ?thesis using n scan_headers_pool by (auto simp: ngx_http_shield_inspect_prebody_def split: prod.split)
qed

lemma body_pool: "no_faults pool \<Longrightarrow> no_faults (snd (ngx_http_shield_inspect_body env pool r slcf hit))"
proof -
  assume n: "no_faults pool"
  have "no_faults pool1" if "ngx_http_shield_collect_body pool r mx = (res, pool1)" for mx res pool1
    using that n palloc_pool [OF n] by (auto simp: ngx_http_shield_collect_body_def Let_def split: option.splits if_splits prod.splits)
  then show ?thesis using scan_r_pool by (auto simp: ngx_http_shield_inspect_body_def split: prod.split option.split)
qed

section \<open>The phase without faults\<close>

text \<open>A request nothing stands in the way of: memory, a body that can be received and read, no ban in force.\<close>

definition faultless :: "handler_env \<Rightarrow> bytes \<Rightarrow> ngx_http_request_t \<Rightarrow> req_state \<Rightarrow> bool" where
  "faultless he file r st \<longleftrightarrow> no_faults (rs_pool st) \<and> body_served file r \<and> \<not> special_response (he_read_body he)"

definition to_inspect :: "handler_env \<Rightarrow> ngx_http_request_t \<Rightarrow> ngx_http_shield_loc_conf_t \<Rightarrow> bool" where
  "to_inspect he r slcf \<longleftrightarrow> lc_body slcf \<noteq> 0 \<and> ngx_http_shield_scannable_body (he_env he) r"

text \<open>After a clean first inspection a body to inspect suspends the phase, any other request passes.\<close>

lemma inspect_clean:
  assumes g: "globals_ok (e_globals (he_env he))" and f: "faultless he file r st" and pre: "prebody_clean (he_env he) (rs_conf st) r"
  shows "\<exists>p. no_faults p \<and> handler_inspect he r st =
    (if to_inspect he r (rs_conf st) then Some (NGX_DONE, st\<lparr>rs_pool := p, rs_ctx := Some NGX_DECLINED\<rparr>) else Some (NGX_DECLINED, st\<lparr>rs_pool := p\<rparr>))"
proof -
  obtain rc hit p where i: "ngx_http_shield_inspect_prebody (he_env he) (rs_pool st) r (rs_conf st) hit0 = ((rc, hit), p)" by (metis surj_pair)
  have rc: "rc = NGX_DECLINED" using prebody_declined [OF g i] pre f by (auto simp: faultless_def)
  have p: "no_faults p" using prebody_pool [of "rs_pool st" "he_env he" r "rs_conf st" hit0] i f by (simp add: faultless_def)
  obtain p' where "palloc p = (True, p')" "no_faults p'" using palloc_served [OF p] by blast
  then show ?thesis using i rc p f by (auto simp: handler_inspect_def to_inspect_def faultless_def)
qed

lemma body_handler_verdict:
  assumes g: "globals_ok (e_globals (he_env he))" and ok: "state_ok he st" and f: "faultless he file r st" and c: "rs_ctx st = Some x"
  defines "cl \<equiv> clean (he_env he) (lc_skip (rs_conf st) OR ngx_http_shield_no_body_mask) (body_prefix file r (lc_max_body (rs_conf st)))"
  shows "\<exists>st'. ngx_http_shield_body_handler he r st = Some st' \<and> state_ok he st' \<and> same_conf (rs_conf st) (rs_conf st')
    \<and> rs_ctx st' = Some (if cl \<or> lc_mode (rs_conf st) \<noteq> SHIELD_BLOCK then NGX_DECLINED else NGX_HTTP (lc_status (rs_conf st)))
    \<and> (cl \<longrightarrow> rs_zones st' = rs_zones st \<and> rs_log st' = rs_log st)"
proof -
  obtain rc hit p where i: "ngx_http_shield_inspect_body (he_env he) (rs_pool st) r (rs_conf st) hit0 = ((rc, hit), p)" by (metis surj_pair)
  have rc: "rc = (if cl then NGX_DECLINED else NGX_OK)"
    unfolding cl_def by (rule inspect_body_verdict [OF g _ _ i]) (use f in \<open>simp_all add: faultless_def\<close>)
  have ok1: "state_ok he (st\<lparr>rs_pool := p\<rparr>)" using ok by (simp add: state_ok_def)
  obtain st2 where a: "ngx_http_shield_act he r hit (st\<lparr>rs_pool := p\<rparr>) =
      Some (if lc_mode (rs_conf st) = SHIELD_BLOCK then NGX_HTTP (lc_status (rs_conf st)) else NGX_DECLINED, st2)"
      "state_ok he st2" "same_conf (rs_conf st) (rs_conf st2)"
    using act_total [OF ok1, of r hit] by auto
  have "state_ok he (st2\<lparr>rs_ctx := y\<rparr>)" "state_ok he (st\<lparr>rs_pool := p, rs_ctx := y\<rparr>)" for y
    using a(2) ok by (simp_all add: state_ok_def)
  then show ?thesis using i rc a c same_conf_refl by (simp add: ngx_http_shield_body_handler_def Let_def)
qed

lemma attack_verdict:
  assumes g: "globals_ok (e_globals (he_env he))" and ok: "state_ok he st" and n: "no_faults (rs_pool st)"
    and attack: "\<not> prebody_clean (he_env he) (rs_conf st) r"
  shows "\<exists>st'. handler_inspect he r st =
      Some (if lc_mode (rs_conf st) = SHIELD_BLOCK then NGX_HTTP (lc_status (rs_conf st)) else NGX_DECLINED, st') \<and> state_ok he st'"
proof -
  obtain rc hit p where i: "ngx_http_shield_inspect_prebody (he_env he) (rs_pool st) r (rs_conf st) hit0 = ((rc, hit), p)" by (metis surj_pair)
  have "rc = NGX_OK" using prebody_declined [OF g i] prebody_rc [OF g i] attack n by auto
  moreover have "state_ok he (st\<lparr>rs_pool := p\<rparr>)" using ok by (simp add: state_ok_def)
  ultimately show ?thesis using act_total [of he "st\<lparr>rs_pool := p\<rparr>" r hit] i by (fastforce simp: handler_inspect_def Let_def)
qed

text \<open>Past the ban check the phase is the inspection, resumed once when a body was read.\<close>

lemma phase_unbanned:
  assumes "\<not> passes_by r st" and "rs_ctx st = None" and "ban_check he r st = Some (False, zs)"
  shows "shield_phase he r st = (case handler_inspect he r (st\<lparr>rs_zones := zs\<rparr>) of None \<Rightarrow> None | Some (rc, st1) \<Rightarrow>
      if rc = NGX_DONE then (case ngx_http_shield_body_handler he r st1 of None \<Rightarrow> None | Some st2 \<Rightarrow> ngx_http_shield_handler he r st2)
      else Some (rc, st1))"
  by (simp add: shield_phase_def handler_first [OF assms(1,2)] assms(3))

lemma phase_verdict:
  assumes g: "globals_ok (e_globals (he_env he))" and ok: "state_ok he st" and f: "faultless he file r st"
    and act: "\<not> passes_by r st" and c: "rs_ctx st = None" and b: "ban_check he r st = Some (False, zs)"
  shows "\<exists>st'. shield_phase he r st =
      Some (if inspected_clean he file r (rs_conf st) \<or> lc_mode (rs_conf st) \<noteq> SHIELD_BLOCK then NGX_DECLINED else NGX_HTTP (lc_status (rs_conf st)), st')
    \<and> state_ok he st' \<and> (inspected_clean he file r (rs_conf st) \<longrightarrow> rs_zones st' = zs \<and> rs_log st' = rs_log st)"
proof -
  let ?st = "st\<lparr>rs_zones := zs\<rparr>"
  have ok1: "state_ok he ?st" using ban_check_total [OF ok, of r] b by auto
  have f1: "faultless he file r ?st" using f by (simp add: faultless_def)
  note ph = phase_unbanned [OF act c b]
  show ?thesis
  proof (cases "prebody_clean (he_env he) (rs_conf st) r")
    case False
    then have "\<not> inspected_clean he file r (rs_conf st)" by (simp add: inspected_clean_def)
    then show ?thesis using attack_verdict [OF g ok1, of r] False f unfolding ph by (auto simp: faultless_def)
  next
    case True
    obtain p where p: "no_faults p" "handler_inspect he r ?st =
        (if to_inspect he r (rs_conf st) then Some (NGX_DONE, ?st\<lparr>rs_pool := p, rs_ctx := Some NGX_DECLINED\<rparr>) else Some (NGX_DECLINED, ?st\<lparr>rs_pool := p\<rparr>))"
      using inspect_clean [OF g f1] True by auto
    show ?thesis
    proof (cases "to_inspect he r (rs_conf st)")
      case inspect: True
      let ?s1 = "?st\<lparr>rs_pool := p, rs_ctx := Some NGX_DECLINED\<rparr>"
      have s1: "state_ok he ?s1" "faultless he file r ?s1" using ok1 f p(1) by (simp_all add: state_ok_def faultless_def)
      obtain st2 where st2: "ngx_http_shield_body_handler he r ?s1 = Some st2" "state_ok he st2" "same_conf (rs_conf st) (rs_conf st2)"
          "rs_ctx st2 = Some (if inspected_clean he file r (rs_conf st) \<or> lc_mode (rs_conf st) \<noteq> SHIELD_BLOCK then NGX_DECLINED else NGX_HTTP (lc_status (rs_conf st)))"
          "inspected_clean he file r (rs_conf st) \<longrightarrow> rs_zones st2 = zs \<and> rs_log st2 = rs_log st"
        using body_handler_verdict [OF g s1] True inspect by (auto simp: inspected_clean_def to_inspect_def)
      have "\<not> passes_by r st2" using act st2(3) same_confD(1) by (simp add: passes_by_def)
      from handler_again [OF this st2(4)] show ?thesis unfolding ph using p(2) inspect st2 by simp
    next
      case False
      then have "inspected_clean he file r (rs_conf st)" using True by (auto simp: inspected_clean_def to_inspect_def)
      moreover have "state_ok he (?st\<lparr>rs_pool := p\<rparr>)" using ok1 by (simp add: state_ok_def)
      ultimately show ?thesis unfolding ph using p(2) False by simp
    qed
  qed
qed

text \<open>A request that is not clean is refused, also by a ban in force.\<close>

lemma phase_refuses:
  assumes g: "globals_ok (e_globals (he_env he))" and ok: "state_ok he st" and f: "faultless he file r st"
    and m: "r_main r" "lc_mode (rs_conf st) = SHIELD_BLOCK" and c: "rs_ctx st = None" and attack: "\<not> inspected_clean he file r (rs_conf st)"
  shows "\<exists>st'. shield_phase he r st = Some (NGX_HTTP (lc_status (rs_conf st)), st') \<and> state_ok he st'"
proof -
  have act: "\<not> passes_by r st" using m by (simp add: passes_by_def SHIELD_OFF_def SHIELD_BLOCK_def)
  obtain banned zs where b: "ban_check he r st = Some (banned, zs)" "state_ok he (st\<lparr>rs_zones := zs\<rparr>)"
    using ban_check_total [OF ok] by blast
  show ?thesis
  proof (cases banned)
    case True
    then show ?thesis using b by (simp add: shield_phase_def handler_first [OF act c])
  next
    case False
    then show ?thesis using phase_verdict [OF g ok f act c, of zs] b(1) m(2) attack by auto
  qed
qed

end
