(* ===== verification/Handler_Logs.thy ===== *)
theory Handler_Logs
  imports Handler_Verdict
begin

text \<open>
  What a request leaves in the log: at most one record, written for a hit whose category is enabled
  for the location and whose name is the name its number stands for, and readable as JSON.
\<close>

section \<open>Hits\<close>

definition hit_sources :: "bytes list" where
  "hit_sources = [''uri'', ''header'', ''range'', ''user-agent'', ''referer'', ''content-type'', ''body'']"

definition true_hit :: "u64 \<Rightarrow> ngx_http_shield_hit_t \<Rightarrow> bool" where
  "true_hit skip hit \<longleftrightarrow> h_category hit = ngx_http_shield_cat_name (h_cat hit) \<and> h_cat hit < CAT_N
     \<and> \<not> bit skip (h_cat hit) \<and> h_source hit \<in> set hit_sources"

lemma true_hit_of:
  assumes "c \<in> set ngx_http_shield_categories" and "\<not> bit skip (cat_val (cd_cat c))" and "source \<in> set hit_sources"
  shows "true_hit skip (hit_of c source)"
proof -
  have "ngx_http_shield_cat_name (cat_val (cd_cat c)) = cd_name c" using cat_name_table assms(1) unfolding list_all_iff by blast
  then show ?thesis using assms(2,3) cat_val_bound [of "cd_cat c"] by (simp add: true_hit_def hit_of_def)
qed

lemma true_hit_structural:
  assumes "\<not> cat_skipped slcf k" and "ngx_http_shield_cat_name (cat_val k) = nm" and "source \<in> set hit_sources"
  shows "true_hit (lc_skip slcf) (structural_hit nm k source)"
proof -
  have "\<not> bit (lc_skip slcf) (cat_val k)" using assms(1) by (simp add: cat_skipped_def mask_simps)
  then show ?thesis using assms(2,3) cat_val_bound [of k] by (simp add: true_hit_def structural_hit_def)
qed

lemma true_hit_mono: "true_hit (skip OR extra) hit \<Longrightarrow> true_hit skip hit"
  by (auto simp: true_hit_def mask_simps)

lemma scan_r_hit:
  assumes "globals_ok (e_globals env)" and "ngx_http_shield_scan_r env pool data source skip hit = ((NGX_OK, hit'), pool')"
    and "source \<in> set hit_sources"
  shows "true_hit skip hit'"
proof -
  have "ngx_http_shield_scan_input (e_globals env) data source skip hit = (NGX_OK, hit')"
    using assms(2) by (auto simp: ngx_http_shield_scan_r_def split: if_splits prod.splits)
  then obtain c where "buffer_spec (e_globals env) skip data = Some c" "hit' = hit_of c source"
    using scan_input_spec [OF assms(1), of data source skip hit] by (auto split: option.splits)
  then show ?thesis using buffer_spec_Some true_hit_of assms(3) by blast
qed

lemma scan_target_hit:
  assumes "globals_ok (e_globals env)" and "scan_target env skip pool uri hit = ((NGX_OK, hit'), pool')"
  shows "true_hit skip hit'"
proof -
  have src: "''uri'' \<in> set hit_sources" by (simp add: hit_sources_def)
  show ?thesis using assms(2) true_hit_mono scan_r_hit [OF assms(1) _ src]
    by (auto simp: scan_target_def Let_def split: if_splits prod.splits) blast+
qed

lemma header_policy_cases:
  assumes "header_policy env skip h = (source, sk)"
  shows "source \<in> set hit_sources" and "\<exists>extra. sk = skip OR extra"
proof -
  have "source \<in> {''user-agent'', ''referer'', ''content-type'', ''header''}
      \<and> (sk = skip OR 0 \<or> sk = skip OR NOT content_type_allowed \<or> sk = skip OR NOT cookie_allowed \<or> sk = skip OR NOT generic_allowed)"
    using assms unfolding header_policy_def or.right_neutral by (simp only: prod.inject split: if_splits) blast+
  then show "source \<in> set hit_sources" and "\<exists>extra. sk = skip OR extra" by (auto simp: hit_sources_def simp del: or.right_neutral)
qed

lemma scan_headers_hit:
  assumes "globals_ok (e_globals env)" and "scan_headers env skip pool hs hit = ((NGX_OK, hit'), pool')"
  shows "true_hit skip hit'"
  using assms(2)
proof (induction hs arbitrary: pool hit)
  case (Cons h hs)
  obtain source sk where p: "header_policy env skip h = (source, sk)" by fastforce
  obtain rc1 hit1 pool1 where s: "ngx_http_shield_scan_r env pool (hd_value h) source sk hit = ((rc1, hit1), pool1)"
    by (metis surj_pair)
  have "rc1 = NGX_OK \<Longrightarrow> true_hit skip hit1"
    using scan_r_hit [OF assms(1)] s header_policy_cases [OF p] true_hit_mono by blast
  then show ?case using Cons p s by (auto split: if_splits)
qed simp

lemma prebody_hit:
  assumes g: "globals_ok (e_globals env)" and i: "ngx_http_shield_inspect_prebody env pool r slcf hit = ((NGX_OK, hit'), pool')"
  shows "true_hit (lc_skip slcf) hit'"
proof -
  have src: "''header'' \<in> set hit_sources" "''range'' \<in> set hit_sources" "''uri'' \<in> set hit_sources"
    by (simp_all add: hit_sources_def)
  note st = true_hit_structural [OF _ cat_name_structural(1) src(1)] true_hit_structural [OF _ cat_name_structural(2) src(2)]
    true_hit_structural [OF _ cat_name_structural(3) src(3)] true_hit_structural [OF _ cat_name_structural(4) src(3)]
  show ?thesis using i st scan_target_hit [OF g] scan_headers_hit [OF g]
    unfolding ngx_http_shield_inspect_prebody_def ngx_http_shield_check_httpoxy_def ngx_http_shield_check_range_def
      ngx_http_shield_check_ctrl_char_def ngx_http_shield_check_dotfile_def
    by (auto split: if_splits prod.splits option.splits)
qed

lemma body_hit:
  assumes g: "globals_ok (e_globals env)" and i: "ngx_http_shield_inspect_body env pool r slcf hit = ((NGX_OK, hit'), pool')"
  shows "true_hit (lc_skip slcf) hit'"
proof -
  have src: "''body'' \<in> set hit_sources" by (simp add: hit_sources_def)
  show ?thesis using i scan_r_hit [OF g _ src] true_hit_mono
    by (auto simp: ngx_http_shield_inspect_body_def split: if_splits prod.splits option.splits) blast
qed

section \<open>Records\<close>

text \<open>The effects a request may add to the log.\<close>

definition hit_effect :: "handler_env \<Rightarrow> ngx_http_request_t \<Rightarrow> ngx_http_shield_loc_conf_t \<Rightarrow> log_effect \<Rightarrow> bool" where
  "hit_effect he r slcf eff \<longleftrightarrow>
     (\<exists>hit pool. true_hit (lc_skip slcf) hit \<and> eff = fst (ngx_http_shield_write_log (he_log he) pool r slcf hit))"

definition one_record :: "handler_env \<Rightarrow> ngx_http_request_t \<Rightarrow> req_state \<Rightarrow> req_state \<Rightarrow> bool" where
  "one_record he r st st' \<longleftrightarrow> rs_log st' = rs_log st \<or> (\<exists>eff. rs_log st' = eff # rs_log st \<and> hit_effect he r (rs_conf st) eff)"

lemma act_record:
  "ngx_http_shield_act he r hit st = Some (rc, st') \<Longrightarrow>
     rs_log st' = fst (ngx_http_shield_write_log (he_log he) (rs_pool st) r (rs_conf st) hit) # rs_log st"
  by (auto simp: ngx_http_shield_act_def log_hit_def Let_def split: option.splits prod.splits if_splits)

text \<open>With memory the record goes to every destination that takes it.\<close>

lemma write_log_served:
  assumes "no_faults pool"
  shows "lf_file (fst (ngx_http_shield_write_log le pool r slcf hit)) =
      (if lc_log slcf \<noteq> NULL_PTR \<and> le_time le \<noteq> lc_log_disk_full_time slcf then Some (log_line le r slcf hit @ [CHR 0x0A]) else None)"
    and "lf_syslog (fst (ngx_http_shield_write_log le pool r slcf hit)) =
      (if lc_syslog_peer slcf \<noteq> NULL_PTR \<and> length (log_line le r slcf hit) \<le> syslog_room (length (le_syslog_header le))
       then Some (le_syslog_header le @ log_line le r slcf hit) else None)"
proof -
  obtain p1 where p1: "palloc pool = (True, p1)" "no_faults p1" using palloc_served [OF assms] by blast
  obtain p2 where p2: "palloc p1 = (True, p2)" using palloc_served [OF p1(2)] by blast
  have f: "lf_file (log_file le line slcf) =
      (if lc_log slcf \<noteq> NULL_PTR \<and> le_time le \<noteq> lc_log_disk_full_time slcf then Some (line @ [CHR 0x0A]) else None)"
      "lf_syslog (log_file le line slcf) = None" for line
    by (auto simp: log_file_def Let_def split: write_result.split)
  show "lf_file (fst (ngx_http_shield_write_log le pool r slcf hit)) =
      (if lc_log slcf \<noteq> NULL_PTR \<and> le_time le \<noteq> lc_log_disk_full_time slcf then Some (log_line le r slcf hit @ [CHR 0x0A]) else None)"
    by (simp add: ngx_http_shield_write_log_def p1(1) p2 f Let_def)
  show "lf_syslog (fst (ngx_http_shield_write_log le pool r slcf hit)) =
      (if lc_syslog_peer slcf \<noteq> NULL_PTR \<and> length (log_line le r slcf hit) \<le> syslog_room (length (le_syslog_header le))
       then Some (le_syslog_header le @ log_line le r slcf hit) else None)"
    by (simp add: ngx_http_shield_write_log_def p1(1) p2 f Let_def)
qed

lemma act_logs:
  assumes "ngx_http_shield_act he r hit st = Some (rc, st')" and "true_hit (lc_skip (rs_conf st)) hit"
  shows "one_record he r st st'"
  using act_record [OF assms(1)] assms(2) unfolding one_record_def hit_effect_def by blast

lemma inspect_logs:
  assumes g: "globals_ok (e_globals (he_env he))" and i: "handler_inspect he r st = Some (rc, st')"
  shows "one_record he r st st'" and "rc = NGX_DONE \<Longrightarrow> rs_log st' = rs_log st"
proof -
  obtain rc0 hit pool where p: "ngx_http_shield_inspect_prebody (he_env he) (rs_pool st) r (rs_conf st) hit0 = ((rc0, hit), pool)"
    by (metis surj_pair)
  have a: "one_record he r st st2" if "rc0 = NGX_OK" "ngx_http_shield_act he r hit (st\<lparr>rs_pool := pool\<rparr>) = Some (rc', st2)" for rc' st2
    using act_logs [OF that(2)] prebody_hit [OF g] p that(1) by (simp add: one_record_def)
  have n: "one_record he r st s" if "rs_log s = rs_log st" for s using that by (simp add: one_record_def)
  note unf = i [unfolded handler_inspect_def Let_def p prod.case]
  show "one_record he r st st'" using unf a n by (auto split: if_splits option.splits prod.splits)
  show "rc = NGX_DONE \<Longrightarrow> rs_log st' = rs_log st"
    using unf by (auto simp: ngx_http_shield_fail_def special_response_def
        split: if_splits option.splits prod.splits ngx_rc.splits dest: act_rc)
qed

lemma body_handler_logs:
  assumes g: "globals_ok (e_globals (he_env he))" and b: "ngx_http_shield_body_handler he r st = Some st'"
  shows "one_record he r st st'"
proof -
  obtain rc hit pool where i: "ngx_http_shield_inspect_body (he_env he) (rs_pool st) r (rs_conf st) hit0 = ((rc, hit), pool)"
    by (metis surj_pair)
  have a: "one_record he r st (st2\<lparr>rs_ctx := c\<rparr>)"
    if "rc = NGX_OK" "ngx_http_shield_act he r hit (st\<lparr>rs_pool := pool\<rparr>) = Some (rc', st2)" for rc' st2 c
    using act_logs [OF that(2)] body_hit [OF g] i that(1) by (simp add: one_record_def)
  have n: "one_record he r st s" if "rs_log s = rs_log st" for s using that by (simp add: one_record_def)
  show ?thesis using b i a n by (auto simp: ngx_http_shield_body_handler_def Let_def split: if_splits option.splits prod.splits)
qed

lemma phase_logs:
  assumes g: "globals_ok (e_globals (he_env he))" and c: "rs_ctx st = None" and p: "shield_phase he r st = Some (rc, st')"
  shows "one_record he r st st'"
  using g c p
proof (cases rule: phase_cases)
  case (inspected zs)
  then show ?thesis using inspect_logs(1) [OF g inspected(3)] by (simp add: one_record_def)
next
  case (body zs st1)
  have "rs_log st1 = rs_log st" using inspect_logs(2) [OF g body(3)] by simp
  then show ?thesis using body_handler_logs [OF g body(6)] body(4) by (simp add: one_record_def)
qed (simp_all add: one_record_def)

text \<open>What is written for a hit.\<close>

lemma write_log_file: "lf_file (fst (ngx_http_shield_write_log le pool r slcf hit)) = Some out
    \<Longrightarrow> out = log_line le r slcf hit @ [CHR 0x0A]"
  by (auto simp: ngx_http_shield_write_log_def log_file_def Let_def split: if_splits prod.splits write_result.splits)

lemma write_log_syslog: "lf_syslog (fst (ngx_http_shield_write_log le pool r slcf hit)) = Some out
    \<Longrightarrow> out = le_syslog_header le @ log_line le r slcf hit \<and> (length (le_syslog_header le) \<le> NGX_SYSLOG_MAX \<longrightarrow> length out \<le> NGX_SYSLOG_MAX)"
  by (auto simp: ngx_http_shield_write_log_def log_file_def Let_def syslog_room_le split: if_splits prod.splits write_result.splits)

text \<open>
  A record in the sinks: the JSON text of one true hit, on one printable line, inside its buffer; to
  the file with a newline, to syslog behind its header and inside the buffer of the datagram.
\<close>

definition record_ok :: "handler_env \<Rightarrow> ngx_http_request_t \<Rightarrow> ngx_http_shield_loc_conf_t \<Rightarrow> log_effect \<Rightarrow> bool" where
  "record_ok he r slcf eff \<longleftrightarrow>
     (\<exists>hit line. true_hit (lc_skip slcf) hit \<and> json_read line = Some (log_json (he_log he) r slcf hit)
        \<and> printable line \<and> length line + 1 \<le> log_cap (he_log he) r hit (take LOG_REQ_MAX (r_request_line r))
        \<and> lf_file eff \<in> {None, Some (line @ [CHR 0x0A])} \<and> lf_syslog eff \<in> {None, Some (le_syslog_header (he_log he) @ line)}
        \<and> (lf_syslog eff \<noteq> None \<longrightarrow> length (le_syslog_header (he_log he)) \<le> NGX_SYSLOG_MAX \<longrightarrow>
             length (le_syslog_header (he_log he) @ line) \<le> NGX_SYSLOG_MAX))"

lemma true_hit_plain: "true_hit skip hit \<Longrightarrow> hit_plain hit"
proof -
  assume t: "true_hit skip hit"
  have "list_all plain_text hit_sources" by (simp add: hit_sources_def plain_text_def)
  moreover have "plain_text (ngx_http_shield_cat_name (h_cat hit))"
    using cat_name_plain t unfolding list_all_iff true_hit_def by (metis atLeastLessThan_iff le0 set_upt)
  ultimately show ?thesis using t by (auto simp: hit_plain_def true_hit_def list_all_iff)
qed

lemma hit_effect_record:
  assumes "log_env_ok (he_log he)" and "lc_status slcf < 2 ^ 64" and "plain_text (le_iso8601 (he_log he))"
    and "plain_text (r_addr_text r)" and "hit_effect he r slcf eff"
  shows "record_ok he r slcf eff"
proof -
  obtain hit pool where h: "true_hit (lc_skip slcf) hit" and e: "eff = fst (ngx_http_shield_write_log (he_log he) pool r slcf hit)"
    using assms(5) unfolding hit_effect_def by blast
  let ?line = "log_line (he_log he) r slcf hit"
  have l: "?line = print_json (log_json (he_log he) r slcf hit)"
    by (rule log_line_json [OF assms(1-4) true_hit_plain [OF h]])
  have "lf_file eff \<in> {None, Some (?line @ [CHR 0x0A])}" "lf_syslog eff \<in> {None, Some (le_syslog_header (he_log he) @ ?line)}"
    using write_log_file [of "he_log he" pool r slcf hit] write_log_syslog [of "he_log he" pool r slcf hit]
    by (cases "lf_file eff"; cases "lf_syslog eff"; simp add: e)+
  moreover have "length (le_syslog_header (he_log he)) \<le> NGX_SYSLOG_MAX \<longrightarrow> length (le_syslog_header (he_log he) @ ?line) \<le> NGX_SYSLOG_MAX"
    if "lf_syslog eff \<noteq> None"
    using that write_log_syslog [of "he_log he" pool r slcf hit] by (auto simp: e)
  moreover have "json_read ?line = Some (log_json (he_log he) r slcf hit)" "printable ?line"
    unfolding l by (rule json_read_print, rule print_json_printable)
  ultimately show ?thesis using h log_line_eq(2) [OF assms(1,2), of r hit] unfolding record_ok_def
    by (intro exI [of _ hit] exI [of _ ?line]) blast
qed

end
