(* ===== verification/Handler_Bans.thy ===== *)
theory Handler_Bans
  imports Handler_Logs
begin

text \<open>
  The ban side of a request: whose address is charged, what a hit does to the zone of the location,
  when a repeat offender is cut off, and what the initialization of a zone and of the module sets up.
\<close>

section \<open>The charged address\<close>

text \<open>The last element of a forwarded-for value: after the last comma, without blanks around it.\<close>

lemma after_comma_app: "CHR '','' \<notin> set v \<Longrightarrow> after_comma (rev v @ xs) acc = after_comma xs (v @ acc)"
  by (induction v arbitrary: acc rule: rev_induct) auto

lemma after_comma_last:
  "CHR '','' \<notin> set v \<Longrightarrow> after_comma (rev v) [] = v"
  "CHR '','' \<notin> set v \<Longrightarrow> after_comma (rev (pre @ CHR '','' # v)) [] = v"
  using after_comma_app [of v "[]" "[]"] after_comma_app [of v "CHR '','' # rev pre" "[]"] by simp_all

definition strip_blanks :: "bytes \<Rightarrow> bytes" where
  "strip_blanks v = rev (dropWhile is_blank (rev (dropWhile is_blank v)))"

lemma xff_last_token_eq:
  assumes "CHR '','' \<notin> set v"
  shows "ngx_http_shield_xff_last_token v = strip_blanks v"
    and "ngx_http_shield_xff_last_token (pre @ CHR '','' # v) = strip_blanks v"
  using after_comma_last [OF assms] by (simp_all add: ngx_http_shield_xff_last_token_def strip_blanks_def Let_def)

text \<open>Stripping removes blanks at both ends and nothing else.\<close>

lemma strip_blanks_split:
  "\<exists>us ws. v = us @ strip_blanks v @ ws \<and> list_all is_blank us \<and> list_all is_blank ws"
proof -
  let ?s = "dropWhile is_blank v"
  have "rev ?s = takeWhile is_blank (rev ?s) @ dropWhile is_blank (rev ?s)" by simp
  then have "?s = rev (dropWhile is_blank (rev ?s)) @ rev (takeWhile is_blank (rev ?s))"
    by (metis rev_append rev_rev_ident)
  then have "v = takeWhile is_blank v @ strip_blanks v @ rev (takeWhile is_blank (rev ?s))"
    unfolding strip_blanks_def by (metis takeWhile_dropWhile_id)
  moreover have "list_all is_blank (takeWhile is_blank xs)" "list_all is_blank (rev (takeWhile is_blank xs))" for xs
    by (auto simp: list_all_iff dest: set_takeWhileD)
  ultimately show ?thesis by blast
qed

lemma strip_blanks_ends:
  assumes "strip_blanks v \<noteq> []"
  shows "\<not> is_blank (hd (strip_blanks v))" and "\<not> is_blank (last (strip_blanks v))"
proof -
  let ?s = "dropWhile is_blank v"
  have ne: "dropWhile is_blank (rev ?s) \<noteq> []" using assms by (simp add: strip_blanks_def)
  then show "\<not> is_blank (last (strip_blanks v))" using hd_dropWhile [OF ne] by (simp add: strip_blanks_def last_rev)
  have "?s \<noteq> []" using ne by (cases "?s = []") simp_all
  then have h: "\<not> is_blank (hd ?s)" by (rule hd_dropWhile)
  have "last (rev ?s) = hd ?s" by (simp add: last_rev)
  then have "last (dropWhile is_blank (rev ?s)) = hd ?s"
    using last_appendR [OF ne, of "takeWhile is_blank (rev ?s)"] by simp
  then show "\<not> is_blank (hd (strip_blanks v))" using h by (simp add: strip_blanks_def hd_rev)
qed

lemma peer_trusted_xff [simp]:
  "ngx_http_shield_ban_peer_trusted he (r\<lparr>r_x_forwarded_for := hs\<rparr>) t = ngx_http_shield_ban_peer_trusted he r t"
  by (simp add: ngx_http_shield_ban_peer_trusted_def split: conf_ptr.split)

lemma ban_addr_peer:
  assumes "lc_ban_key slcf \<noteq> BAN_KEY_FORWARDED \<or> \<not> ngx_http_shield_ban_peer_trusted he r (lc_ban_trusted slcf)"
  shows "ngx_http_shield_ban_addr he r slcf = ngx_http_shield_ban_sockaddr_bytes (r_sockaddr r)"
  using assms by (simp add: ngx_http_shield_ban_addr_def)

text \<open>Behind a trusted proxy only the bytes after the last comma of the last header count.\<close>

lemma ban_addr_forwarded:
  assumes "CHR '','' \<notin> set v"
  shows "ngx_http_shield_ban_addr he (r\<lparr>r_x_forwarded_for := hs @ [pre @ CHR '','' # v]\<rparr>) slcf
    = ngx_http_shield_ban_addr he (r\<lparr>r_x_forwarded_for := [v]\<rparr>) slcf"
  using xff_last_token_eq [OF assms] by (simp add: ngx_http_shield_ban_addr_def Let_def split: option.split)

section \<open>Counters\<close>

lemma expire_loop_counters:
  "ban_expire_loop ops now window sh q scanned evicted wrapped = Some sh' \<Longrightarrow>
     sh_cat_hits sh' = sh_cat_hits sh \<and> sh_blocked sh' = sh_blocked sh"
proof (induction ops now window sh q scanned evicted wrapped rule: ban_expire_loop.induct)
  case (1 ops now window sh q scanned evicted wrapped)
  have e: "sh_cat_hits (ban_evict ops sh p) = sh_cat_hits sh" "sh_blocked (ban_evict ops sh p) = sh_blocked sh" for p
    by (simp_all add: ban_evict_def)
  note unf = "1.prems" [unfolded ban_expire_loop.simps [of ops now window sh q scanned evicted wrapped]]
  show ?case
  proof (cases "scanned < BAN_EXPIRE_SCAN \<and> evicted < BAN_EXPIRE_EVICT")
    case False
    then show ?thesis using unf by auto
  next
    case go: True
    show ?thesis
    proof (cases q)
      case None
      then show ?thesis using unf go "1.IH"(1) by (auto split: if_splits)
    next
      case (Some p)
      then obtain bn where bn: "sh_nodes sh p = Some bn" using unf go by (auto split: option.splits)
      show ?thesis
        using unf go Some bn "1.IH"(2) [OF go Some bn refl] "1.IH"(3) [OF go Some bn refl] e
        by (simp add: Let_def split: if_splits)
    qed
  qed
qed

lemma record_counters:
  assumes "ngx_http_shield_ban_record_locked ops sh h a now count window ban_time = Some (rc, sh')"
  shows "sh_cat_hits sh' = sh_cat_hits sh \<and> sh_blocked sh' = sh_blocked sh"
proof -
  have at: "sh_cat_hits y = sh_cat_hits x \<and> sh_blocked y = sh_blocked x"
    if "ban_record_at x p now count window ban_time = Some (c, y)" for x y p c
    using that by (auto simp: ban_record_at_def Let_def split: option.splits prod.splits if_splits)
  have lk: "sh_cat_hits y = sh_cat_hits sh \<and> sh_blocked y = sh_blocked sh"
    if "ngx_http_shield_ban_lookup sh h a = Some (c, y)" for c y
    using that by (auto simp: ngx_http_shield_ban_lookup_def split: option.splits)
  have ex: "sh_cat_hits y = sh_cat_hits x \<and> sh_blocked y = sh_blocked x"
    if "ngx_http_shield_ban_expire ops x now window = Some y" for x y
    using that expire_loop_counters by (auto simp: ngx_http_shield_ban_expire_def split: option.splits)
  have al: "sh_cat_hits y = sh_cat_hits x \<and> sh_blocked y = sh_blocked x"
    if "ngx_shield_slab_alloc ops x = (c, y)" for x y c
    using that by (auto simp: ngx_shield_slab_alloc_def ngx_http_shield_ban_slab_alloc_def Let_def split: if_splits)
  have li: "sh_cat_hits y = sh_cat_hits x \<and> sh_blocked y = sh_blocked x"
    if "ban_link ops x p bn = Some y" for x y p bn
    using that by (auto simp: ban_link_def split: option.splits)
  show ?thesis
    using assms by (auto simp: ngx_http_shield_ban_record_locked_def split: option.splits prod.splits
        dest!: at lk ex al li)
qed

section \<open>What a hit does to the zone\<close>

lemma ban_view_count_hit [simp]: "ban_view (ngx_http_shield_ban_count_hit sh cat blocked) = ban_view sh"
  by (rule ext) (simp add: ban_view_def ngx_http_shield_ban_count_hit_def Let_def split: option.split)

lemma count_hit_counters:
  "sh_cat_hits (ngx_http_shield_ban_count_hit sh cat blocked) =
     (if cat < 64 then (sh_cat_hits sh)[cat := inc64 (sh_cat_hits sh ! cat)] else sh_cat_hits sh)"
  "sh_blocked (ngx_http_shield_ban_count_hit sh cat blocked) = (if blocked then inc64 (sh_blocked sh) else sh_blocked sh)"
  by (simp_all add: ngx_http_shield_ban_count_hit_def BAN_NCOUNTERS_def Let_def)

text \<open>The hit, the category and, in block mode, the block are each counted once, in that zone only.\<close>

text \<open>
  The records after one more hit of a client under the policy of a location: a known client is hit, a new
  one gets a record with the hit, or none when the zone is full, for which stale records may go.
\<close>

definition recorded :: "handler_env \<Rightarrow> ngx_http_shield_loc_conf_t \<Rightarrow> client \<Rightarrow> (client \<rightharpoonup> ngx_http_shield_ban_node_t)
    \<Rightarrow> (client \<rightharpoonup> ngx_http_shield_ban_node_t) \<Rightarrow> bool" where
  "recorded he slcf d v v' \<longleftrightarrow>
     (let hit = (\<lambda>bn. snd (ban_hit (he_time he) (lc_ban_count slcf) (lc_ban_window slcf) (lc_ban_time slcf) bn))
      in case v d of
           Some bn \<Rightarrow> v' = v(d \<mapsto> hit bn)
         | None \<Rightarrow> (\<exists>w. forgets (he_time he) (lc_ban_window slcf) v w
             \<and> (v' = w(d \<mapsto> hit (ban_new_node (fst d) (snd d) (he_time he))) \<or> v' = w)))"

lemma act_accounts:
  assumes ok: "state_ok he st" and z: "lc_ban_zone (rs_conf st) = PTR z" "rs_zones st z = Some sh"
    and a: "ngx_http_shield_ban_addr he r (rs_conf st) = Some a"
    and act: "ngx_http_shield_act he r hit st = Some (rc, st')"
  shows "\<exists>sh'. rs_zones st' = (rs_zones st)(z \<mapsto> sh')
    \<and> sh_cat_hits sh' = (if h_cat hit < 64 then (sh_cat_hits sh)[h_cat hit := inc64 (sh_cat_hits sh ! h_cat hit)] else sh_cat_hits sh)
    \<and> sh_blocked sh' = (if lc_mode (rs_conf st) = SHIELD_BLOCK then inc64 (sh_blocked sh) else sh_blocked sh)
    \<and> recorded he (rs_conf st) (he_crc32 he a, a) (ban_view sh) (ban_view sh')"
proof -
  let ?c = "rs_conf st" and ?h = "he_crc32 he a" and ?now = "he_time he"
  have zo: "zone_of ?c (rs_zones st) = Some (z, sh)" using z by (simp add: zone_of_def)
  have inv: "ban_inv sh" using ok z(2) by (auto simp: state_ok_def zones_ok_def)
  obtain rc1 sh1 where r: "ngx_http_shield_ban_record_locked (he_ops he) sh ?h a ?now
      (lc_ban_count ?c) (lc_ban_window ?c) (lc_ban_time ?c) = Some (rc1, sh1)"
    using act a zo z(1) by (auto simp: ngx_http_shield_act_def ngx_http_shield_ban_record_def Let_def split: option.splits prod.splits)
  let ?sh' = "ngx_http_shield_ban_count_hit sh1 (h_cat hit) (lc_mode ?c = SHIELD_BLOCK)"
  have "ngx_http_shield_ban_record he r ?c (rs_zones st) = Some ((rs_zones st)(z \<mapsto> sh1))"
    using r a zo by (simp add: ngx_http_shield_ban_record_def)
  moreover have "ngx_http_shield_ban_count ?c hit ((rs_zones st)(z \<mapsto> sh1)) = (rs_zones st)(z \<mapsto> ?sh')"
    using z(1) by (simp add: ngx_http_shield_ban_count_def zone_of_def)
  ultimately have "rs_zones st' = (rs_zones st)(z \<mapsto> ?sh')"
    using act z(1) log_hit_keeps [of "st\<lparr>rs_zones := (rs_zones st)(z \<mapsto> ?sh')\<rparr>" he r hit]
    by (auto simp: ngx_http_shield_act_def Let_def split: if_splits)
  moreover have "ban_view sh1 = (ban_view sh)((?h, a) \<mapsto> snd (ban_hit ?now (lc_ban_count ?c) (lc_ban_window ?c) (lc_ban_time ?c) bn))"
    if "ban_view sh (?h, a) = Some bn" for bn
    using ban_record_known [OF inv that, where ops = "he_ops he" and now = ?now and count = "lc_ban_count ?c"
        and window = "lc_ban_window ?c" and ban_time = "lc_ban_time ?c"] r by auto
  moreover have "\<exists>v. forgets ?now (lc_ban_window ?c) (ban_view sh) v
      \<and> (ban_view sh1 = v((?h, a) \<mapsto> snd (ban_hit ?now (lc_ban_count ?c) (lc_ban_window ?c) (lc_ban_time ?c) (ban_new_node ?h a ?now))) \<or> ban_view sh1 = v)"
    if "ban_view sh (?h, a) = None"
    using ban_record_new [OF _ inv that, of "he_ops he" ?now "lc_ban_count ?c" "lc_ban_window ?c" "lc_ban_time ?c"] r ok
    by (auto simp: state_ok_def)
  ultimately show ?thesis using record_counters [OF r]
    by (intro exI [of _ ?sh']) (simp add: count_hit_counters recorded_def Let_def split: option.split)
qed

section \<open>Repeat offenders\<close>

lemma is_banned_counters:
  "ngx_http_shield_ban_is_banned_locked sh h a now = Some (b, sh') \<Longrightarrow>
     sh_cat_hits sh' = sh_cat_hits sh \<and> sh_blocked sh' = sh_blocked sh \<and> sh_bans sh' = sh_bans sh"
  by (auto simp: ngx_http_shield_ban_is_banned_locked_def ngx_http_shield_ban_lookup_def split: option.splits)

lemma ban_check_zone:
  assumes "state_ok he st" and "lc_ban_zone (rs_conf st) = PTR z" "rs_zones st z = Some sh"
    and "ngx_http_shield_ban_addr he r (rs_conf st) = Some a"
  shows "\<exists>sh'. ban_check he r st = Some (case ban_view sh (he_crc32 he a, a) of None \<Rightarrow> False
      | Some bn \<Rightarrow> bn_banned_until bn > he_time he, (rs_zones st)(z \<mapsto> sh')) \<and> ban_inv sh' \<and> ban_view sh' = ban_view sh
    \<and> sh_cat_hits sh' = sh_cat_hits sh \<and> sh_blocked sh' = sh_blocked sh"
proof -
  have "ban_inv sh" using assms(1,3) by (auto simp: state_ok_def zones_ok_def)
  then obtain sh' where "ngx_http_shield_ban_is_banned_locked sh (he_crc32 he a) a (he_time he) = Some
      (case ban_view sh (he_crc32 he a, a) of None \<Rightarrow> False | Some bn \<Rightarrow> bn_banned_until bn > he_time he, sh')"
      "ban_inv sh'" "ban_view sh' = ban_view sh"
    using ban_is_banned_correct by blast
  moreover from this(1) have "sh_cat_hits sh' = sh_cat_hits sh \<and> sh_blocked sh' = sh_blocked sh"
    using is_banned_counters by blast
  ultimately show ?thesis using assms(2-4)
    by (intro exI [of _ sh']) (simp add: ban_check_def ngx_http_shield_ban_is_banned_def zone_of_def)
qed

text \<open>A ban check charges nobody: no record, no counter and no zone changes.\<close>

definition uncharged :: "zones \<Rightarrow> zones \<Rightarrow> bool" where
  "uncharged zs zs' \<longleftrightarrow> dom zs' = dom zs \<and> (\<forall>z sh sh'. zs z = Some sh \<longrightarrow> zs' z = Some sh' \<longrightarrow>
     ban_view sh' = ban_view sh \<and> sh_cat_hits sh' = sh_cat_hits sh \<and> sh_blocked sh' = sh_blocked sh \<and> sh_bans sh' = sh_bans sh)"

lemma uncharged_refl: "uncharged zs zs"
  by (simp add: uncharged_def)

lemma ban_check_uncharged:
  assumes "state_ok he st" and "ban_check he r st = Some (b, zs)"
  shows "uncharged (rs_zones st) zs"
proof (cases "zs = rs_zones st")
  case True
  then show ?thesis by (simp add: uncharged_refl)
next
  case False
  then obtain a z sh sh' where z: "rs_zones st z = Some sh"
      "ngx_http_shield_ban_is_banned_locked sh (he_crc32 he a) a (he_time he) = Some (b, sh')" "zs = (rs_zones st)(z \<mapsto> sh')"
    using assms(2) by (auto simp: ban_check_def ngx_http_shield_ban_is_banned_def zone_of_Some split: option.splits if_splits)
  have "ban_inv sh" using assms(1) z(1) by (auto simp: state_ok_def zones_ok_def)
  then have "ban_view sh' = ban_view sh" using ban_is_banned_correct [of sh "he_crc32 he a" a "he_time he"] z(2) by auto
  then show ?thesis using z(1) is_banned_counters [OF z(2)] by (auto simp: z(3) uncharged_def split: if_splits)
qed

text \<open>A client with a ban in force gets the status; nothing is inspected, allocated or logged.\<close>

lemma phase_banned:
  assumes "state_ok he st" and "\<not> passes_by r st" and "rs_ctx st = None"
    and "lc_ban_zone (rs_conf st) = PTR z" "rs_zones st z = Some sh"
    and "ngx_http_shield_ban_addr he r (rs_conf st) = Some a"
    and "ban_view sh (he_crc32 he a, a) = Some bn" and "bn_banned_until bn > he_time he"
  shows "\<exists>sh'. shield_phase he r st = Some (NGX_HTTP (lc_status (rs_conf st)), st\<lparr>rs_zones := (rs_zones st)(z \<mapsto> sh')\<rparr>)
    \<and> ban_view sh' = ban_view sh"
  using ban_check_zone [OF assms(1,4-6)] assms(7,8) handler_first [OF assms(2,3), of he]
  by (auto simp: shield_phase_def)

text \<open>
  What requests do to one zone: checks and recorded hits, and the counting of hits.  Such an operation
  spares a client when it is no hit of it and, being a hit of another one, happens before a time.
\<close>

datatype zone_op =
    Engine ban_op
  | Tally nat bool

fun zone_step :: "ngx_http_shield_ban_shctx_t \<Rightarrow> zone_op \<Rightarrow> ngx_http_shield_ban_shctx_t option" where
  "zone_step sh (Engine x) = ban_step sh x"
| "zone_step sh (Tally cat blocked) = Some (ngx_http_shield_ban_count_hit sh cat blocked)"

fun spares :: "client \<Rightarrow> time_t \<Rightarrow> zone_op \<Rightarrow> bool" where
  "spares c until (Engine (Check d now)) = True"
| "spares c until (Engine (Hit ops d now count window ban_time)) = (ops_ok ops \<and> d \<noteq> c \<and> now < until)"
| "spares c until (Tally cat blocked) = True"

lemma spares_engine: "spares c (bn_banned_until bn) (Engine x) \<Longrightarrow> op_ops_ok x \<and> \<not> hits_client c x \<and> live_during bn x"
  by (cases x) (auto simp: ban_live_def)

lemma zone_run_keeps:
  assumes "ban_inv sh" and "ban_view sh c = Some bn" and "list_all (spares c (bn_banned_until bn)) xs"
  shows "\<exists>sh'. run_steps zone_step sh xs = Some sh' \<and> ban_inv sh' \<and> ban_view sh' c = Some bn"
  using assms
proof (induction xs arbitrary: sh)
  case (Cons x xs)
  have "\<exists>sh1. zone_step sh x = Some sh1 \<and> ban_inv sh1 \<and> ban_view sh1 c = Some bn"
  proof (cases x)
    case (Engine y)
    then show ?thesis using engine.run_keeps [OF Cons.prems(1,2), of "[y]"] spares_engine [of c bn y] Cons.prems(3)
      by (auto split: option.splits)
  next
    case (Tally cat blocked)
    then show ?thesis using Cons.prems(1,2) by (simp add: count_hit_inv)
  qed
  then show ?case using Cons.IH Cons.prems(3) by auto
qed simp

fun zone_ops_ok :: "zone_op \<Rightarrow> bool" where
  "zone_ops_ok (Engine x) = op_ops_ok x"
| "zone_ops_ok (Tally cat blocked) = True"

lemma zone_run_inv:
  "ban_inv sh \<Longrightarrow> run_steps zone_step sh xs = Some sh' \<Longrightarrow> list_all zone_ops_ok xs \<Longrightarrow> ban_inv sh'"
proof (induction xs arbitrary: sh)
  case (Cons x xs)
  obtain sh1 where s: "zone_step sh x = Some sh1" "run_steps zone_step sh1 xs = Some sh'" using Cons.prems(2) by (auto split: option.splits)
  have "ban_inv sh1"
  proof (cases x)
    case (Engine y)
    then show ?thesis using engine.step_total [of y sh] s(1) Cons.prems by auto
  next
    case (Tally cat blocked)
    then show ?thesis using s(1) Cons.prems(1) by (auto simp: count_hit_inv)
  qed
  then show ?case using Cons.IH s(2) Cons.prems(3) by simp
qed simp

text \<open>The hit that reaches the count arms the ban.\<close>

lemma ban_hit_arms:
  assumes "bn_banned_until bn = 0" and "bn_window_start bn \<le> now" and "now < bn_window_start bn + window"
    and "count \<le> bn_hits bn + 1" and "bn_hits bn + 1 < 2 ^ 64"
  shows "ban_hit now count window ban_time bn = (True, bn\<lparr>bn_banned_until := ngx_http_shield_time_add_clamp now ban_time,
     bn_hits := 0, bn_window_start := now\<rparr>)"
proof -
  have "inc64 (bn_hits bn) = bn_hits bn + 1" unfolding inc64_def by (rule mod_less [OF assms(5)])
  then show ?thesis using assms(1-4) by (simp add: ban_hit_def retire_lapsed_def roll_window_def Let_def)
qed

text \<open>
  An attack is acted on once, with a hit of an enabled category: at once when it is in the line or the
  headers, from the body handler when it is in the body. The context of the request may differ, the
  zones, the configuration and the log are those of the phase.
\<close>

definition acted_on :: "handler_env \<Rightarrow> ngx_http_request_t \<Rightarrow> req_state \<Rightarrow> zones \<Rightarrow> bool" where
  "acted_on he r st zs \<longleftrightarrow> (\<exists>hit p x rc st2 y. true_hit (lc_skip (rs_conf st)) hit \<and> no_faults p
     \<and> ngx_http_shield_act he r hit (st\<lparr>rs_zones := zs, rs_ctx := x, rs_pool := p\<rparr>) = Some (rc, st2)
     \<and> shield_phase he r st = Some (rc, st2\<lparr>rs_ctx := y\<rparr>))"

lemma phase_prebody_hit:
  assumes "globals_ok (e_globals (he_env he))" and "faultless he file r st"
    and "\<not> passes_by r st" and "rs_ctx st = None" and "ban_check he r st = Some (False, zs)"
    and "state_ok he (st\<lparr>rs_zones := zs\<rparr>)" and "\<not> prebody_clean (he_env he) (rs_conf st) r"
  shows "acted_on he r st zs"
proof -
  obtain rc hit p where i: "ngx_http_shield_inspect_prebody (he_env he) (rs_pool st) r (rs_conf st) hit0 = ((rc, hit), p)"
    by (metis surj_pair)
  have ok: "rc = NGX_OK" using prebody_declined [OF assms(1) i] prebody_rc [OF assms(1) i] assms(2,7) by (auto simp: faultless_def)
  let ?s = "st\<lparr>rs_zones := zs, rs_pool := p\<rparr>"
  have "state_ok he ?s" using assms(6) by (simp add: state_ok_def)
  then obtain rc2 st2 where a: "ngx_http_shield_act he r hit ?s = Some (rc2, st2)" using act_total by blast
  then have "handler_inspect he r (st\<lparr>rs_zones := zs\<rparr>) = Some (rc2, st2)" using i ok by (auto simp: handler_inspect_def Let_def)
  then have "shield_phase he r st = Some (rc2, st2\<lparr>rs_ctx := rs_ctx st2\<rparr>)"
    unfolding phase_unbanned [OF assms(3-5)] using act_rc [OF a] by auto
  moreover have "ngx_http_shield_act he r hit (st\<lparr>rs_zones := zs, rs_ctx := None, rs_pool := p\<rparr>) = Some (rc2, st2)"
    using a assms(4) by (cases st) simp
  moreover have "true_hit (lc_skip (rs_conf st)) hit" using prebody_hit [OF assms(1)] i ok by simp
  moreover have "no_faults p" using prebody_pool [of "rs_pool st" "he_env he" r "rs_conf st" hit0] i assms(2) by (simp add: faultless_def)
  ultimately show ?thesis unfolding acted_on_def by blast
qed

lemma phase_body_hit:
  assumes g: "globals_ok (e_globals (he_env he))" and f: "faultless he file r st"
    and act: "\<not> passes_by r st" and c: "rs_ctx st = None" and b: "ban_check he r st = Some (False, zs)"
    and ok: "state_ok he (st\<lparr>rs_zones := zs\<rparr>)" and pre: "prebody_clean (he_env he) (rs_conf st) r"
    and attack: "\<not> inspected_clean he file r (rs_conf st)"
  shows "acted_on he r st zs"
proof -
  have body: "to_inspect he r (rs_conf st)"
      "\<not> clean (he_env he) (lc_skip (rs_conf st) OR ngx_http_shield_no_body_mask) (body_prefix file r (lc_max_body (rs_conf st)))"
    using pre attack by (simp_all add: inspected_clean_def to_inspect_def)
  have "faultless he file r (st\<lparr>rs_zones := zs\<rparr>)" using f by (simp add: faultless_def)
  then obtain p where p: "no_faults p" "handler_inspect he r (st\<lparr>rs_zones := zs\<rparr>)
      = Some (NGX_DONE, st\<lparr>rs_zones := zs, rs_ctx := Some NGX_DECLINED, rs_pool := p\<rparr>)"
    using inspect_clean [OF g, of "file" r "st\<lparr>rs_zones := zs\<rparr>"] pre body(1) by (cases st) auto
  obtain rc hit p2 where i: "ngx_http_shield_inspect_body (he_env he) p r (rs_conf st) hit0 = ((rc, hit), p2)" by (metis surj_pair)
  have rc: "rc = NGX_OK" using inspect_body_verdict [OF g _ p(1) i, of "file"] f body(2) by (simp add: faultless_def)
  let ?s = "st\<lparr>rs_zones := zs, rs_ctx := Some NGX_DECLINED, rs_pool := p2\<rparr>"
  have "state_ok he ?s" using ok by (simp add: state_ok_def)
  then obtain rc2 st2 where a: "ngx_http_shield_act he r hit ?s = Some (rc2, st2)" "same_conf (rs_conf st) (rs_conf st2)"
    using act_total [of he ?s r hit] by auto
  let ?s2 = "st2\<lparr>rs_ctx := Some rc2\<rparr>"
  have h: "ngx_http_shield_body_handler he r (st\<lparr>rs_zones := zs, rs_ctx := Some NGX_DECLINED, rs_pool := p\<rparr>) = Some ?s2"
    using i rc a(1) by (simp add: ngx_http_shield_body_handler_def Let_def)
  have "\<not> passes_by r ?s2" using act a(2) same_confD(1) by (simp add: passes_by_def)
  then have "shield_phase he r st = Some (rc2, ?s2)"
    unfolding phase_unbanned [OF act c b] using p(2) h handler_again [of r ?s2 rc2 he] by simp
  moreover have "true_hit (lc_skip (rs_conf st)) hit" using body_hit [OF g] i rc by simp
  moreover have "no_faults p2" using body_pool [OF p(1), of "he_env he" r "rs_conf st" hit0] i by simp
  ultimately show ?thesis unfolding acted_on_def using a(1) by blast
qed

lemma phase_hit:
  assumes "globals_ok (e_globals (he_env he))" and "faultless he file r st"
    and "\<not> passes_by r st" and "rs_ctx st = None" and "ban_check he r st = Some (False, zs)"
    and "state_ok he (st\<lparr>rs_zones := zs\<rparr>)" and "\<not> inspected_clean he file r (rs_conf st)"
  shows "acted_on he r st zs"
  using phase_prebody_hit [OF assms(1-6)] phase_body_hit [OF assms(1-6) _ assms(7)] by blast

section \<open>Initialization\<close>

lemma init_zone_fresh:
  "ngx_http_shield_ban_init_zone harness None None (Some mem) True = (NGX_OK, Some sh) \<Longrightarrow>
     ban_inv sh \<and> ban_view sh = Map.empty \<and> sh_bans sh = 0 \<and> sh_blocked sh = 0 \<and> (\<forall>k < 64. sh_cat_hits sh ! k = 0)
     \<and> (harness \<longrightarrow> sh_fault_nth sh = - 1)"
  by (auto simp: ngx_http_shield_ban_init_zone_def ngx_http_shield_ban_shctx_init_def ban_inv_def zone_ok_def
      in_use_def tree_ok_def BAN_NCOUNTERS_def Let_def ban_view_def fun_eq_iff split: if_splits)

lemma init_globals:
  assumes "mem_ok md" and "mem_ok mr"
  shows "ngx_http_shield_init md mr True g = (NGX_OK, g\<lparr>g_decoded := ngx_http_shield_ac_decoded, g_raw := ngx_http_shield_ac_raw\<rparr>)"
  using built_ac(1) [OF caps_ok(1) assms(2)] built_ac(1) [OF caps_ok(2) assms(1)]
  by (simp add: ngx_http_shield_init_def ngx_http_shield_ac_raw_def ngx_http_shield_ac_decoded_def)

lemma init_only_if:
  assumes "ngx_http_shield_init md mr push g = (NGX_OK, g')"
  shows "globals_ok g'"
proof -
  have fails: "ngx_http_shield_ac_build cats rules mem m = Inr ac \<Longrightarrow> mem_ok mem" for cats rules mem m ac
    by (auto simp: ngx_http_shield_ac_build_def Let_def mem_ok_def split: if_splits)
  have "mem_ok md \<and> mem_ok mr \<and> push"
    using assms by (auto simp: ngx_http_shield_init_def split: sum.splits if_splits dest: fails)
  then show ?thesis using init_globals [of md mr g] assms by (auto simp: globals_ok_def)
qed

end
