(* ===== verification/Status.thy ===== *)
theory Status
  imports Handler_Bans
begin

text \<open>
  The two reporting endpoints: \<open>shield_ban_status\<close> of \<open>src/ngx_http_shield_module.c\<close>, and the test
  probe with its hooks of \<open>src/ngx_shield_probe_hooks.c\<close>.  Number and address formatting, the header
  and body filters, and the generic probe of the test harness are not part of the module and are
  fields of the environments.
\<close>

section \<open>Environment\<close>

record content_env =
  ct_get_or_head :: bool
  ct_discard :: ngx_rc
  ct_send_header :: ngx_rc
  ct_header_only :: bool
  ct_output_filter :: "bytes \<Rightarrow> ngx_rc"

text \<open>\<open>fe_ntop v4 addr room\<close> is the text \<open>ngx_inet_ntop\<close> writes into \<open>room\<close> bytes.\<close>

record format_env =
  fe_uint :: "nat \<Rightarrow> bytes"
  fe_int :: "int \<Rightarrow> bytes"
  fe_ntop :: "bool \<Rightarrow> bytes \<Rightarrow> nat \<Rightarrow> bytes"

definition NGX_HTTP_NOT_ALLOWED :: nat where "NGX_HTTP_NOT_ALLOWED = 405"
definition NGX_HTTP_SERVICE_UNAVAILABLE :: nat where "NGX_HTTP_SERVICE_UNAVAILABLE = 503"
definition NGX_INT64_LEN :: nat where "NGX_INT64_LEN = 20"

section \<open>Sending a rendered document\<close>

text \<open>The common tail of both content handlers: header, buffer, body.\<close>

definition send_document :: "content_env \<Rightarrow> pool \<Rightarrow> bytes \<Rightarrow> ngx_rc \<times> pool" where
  "send_document ct pool doc =
     (let rc = ct_send_header ct
      in if rc = NGX_ERROR \<or> (case rc of NGX_HTTP n \<Rightarrow> n > 0 | _ \<Rightarrow> False) \<or> ct_header_only ct then (rc, pool)
         else (case palloc pool of (ok, pool1) \<Rightarrow>
                 if \<not> ok then (NGX_HTTP NGX_HTTP_INTERNAL_SERVER_ERROR, pool1)
                 else (ct_output_filter ct doc, pool1)))"

section \<open>Status document\<close>

definition status_head :: "format_env \<Rightarrow> bytes \<Rightarrow> nat \<Rightarrow> nat \<Rightarrow> nat \<Rightarrow> bytes" where
  "status_head fe name nodes blocked bans =
     ''{'' @ jkey ''zone'' @ quoted name @ '','' @ jkey ''nodes'' @ fe_uint fe nodes
     @ '','' @ jkey ''blocked'' @ fe_uint fe blocked @ '','' @ jkey ''bans'' @ fe_uint fe bans
     @ '','' @ jkey ''categories'' @ ''{''"

definition status_size :: "bytes \<Rightarrow> nat \<Rightarrow> nat" where
  "status_size name nodes =
     length (''{'' @ jkey ''zone'' @ quoted [] @ '','' @ jkey ''nodes'' @ '','' @ jkey ''blocked'' @ '',''
             @ jkey ''bans'' @ '','' @ jkey ''categories'' @ ''{},'' @ jkey ''banned'' @ ''[]}'') + 1
     + length name + 3 * NGX_INT64_LEN + CAT_N * (64 + NGX_INT64_LEN) + nodes * 96"

definition cat_entry :: "format_env \<Rightarrow> nat list \<Rightarrow> bool \<Rightarrow> nat \<Rightarrow> bytes" where
  "cat_entry fe cat_hits first i =
     (if first then [] else '','') @ jkey (ngx_http_shield_cat_name i) @ fe_uint fe (cat_hits ! i)"

fun status_cats :: "format_env \<Rightarrow> nat list \<Rightarrow> nat \<Rightarrow> bool \<Rightarrow> nat list \<Rightarrow> bytes \<Rightarrow> bytes" where
  "status_cats fe cat_hits cap first [] p = p"
| "status_cats fe cat_hits cap first (i # is) p =
     status_cats fe cat_hits cap False is (slput cap p (cat_entry fe cat_hits first i))"

definition put_banned :: "format_env \<Rightarrow> nat \<Rightarrow> time_t \<Rightarrow> bool \<Rightarrow> ngx_http_shield_ban_node_t \<Rightarrow> bytes \<Rightarrow> bytes" where
  "put_banned fe cap now first bn p =
     (let p1 = slput cap p ((if first then [] else '','') @ ''{'' @ jkey ''addr'' @ [CHR 0x22]);
          p2 = p1 @ fe_ntop fe (length (bn_addr bn) = 4) (bn_addr bn) (cap - length p1)
      in slput cap p2 ([CHR 0x22] @ '','' @ jkey ''hits'' @ fe_uint fe (bn_hits bn)
           @ '','' @ jkey ''expires'' @ fe_int fe (bn_banned_until bn - now) @ ''}''))"

text \<open>The walk over the queue; \<open>None\<close> is a read through a freed node.\<close>

fun status_walk :: "format_env \<Rightarrow> nat \<Rightarrow> time_t \<Rightarrow> (ptr \<rightharpoonup> ngx_http_shield_ban_node_t) \<Rightarrow> ptr list \<Rightarrow> bool
    \<Rightarrow> bytes \<Rightarrow> bytes option" where
  "status_walk fe cap now nodes [] first p = Some p"
| "status_walk fe cap now nodes (q # qs) first p =
     (case nodes q of
        None \<Rightarrow> None
      | Some bn \<Rightarrow>
          if bn_banned_until bn \<le> now then status_walk fe cap now nodes qs first p
          else if cap - length p < 96 then Some p
          else status_walk fe cap now nodes qs False (put_banned fe cap now first bn p))"

text \<open>
  The rendering.  \<open>sh1\<close> is the zone under the first lock, \<open>sh2\<close> the zone under the second one, which
  other workers may have changed in between.
\<close>

definition status_document :: "format_env \<Rightarrow> time_t \<Rightarrow> bytes \<Rightarrow> ngx_http_shield_ban_shctx_t
    \<Rightarrow> ngx_http_shield_ban_shctx_t \<Rightarrow> bytes option" where
  "status_document fe now name sh1 sh2 =
     (let nodes = length (sh_queue sh1);
          cap = status_size name nodes;
          p1 = slput cap [] (status_head fe name nodes (sh_blocked sh1) (sh_bans sh1));
          p2 = status_cats fe (sh_cat_hits sh1) cap True [0..<CAT_N] p1;
          p3 = slput cap p2 (''},'' @ jkey ''banned'' @ ''['')
      in map_option (\<lambda>p4. slput cap p4 '']}'') (status_walk fe cap now (sh_nodes sh2) (sh_queue sh2) True p3))"

text \<open>
  The handler: the answer, the document if one was rendered, and the pool.  \<open>zone\<close> is the zone's
  state under the two locks, absent while this worker has not initialized it.
\<close>

definition ngx_http_shield_ban_status_handler :: "content_env \<Rightarrow> format_env \<Rightarrow> time_t \<Rightarrow> pool \<Rightarrow> bytes
    \<Rightarrow> (ngx_http_shield_ban_shctx_t \<times> ngx_http_shield_ban_shctx_t) option \<Rightarrow> (ngx_rc \<times> bytes option \<times> pool) option" where
  "ngx_http_shield_ban_status_handler ct fe now pool name zone =
     (if \<not> ct_get_or_head ct then Some (NGX_HTTP NGX_HTTP_NOT_ALLOWED, None, pool)
      else if ct_discard ct \<noteq> NGX_OK then Some (ct_discard ct, None, pool)
      else (case zone of
              None \<Rightarrow> Some (NGX_HTTP NGX_HTTP_SERVICE_UNAVAILABLE, None, pool)
            | Some (sh1, sh2) \<Rightarrow>
                (case palloc pool of (ok, pool1) \<Rightarrow>
                   if \<not> ok then Some (NGX_HTTP NGX_HTTP_INTERNAL_SERVER_ERROR, None, pool1)
                   else (case status_document fe now name sh1 sh2 of
                           None \<Rightarrow> None
                         | Some doc \<Rightarrow>
                             (case send_document ct pool1 doc of (rc, pool2) \<Rightarrow> Some (rc, Some doc, pool2))))))"

section \<open>Test probe\<close>

datatype ngx_test_probe_fault_e = FAULT_SLAB | FAULT_OTHER nat

definition SHIELD_PROBE_ZONE_MAX :: nat where "SHIELD_PROBE_ZONE_MAX = 128"

text \<open>The walk of the render hook: the nodes and the banned ones.\<close>

fun probe_walk :: "time_t \<Rightarrow> (ptr \<rightharpoonup> ngx_http_shield_ban_node_t) \<Rightarrow> ptr list \<Rightarrow> nat \<Rightarrow> nat \<Rightarrow> (nat \<times> nat) option" where
  "probe_walk now nodes [] n b = Some (n, b)"
| "probe_walk now nodes (q # qs) n b =
     (case nodes q of
        None \<Rightarrow> None
      | Some bn \<Rightarrow> probe_walk now nodes qs (n + 1) (if bn_banned_until bn > now then b + 1 else b))"

definition probe_members :: "format_env \<Rightarrow> nat \<Rightarrow> nat \<Rightarrow> int \<Rightarrow> nat \<Rightarrow> bytes" where
  "probe_members fe nodes banned slab_nth seen =
     '','' @ jkey ''nodes'' @ fe_uint fe nodes @ '','' @ jkey ''banned'' @ fe_uint fe banned
     @ '','' @ jkey ''fault'' @ ''{'' @ jkey ''slab_nth'' @ fe_int fe slab_nth @ '','' @ jkey ''slab_seen'' @ fe_uint fe seen @ ''}''"

definition ngx_shield_probe_zone_render :: "format_env \<Rightarrow> time_t \<Rightarrow> nat \<Rightarrow> bytes \<Rightarrow> ngx_http_shield_ban_shctx_t option
    \<Rightarrow> bytes option" where
  "ngx_shield_probe_zone_render fe now cap buf zone =
     (case zone of
        None \<Rightarrow> Some (slput cap buf (probe_members fe 0 0 (- 1) 0))
      | Some sh \<Rightarrow> map_option (\<lambda>(n, b). slput cap buf (probe_members fe n b (sh_fault_nth sh) (sh_fault_seen sh)))
                    (probe_walk now (sh_nodes sh) (sh_queue sh) 0 0))"

definition ngx_shield_probe_fault_set :: "ngx_http_shield_ban_shctx_t option \<Rightarrow> ngx_test_probe_fault_e \<Rightarrow> int
    \<Rightarrow> ngx_rc \<times> ngx_http_shield_ban_shctx_t option" where
  "ngx_shield_probe_fault_set zone fault n =
     (if fault \<noteq> FAULT_SLAB then (NGX_DECLINED, zone)
      else (case zone of
              None \<Rightarrow> (NGX_DECLINED, None)
            | Some sh \<Rightarrow> (NGX_OK, Some (sh\<lparr>sh_fault_nth := n, sh_fault_seen := 0\<rparr>))))"

text \<open>The directive; the flag says that the content handler was installed.\<close>

definition ngx_http_shield_probe :: "conf_env \<Rightarrow> bytes \<Rightarrow> nat conf_ptr \<Rightarrow> conf_rc \<times> nat conf_ptr \<times> bool" where
  "ngx_http_shield_probe env v probe_zone =
     (if probe_zone \<noteq> NULL_PTR then (CONF_DUPLICATE, probe_zone, False)
      else (case ce_shared_memory_add env v 0 of
              None \<Rightarrow> (CONF_ERROR, NULL_PTR, False)
            | Some (z, _) \<Rightarrow> (CONF_OK, PTR z, True)))"

text \<open>What the handler calls of the harness: arming from the query string, and the generic document.\<close>

record probe_env =
  pe_arm :: "ngx_http_shield_ban_shctx_t option \<Rightarrow> ngx_http_shield_ban_shctx_t option"
  pe_json :: "nat \<Rightarrow> ngx_http_shield_ban_shctx_t option \<Rightarrow> bytes"
  pe_json_max :: nat

text \<open>\<open>zone\<close> is the name and the state of the bound zone, if one is bound.\<close>

definition ngx_http_shield_probe_handler :: "content_env \<Rightarrow> probe_env \<Rightarrow> pool
    \<Rightarrow> (bytes \<times> ngx_http_shield_ban_shctx_t option) option
    \<Rightarrow> (ngx_rc \<times> bytes option \<times> pool) \<times> (bytes \<times> ngx_http_shield_ban_shctx_t option) option" where
  "ngx_http_shield_probe_handler ct pe pool zone =
     (if \<not> ct_get_or_head ct then ((NGX_HTTP NGX_HTTP_NOT_ALLOWED, None, pool), zone)
      else if ct_discard ct \<noteq> NGX_OK then ((ct_discard ct, None, pool), zone)
      else (let zone' = map_option (\<lambda>(name, sh). (name, pe_arm pe sh)) zone;
                size = pe_json_max pe + SHIELD_PROBE_ZONE_MAX + (case zone' of None \<Rightarrow> 0 | Some (name, _) \<Rightarrow> length name)
            in case palloc pool of (ok, pool1) \<Rightarrow>
                 if \<not> ok then ((NGX_HTTP NGX_HTTP_INTERNAL_SERVER_ERROR, None, pool1), zone')
                 else (let doc = pe_json pe size (case zone' of None \<Rightarrow> None | Some (_, sh) \<Rightarrow> sh)
                       in case send_document ct pool1 doc of (rc, pool2) \<Rightarrow> ((rc, Some doc, pool2), zone'))))"

section \<open>The document is complete\<close>

lemma slput_fits: "length out + length txt \<le> cap \<Longrightarrow> slput cap out txt = out @ txt"
  by (simp add: slput_def)

text \<open>
  The whole text of the document.  \<open>fe_ok\<close> is what the conversions promise: decimal numbers of 64 bits,
  and an address text of at most 45 plain characters that does not change with more room than that.
\<close>

definition fe_ok :: "format_env \<Rightarrow> bool" where
  "fe_ok fe \<longleftrightarrow> (\<forall>n < 2 ^ 64. fe_uint fe n = dec_nat n) \<and> (\<forall>z. \<bar>z\<bar> < 2 ^ 63 \<longrightarrow> fe_int fe z = dec_int z)
     \<and> (\<forall>v4 a. length (fe_ntop fe v4 a 46) \<le> 45 \<and> plain_text (fe_ntop fe v4 a 46))
     \<and> (\<forall>v4 a room. 46 \<le> room \<longrightarrow> fe_ntop fe v4 a room = fe_ntop fe v4 a 46)"

lemma fe_okD:
  assumes "fe_ok fe"
  shows "n < 2 ^ 64 \<Longrightarrow> fe_uint fe n = dec_nat n" and "\<bar>z\<bar> < 2 ^ 63 \<Longrightarrow> fe_int fe z = dec_int z"
    and "length (fe_ntop fe v4 a 46) \<le> 45" and "plain_text (fe_ntop fe v4 a 46)"
    and "46 \<le> room \<Longrightarrow> fe_ntop fe v4 a room = fe_ntop fe v4 a 46" and "n < 2 ^ 64 \<Longrightarrow> length (fe_uint fe n) \<le> 20"
proof -
  show u: "n < 2 ^ 64 \<Longrightarrow> fe_uint fe n = dec_nat n" for n using assms unfolding fe_ok_def by blast
  show "n < 2 ^ 64 \<Longrightarrow> length (fe_uint fe n) \<le> 20" using u [of n] length_dec_u64 [of n] by simp
qed (use assms in \<open>unfold fe_ok_def, blast+\<close>)

definition banned_entry :: "format_env \<Rightarrow> time_t \<Rightarrow> bool \<Rightarrow> ngx_http_shield_ban_node_t \<Rightarrow> bytes" where
  "banned_entry fe now first bn = (if first then [] else '','') @ ''{'' @ jkey ''addr''
     @ quoted (fe_ntop fe (length (bn_addr bn) = 4) (bn_addr bn) 46) @ '','' @ jkey ''hits'' @ fe_uint fe (bn_hits bn)
     @ '','' @ jkey ''expires'' @ fe_int fe (bn_banned_until bn - now) @ ''}''"

fun banned_list :: "format_env \<Rightarrow> time_t \<Rightarrow> bool \<Rightarrow> ngx_http_shield_ban_node_t list \<Rightarrow> bytes" where
  "banned_list fe now first [] = []"
| "banned_list fe now first (bn # bns) = banned_entry fe now first bn @ banned_list fe now False bns"

text \<open>
  An entry of the ban list fits the 96 bytes reserved for it when its two numbers have at most ten
  digits: fewer than \<open>10 ^ 10\<close> hits in a window, and a ban of fewer than \<open>10 ^ 10\<close> seconds.
\<close>

definition entry_small :: "time_t \<Rightarrow> ngx_http_shield_ban_node_t \<Rightarrow> bool" where
  "entry_small now bn \<longleftrightarrow> bn_hits bn < 10 ^ 10 \<and> 0 \<le> bn_banned_until bn - now \<and> bn_banned_until bn - now < 10 ^ 10"

lemma entry_length:
  assumes "fe_ok fe" and "entry_small now bn"
  shows "length (banned_entry fe now first bn) \<le> 51 + length (fe_ntop fe (length (bn_addr bn) = 4) (bn_addr bn) 46)"
proof -
  let ?d = "bn_banned_until bn - now"
  have "nat ?d < 10 ^ Suc 9" "bn_hits bn < 10 ^ Suc 9" using assms(2) by (auto simp: entry_small_def nat_less_iff)
  then have "length (dec_nat (nat ?d)) \<le> 10" "length (dec_nat (bn_hits bn)) \<le> 10" using length_dec [of _ 9] by simp_all
  moreover have "fe_uint fe (bn_hits bn) = dec_nat (bn_hits bn)" "fe_int fe ?d = dec_nat (nat ?d)"
    using assms(2) fe_okD(1,2) [OF assms(1)] by (simp_all add: entry_small_def dec_int_def)
  ultimately show ?thesis by (simp add: banned_entry_def jkey_def quoted_def)
qed

lemma entry_fits: "fe_ok fe \<Longrightarrow> entry_small now bn \<Longrightarrow> length (banned_entry fe now first bn) \<le> 96"
  using entry_length [of fe now bn first] fe_okD(3) [of fe "length (bn_addr bn) = 4" "bn_addr bn"] by linarith

text \<open>The longest text of an IPv6 address, eight groups of four digits and seven colons.\<close>

definition ntop_short :: "format_env \<Rightarrow> bool" where
  "ntop_short fe \<longleftrightarrow> (\<forall>v4 a. length (fe_ntop fe v4 a 46) \<le> 39)"

lemma ntop_shortD: "ntop_short fe \<Longrightarrow> length (fe_ntop fe v4 a 46) \<le> 39"
  by (simp add: ntop_short_def)

lemma entry_fits_short: "fe_ok fe \<Longrightarrow> ntop_short fe \<Longrightarrow> entry_small now bn \<Longrightarrow> length (banned_entry fe now first bn) \<le> 90"
  using entry_length [of fe now bn first] ntop_shortD [of fe "length (bn_addr bn) = 4" "bn_addr bn"] by linarith

lemma put_banned_eq:
  assumes "fe_ok fe" and "entry_small now bn" and "length p + 96 \<le> cap"
  shows "put_banned fe cap now first bn p = p @ banned_entry fe now first bn"
proof -
  let ?t1 = "(if first then [] else '','') @ ''{'' @ jkey ''addr'' @ [CHR 0x22]"
  have "length ?t1 \<le> 10" by (simp add: jkey_def quoted_def)
  then have p1: "slput cap p ?t1 = p @ ?t1" "46 \<le> cap - length (p @ ?t1)" using assms(3) by (auto intro!: slput_fits)
  then have n: "fe_ntop fe v4 a (cap - length (p @ ?t1)) = fe_ntop fe v4 a 46" for v4 a
    by (intro fe_okD(5) [OF assms(1)])
  note entry_fits [OF assms(1,2), of first]
  then show ?thesis using assms(3) unfolding put_banned_def Let_def p1(1) n
    by (subst slput_fits) (auto simp: banned_entry_def quoted_def)
qed

lemma status_walk_eq:
  fixes nodes :: "ptr \<rightharpoonup> ngx_http_shield_ban_node_t" and qs :: "ptr list" and now :: time_t
  defines "bns \<equiv> \<lambda>qs. filter (\<lambda>bn. bn_banned_until bn > now) (map (the \<circ> nodes) qs)"
  assumes "fe_ok fe" and "set qs \<subseteq> dom nodes" and "list_all (entry_small now) (bns qs)" and "length p + 96 * length qs \<le> cap"
  shows "status_walk fe cap now nodes qs first p = Some (p @ banned_list fe now first (bns qs))
    \<and> length (p @ banned_list fe now first (bns qs)) \<le> length p + 96 * length qs"
  using assms(3-5)
proof (induction qs arbitrary: first p)
  case (Cons q qs)
  obtain bn where bn: "nodes q = Some bn" using Cons.prems(1) by auto
  show ?case
  proof (cases "bn_banned_until bn \<le> now")
    case True
    then have "bns (q # qs) = bns qs" using bn by (simp add: bns_def)
    then show ?thesis using Cons.IH [of p first] Cons.prems True bn by simp
  next
    case False
    then have b: "bns (q # qs) = bn # bns qs" using bn by (simp add: bns_def)
    then have small: "entry_small now bn" "list_all (entry_small now) (bns qs)" using Cons.prems(2) by simp_all
    note len = entry_fits [OF assms(2) small(1), of first]
    have eq: "put_banned fe cap now first bn p = p @ banned_entry fe now first bn"
      using put_banned_eq [OF assms(2) small(1)] Cons.prems(3) by simp
    show ?thesis
      using Cons.IH [of "p @ banned_entry fe now first bn" False] Cons.prems small(2) len False bn b eq by simp
  qed
qed (simp add: bns_def)

text \<open>
  The walk over a zone that outgrew the buffer stops after whole entries and leaves room for the end of
  the document; it lists at least as many clients as the buffer was sized for.
\<close>

lemma status_walk_cut:
  fixes nodes :: "ptr \<rightharpoonup> ngx_http_shield_ban_node_t" and qs :: "ptr list" and now :: time_t
  defines "bns \<equiv> \<lambda>qs. filter (\<lambda>bn. bn_banned_until bn > now) (map (the \<circ> nodes) qs)"
  assumes "fe_ok fe" and "ntop_short fe" and "set qs \<subseteq> dom nodes" and "list_all (entry_small now) (bns qs)" and "length p + 96 * m + 2 \<le> cap"
  shows "\<exists>k. status_walk fe cap now nodes qs first p = Some (p @ banned_list fe now first (take k (bns qs)))
    \<and> min m (length (bns qs)) \<le> k \<and> k \<le> length (bns qs) \<and> length (p @ banned_list fe now first (take k (bns qs))) + 2 \<le> cap"
  using assms(4-6)
proof (induction qs arbitrary: first p m)
  case (Cons q qs)
  obtain bn where bn: "nodes q = Some bn" using Cons.prems(1) by auto
  show ?case
  proof (cases "bn_banned_until bn \<le> now")
    case True
    then have "bns (q # qs) = bns qs" using bn by (simp add: bns_def)
    then show ?thesis using Cons.IH [of p m first] Cons.prems True bn by simp
  next
    case False
    then have b: "bns (q # qs) = bn # bns qs" using bn by (simp add: bns_def)
    then have small: "entry_small now bn" "list_all (entry_small now) (bns qs)" using Cons.prems(2) by simp_all
    show ?thesis
    proof (cases "cap - length p < 96")
      case True
      then have "m = 0" using Cons.prems(3) by (cases m) auto
      then show ?thesis using True False bn Cons.prems(3) by (intro exI [of _ 0]) simp
    next
      case room: False
      let ?p = "p @ banned_entry fe now first bn"
      have eq: "put_banned fe cap now first bn p = ?p" using put_banned_eq [OF assms(2) small(1)] room by simp
      have len: "length ?p + 96 * (m - 1) + 2 \<le> cap"
        using entry_fits_short [OF assms(2,3) small(1), of first] Cons.prems(3) room by (cases m) auto
      obtain k where "status_walk fe cap now nodes qs False ?p = Some (?p @ banned_list fe now False (take k (bns qs)))"
          "min (m - 1) (length (bns qs)) \<le> k" "k \<le> length (bns qs)" "length (?p @ banned_list fe now False (take k (bns qs))) + 2 \<le> cap"
        using Cons.IH [OF _ small(2) len, of False] Cons.prems(1) by auto
      then show ?thesis using bn False room eq b by (intro exI [of _ "Suc k"]) auto
    qed
  qed
qed (simp add: bns_def)

lemma cat_name_short: "list_all (\<lambda>i. length (ngx_http_shield_cat_name i) \<le> 60) [0..<CAT_N]"
proof -
  have "length (ngx_http_shield_cat_name (cat_val k)) \<le> 60" for k
    by (cases k) (simp_all add: cat_eval)
  moreover have "list_all (\<lambda>i. cat_val (all_cats ! i) = i) [0..<CAT_N]" by code_simp
  ultimately show ?thesis unfolding list_all_iff by metis
qed

fun cat_list :: "format_env \<Rightarrow> nat list \<Rightarrow> bool \<Rightarrow> nat list \<Rightarrow> bytes" where
  "cat_list fe cat_hits first [] = []"
| "cat_list fe cat_hits first (i # is) = cat_entry fe cat_hits first i @ cat_list fe cat_hits False is"

lemma status_cats_eq:
  assumes "fe_ok fe" and "list_all (\<lambda>n. n < 2 ^ 64) cat_hits"
    and "list_all (\<lambda>i. length (ngx_http_shield_cat_name i) \<le> 60 \<and> i < length cat_hits) is" and "length p + 84 * length is \<le> cap"
  shows "status_cats fe cat_hits cap first is p = p @ cat_list fe cat_hits first is
    \<and> length (p @ cat_list fe cat_hits first is) \<le> length p + 84 * length is"
  using assms(3,4)
proof (induction "is" arbitrary: first p)
  case (Cons i "is")
  have "cat_hits ! i < 2 ^ 64" using assms(2) Cons.prems(1) by (simp add: list_all_iff)
  then have "length (fe_uint fe (cat_hits ! i)) \<le> 20" by (rule fe_okD(6) [OF assms(1)])
  then have len: "length (cat_entry fe cat_hits first i) \<le> 84" using Cons.prems(1) by (simp add: cat_entry_def jkey_def quoted_def)
  then have "slput cap p (cat_entry fe cat_hits first i) = p @ cat_entry fe cat_hits first i"
    using Cons.prems(2) by (intro slput_fits) simp
  then show ?case using Cons.IH [of "p @ cat_entry fe cat_hits first i" False] Cons.prems len by simp
qed simp

definition counters_ok :: "ngx_http_shield_ban_shctx_t \<Rightarrow> bool" where
  "counters_ok sh \<longleftrightarrow> list_all (\<lambda>n. n < 2 ^ 64) (sh_cat_hits sh) \<and> sh_blocked sh < 2 ^ 64 \<and> sh_bans sh < 2 ^ 64
     \<and> length (sh_queue sh) < 2 ^ 64"

text \<open>The nodes with a ban in force, in queue order.\<close>

definition banned_nodes :: "time_t \<Rightarrow> ngx_http_shield_ban_shctx_t \<Rightarrow> ngx_http_shield_ban_node_t list" where
  "banned_nodes now sh = filter (\<lambda>bn. bn_banned_until bn > now) (map (the \<circ> sh_nodes sh) (sh_queue sh))"

text \<open>What is written before the walk, from the first snapshot alone.\<close>

definition status_front :: "format_env \<Rightarrow> bytes \<Rightarrow> ngx_http_shield_ban_shctx_t \<Rightarrow> bytes" where
  "status_front fe name sh = status_head fe name (length (sh_queue sh)) (sh_blocked sh) (sh_bans sh)
     @ cat_list fe (sh_cat_hits sh) True [0..<CAT_N] @ ''},'' @ jkey ''banned'' @ ''[''"

lemma status_document_front:
  fixes name :: bytes
  assumes fe: "fe_ok fe" and inv: "ban_inv sh1" and c: "counters_ok sh1"
  defines "cap \<equiv> status_size name (length (sh_queue sh1))"
  shows "status_document fe now name sh1 sh2 =
      map_option (\<lambda>p. slput cap p '']}'') (status_walk fe cap now (sh_nodes sh2) (sh_queue sh2) True (status_front fe name sh1))"
    and "length (status_front fe name sh1) + 96 * length (sh_queue sh1) + 2 \<le> cap"
proof -
  let ?n = "length (sh_queue sh1)"
  let ?head = "status_head fe name ?n (sh_blocked sh1) (sh_bans sh1)"
    and ?cats = "cat_list fe (sh_cat_hits sh1) True [0..<CAT_N]" and ?mid = "''},'' @ jkey ''banned'' @ ''[''"
  have l64: "length (sh_cat_hits sh1) = 64" using inv by (simp add: ban_inv_def zone_ok_def BAN_NCOUNTERS_def)
  note u = fe_okD(6) [OF fe]
  have cap: "cap = 68 + length name + 60 + 84 * CAT_N + 96 * ?n"
    by (simp add: cap_def status_size_def NGX_INT64_LEN_def jkey_def quoted_def)
  have h: "length ?head \<le> length name + 113"
    using u [of ?n] u [of "sh_blocked sh1"] u [of "sh_bans sh1"] c by (simp add: status_head_def counters_ok_def jkey_def quoted_def)
  have short: "list_all (\<lambda>i. length (ngx_http_shield_cat_name i) \<le> 60 \<and> i < length (sh_cat_hits sh1)) [0..<CAT_N]"
    using cat_name_short unfolding list_all_iff l64 by (simp add: CAT_N_def)
  have m: "length ?mid = 12" by (simp add: jkey_def quoted_def)
  have p1: "slput cap [] ?head = ?head" using h cap by (simp add: slput_def)
  have p2: "status_cats fe (sh_cat_hits sh1) cap True [0..<CAT_N] ?head = ?head @ ?cats"
    and l2: "length (?head @ ?cats) \<le> length ?head + 84 * CAT_N"
    using status_cats_eq [OF fe _ short, of ?head cap True] c h cap by (auto simp: counters_ok_def)
  have p3: "slput cap (?head @ ?cats) ?mid = (?head @ ?cats) @ ?mid" using l2 h cap m by (intro slput_fits) simp
  show "status_document fe now name sh1 sh2 =
      map_option (\<lambda>p. slput cap p '']}'') (status_walk fe cap now (sh_nodes sh2) (sh_queue sh2) True (status_front fe name sh1))"
    unfolding status_document_def Let_def cap_def [symmetric] p1 p2 p3 by (simp add: status_front_def)
  show "length (status_front fe name sh1) + 96 * ?n + 2 \<le> cap" using l2 h cap m by (simp add: status_front_def)
qed

lemma status_document_complete:
  assumes fe: "fe_ok fe" and inv: "ban_inv sh" and c: "counters_ok sh" and small: "list_all (entry_small now) (banned_nodes now sh)"
  shows "status_document fe now name sh sh = Some (status_front fe name sh @ banned_list fe now True (banned_nodes now sh) @ '']}'')"
proof -
  let ?cap = "status_size name (length (sh_queue sh))"
  have q: "set (sh_queue sh) \<subseteq> dom (sh_nodes sh)" using inv by (simp add: ban_inv_def zone_ok_def)
  have w: "status_walk fe ?cap now (sh_nodes sh) (sh_queue sh) True (status_front fe name sh)
      = Some (status_front fe name sh @ banned_list fe now True (banned_nodes now sh))"
    and l: "length (status_front fe name sh @ banned_list fe now True (banned_nodes now sh)) + 2 \<le> ?cap"
    using status_walk_eq [OF fe q, of now "status_front fe name sh" ?cap True] small status_document_front(2) [OF fe inv c, of name]
    by (auto simp: banned_nodes_def)
  then show ?thesis unfolding status_document_front(1) [OF fe inv c] w option.map by (subst slput_fits) simp_all
qed

lemma status_document_cut:
  assumes fe: "fe_ok fe" "ntop_short fe" and inv: "ban_inv sh1" "ban_inv sh2" and c: "counters_ok sh1"
    and small: "list_all (entry_small now) (banned_nodes now sh2)"
  shows "\<exists>k. status_document fe now name sh1 sh2 =
      Some (status_front fe name sh1 @ banned_list fe now True (take k (banned_nodes now sh2)) @ '']}'')
    \<and> min (length (sh_queue sh1)) (length (banned_nodes now sh2)) \<le> k \<and> k \<le> length (banned_nodes now sh2)
    \<and> length (status_front fe name sh1 @ banned_list fe now True (take k (banned_nodes now sh2)) @ '']}'') \<le> status_size name (length (sh_queue sh1))"
proof -
  let ?cap = "status_size name (length (sh_queue sh1))"
  have q: "set (sh_queue sh2) \<subseteq> dom (sh_nodes sh2)" using inv(2) by (simp add: ban_inv_def zone_ok_def)
  obtain k where k: "status_walk fe ?cap now (sh_nodes sh2) (sh_queue sh2) True (status_front fe name sh1)
      = Some (status_front fe name sh1 @ banned_list fe now True (take k (banned_nodes now sh2)))"
      "min (length (sh_queue sh1)) (length (banned_nodes now sh2)) \<le> k" "k \<le> length (banned_nodes now sh2)"
      "length (status_front fe name sh1 @ banned_list fe now True (take k (banned_nodes now sh2))) + 2 \<le> ?cap"
    using status_walk_cut [OF fe q, of now "status_front fe name sh1" "length (sh_queue sh1)" ?cap True] small
      status_document_front(2) [OF fe(1) inv(1) c, of name] unfolding banned_nodes_def by blast
  have "slput ?cap (status_front fe name sh1 @ banned_list fe now True (take k (banned_nodes now sh2))) '']}''
      = status_front fe name sh1 @ banned_list fe now True (take k (banned_nodes now sh2)) @ '']}''"
    using k(4) by (subst slput_fits) simp_all
  then show ?thesis using status_document_front(1) [OF fe(1) inv(1) c, of now name sh2] k by (intro exI [of _ k]) simp
qed

text \<open>The document as a JSON value.\<close>

definition banned_json :: "format_env \<Rightarrow> time_t \<Rightarrow> ngx_http_shield_ban_node_t \<Rightarrow> json" where
  "banned_json fe now bn = JObj
     [(''addr'', JStr (fe_ntop fe (length (bn_addr bn) = 4) (bn_addr bn) 46)), (''hits'', JNum (int (bn_hits bn))),
      (''expires'', JNum (bn_banned_until bn - now))]"

definition status_json_with :: "format_env \<Rightarrow> time_t \<Rightarrow> bytes \<Rightarrow> ngx_http_shield_ban_shctx_t \<Rightarrow> ngx_http_shield_ban_node_t list \<Rightarrow> json" where
  "status_json_with fe now name sh bns = JObj
     [(''zone'', JStr name), (''nodes'', JNum (int (length (sh_queue sh)))), (''blocked'', JNum (int (sh_blocked sh))),
      (''bans'', JNum (int (sh_bans sh))),
      (''categories'', JObj (map (\<lambda>i. (ngx_http_shield_cat_name i, JNum (int (sh_cat_hits sh ! i)))) [0..<CAT_N])),
      (''banned'', JArr (map (banned_json fe now) bns))]"

definition status_json :: "format_env \<Rightarrow> time_t \<Rightarrow> bytes \<Rightarrow> ngx_http_shield_ban_shctx_t \<Rightarrow> json" where
  "status_json fe now name sh = status_json_with fe now name sh (banned_nodes now sh)"

lemma banned_entry_json:
  assumes "fe_ok fe" and "entry_small now bn"
  shows "banned_entry fe now first bn = (if first then [] else '','') @ print_json (banned_json fe now bn)"
  using assms(2) fe_okD(1,2,4) [OF assms(1)]
  by (simp add: banned_entry_def banned_json_def entry_small_def print_member_def plain_text_esc esc_def quoted_def jkey_def dec_int_def)

lemma banned_list_json:
  assumes "fe_ok fe" and "list_all (entry_small now) bns"
  shows "banned_list fe now first bns = (if first \<or> bns = [] then [] else '','') @ commas (map (print_json \<circ> banned_json fe now) bns)"
  using assms(2)
proof (induction bns arbitrary: first)
  case (Cons bn bns)
  then show ?case using banned_entry_json [OF assms(1), of now bn first] by (simp add: commas_Cons del: print_json.simps)
qed simp

lemma cat_list_json:
  assumes "fe_ok fe" and "list_all (\<lambda>n. n < 2 ^ 64) cat_hits"
    and "list_all (\<lambda>i. plain_text (ngx_http_shield_cat_name i)) is" and "list_all (\<lambda>i. i < length cat_hits) is"
  shows "cat_list fe cat_hits first is = (if first \<or> is = [] then [] else '','')
    @ commas (map (\<lambda>i. print_member (ngx_http_shield_cat_name i, JNum (int (cat_hits ! i)))) is)"
  using assms(3,4)
proof (induction "is" arbitrary: first)
  case (Cons i "is")
  have "cat_hits ! i < 2 ^ 64" using assms(2) Cons.prems(2) by (simp add: list_all_iff)
  then have "fe_uint fe (cat_hits ! i) = dec_nat (cat_hits ! i)" by (rule fe_okD(1) [OF assms(1)])
  then show ?case using Cons by (simp add: commas_Cons cat_entry_def print_plain dec_int_def)
qed simp

lemma status_text_json:
  assumes fe: "fe_ok fe" and inv: "ban_inv sh" and c: "counters_ok sh" and small: "list_all (entry_small now) bns"
    and name: "plain_text name"
  shows "status_front fe name sh @ banned_list fe now True bns @ '']}'' = print_json (status_json_with fe now name sh bns)"
proof -
  have l: "list_all (\<lambda>i. i < length (sh_cat_hits sh)) [0..<CAT_N]"
    using inv by (simp add: ban_inv_def zone_ok_def BAN_NCOUNTERS_def CAT_N_def list_all_iff)
  have h: "list_all (\<lambda>n. n < 2 ^ 64) (sh_cat_hits sh)" using c by (simp add: counters_ok_def)
  note lists = banned_list_json [OF fe small, of True] cat_list_json [OF fe h cat_name_plain l, of True]
  show ?thesis unfolding status_front_def lists
    using fe_okD(1) [OF fe] c plain_text_esc [OF name]
    by (simp add: status_json_with_def status_head_def counters_ok_def print_member_def [of "(''zone'', v)" for v]
        print_member_def [of "(''nodes'', v)" for v] print_member_def [of "(''blocked'', v)" for v] print_member_def [of "(''bans'', v)" for v]
        print_member_def [of "(''categories'', v)" for v] print_member_def [of "(''banned'', v)" for v]
        esc_def quoted_def jkey_def dec_int_def comp_def)
qed

lemma status_document_json:
  assumes fe: "fe_ok fe" and inv: "ban_inv sh" and c: "counters_ok sh" and small: "list_all (entry_small now) (banned_nodes now sh)"
    and name: "plain_text name"
  shows "status_document fe now name sh sh = Some (print_json (status_json fe now name sh))"
  using status_document_complete [OF fe inv c small] status_text_json [OF fe inv c small name] by (simp add: status_json_def)

section \<open>Probe counts\<close>

lemma probe_walk_counts:
  assumes "set qs \<subseteq> dom nodes"
  shows "probe_walk now nodes qs n b =
    Some (n + length qs, b + length (filter (\<lambda>q. bn_banned_until (the (nodes q)) > now) qs))"
  using assms by (induction qs arbitrary: n b) auto

text \<open>The clients with a ban in force, and the number the probe reports.\<close>

definition banned_clients :: "time_t \<Rightarrow> ngx_http_shield_ban_shctx_t \<Rightarrow> client set" where
  "banned_clients now sh = {c. \<exists>bn. ban_view sh c = Some bn \<and> bn_banned_until bn > now}"

lemma client_inj: "zone_ok sh \<Longrightarrow> inj_on (client_at (sh_nodes sh)) (set (sh_queue sh))"
proof (rule inj_onI)
  fix p q assume z: "zone_ok sh" and pq: "p \<in> set (sh_queue sh)" "q \<in> set (sh_queue sh)"
    "client_at (sh_nodes sh) p = client_at (sh_nodes sh) q"
  then obtain a b where "sh_nodes sh p = Some a" "sh_nodes sh q = Some b" by (auto simp: zone_ok_def)
  then show "p = q" using zone_ok_unique [OF z] pq(3) by (simp add: client_at_def)
qed

lemma banned_count:
  assumes "ban_inv sh"
  shows "length (filter (\<lambda>q. bn_banned_until (the (sh_nodes sh q)) > now) (sh_queue sh)) = card (banned_clients now sh)"
    and "length (sh_queue sh) = card (dom (ban_view sh))"
proof -
  have z: "zone_ok sh" using assms by (simp add: ban_inv_def)
  have d: "distinct (sh_queue sh)" and q: "set (sh_queue sh) = dom (sh_nodes sh)" using z by (simp_all add: zone_ok_def)
  have c: "client_at (sh_nodes sh) p = client_of bn" if "sh_nodes sh p = Some bn" for p bn using that by (simp add: client_at_def)
  let ?B = "{p \<in> set (sh_queue sh). bn_banned_until (the (sh_nodes sh p)) > now}"
  have "banned_clients now sh = client_at (sh_nodes sh) ` ?B"
    unfolding banned_clients_def ban_view_Some [OF z] q
  proof (intro set_eqI iffI)
    fix x assume "x \<in> {c. \<exists>bn. (\<exists>p. sh_nodes sh p = Some bn \<and> client_of bn = c) \<and> now < bn_banned_until bn}"
    then obtain p bn where p: "sh_nodes sh p = Some bn" "client_of bn = x" "now < bn_banned_until bn" by blast
    then have "x = client_at (sh_nodes sh) p" using c by simp
    then show "x \<in> client_at (sh_nodes sh) ` {p \<in> dom (sh_nodes sh). now < bn_banned_until (the (sh_nodes sh p))}"
      using p by (intro image_eqI [of _ _ p]) auto
  next
    fix x assume "x \<in> client_at (sh_nodes sh) ` {p \<in> dom (sh_nodes sh). now < bn_banned_until (the (sh_nodes sh p))}"
    then obtain p bn where "sh_nodes sh p = Some bn" "x = client_at (sh_nodes sh) p" "now < bn_banned_until bn" by auto
    then have "sh_nodes sh p = Some bn \<and> client_of bn = x \<and> now < bn_banned_until bn" using c by simp
    then show "x \<in> {c. \<exists>bn. (\<exists>p. sh_nodes sh p = Some bn \<and> client_of bn = c) \<and> now < bn_banned_until bn}" by blast
  qed
  then have "card (banned_clients now sh) = card ?B"
    using card_image [OF inj_on_subset [OF client_inj [OF z]], of ?B] by auto
  then show "length (filter (\<lambda>q. bn_banned_until (the (sh_nodes sh q)) > now) (sh_queue sh)) = card (banned_clients now sh)"
    using distinct_card [OF distinct_filter [OF d]] by (simp add: set_filter)
  have "dom (ban_view sh) = client_at (sh_nodes sh) ` set (sh_queue sh)"
  proof (intro set_eqI iffI)
    fix x assume "x \<in> dom (ban_view sh)"
    then obtain p bn where p: "sh_nodes sh p = Some bn" "client_of bn = x" using ban_view_Some [OF z] by blast
    then show "x \<in> client_at (sh_nodes sh) ` set (sh_queue sh)" using c q by (intro image_eqI [of _ _ p]) auto
  next
    fix x assume "x \<in> client_at (sh_nodes sh) ` set (sh_queue sh)"
    then obtain p bn where "sh_nodes sh p = Some bn" "client_of bn = x" using c q by auto
    then show "x \<in> dom (ban_view sh)" using ban_view_Some [OF z] by blast
  qed
  then show "length (sh_queue sh) = card (dom (ban_view sh))"
    using card_image [OF client_inj [OF z]] distinct_card [OF d] by simp
qed

section \<open>Fault injection\<close>

text \<open>A run of allocations, with the answer of each.\<close>

fun alloc_run :: "ngx_ops \<Rightarrow> nat \<Rightarrow> ngx_http_shield_ban_shctx_t \<Rightarrow> ngx_http_shield_ban_shctx_t" where
  "alloc_run ops 0 sh = sh"
| "alloc_run ops (Suc k) sh = snd (ngx_shield_slab_alloc ops (alloc_run ops k sh))"

lemma alloc_run_seen:
  assumes "op_harness ops" and "0 \<le> sh_fault_nth sh" and "sh_fault_seen sh + k < 2 ^ 64"
  shows "alloc_run ops k sh = sh\<lparr>sh_fault_seen := sh_fault_seen sh + k\<rparr>"
  using assms(3)
proof (induction k)
  case (Suc k)
  have lt: "sh_fault_seen sh + k + 1 < 2 ^ 64" using Suc.prems by simp
  have "inc64 (sh_fault_seen sh + k) = sh_fault_seen sh + k + 1" unfolding inc64_def by (rule mod_less [OF lt])
  then show ?case using Suc assms(1,2)
    by (simp add: ngx_shield_slab_alloc_def ngx_http_shield_ban_slab_alloc_def Let_def)
qed simp

end
