(* ===== verification/Scan_Examples.thy ===== *)
theory Scan_Examples
  imports Tables
begin

text \<open>
  Concrete inputs of the scanner: an ASCII \<open>ngx_strlow\<close>, an identity decoding, a clean buffer and an
  attack.
\<close>

definition strlow_ascii :: "bytes \<Rightarrow> bytes" where
  "strlow_ascii = map (\<lambda>c. if is_upper c then char_of (byte_val c + 32) else c)"

definition plain_globals :: shield_globals where
  "plain_globals = \<lparr>g_raw = ngx_http_shield_ac_raw, g_decoded = ngx_http_shield_ac_decoded,
     g_strlow = strlow_ascii, g_unescape_uri = (\<lambda>data. data)\<rparr>"

lemma plain_globals_ok: "globals_ok plain_globals"
  by (simp add: globals_ok_def plain_globals_def)

lemma plain_copies:
  "attack_in plain_globals MATCH_RAW skip data \<longleftrightarrow> table_attack MATCH_RAW skip (strlow_ascii data)"
  "attack_in plain_globals MATCH_DECODED skip data \<longleftrightarrow> table_attack MATCH_DECODED skip (strlow_ascii (plus_to_space data))"
  by (simp_all add: attack_in_def plain_globals_def raw_buffer_def decoded_buffer_def)

lemma clean_example:
  "\<not> table_attack MATCH_RAW 0 (strlow_ascii ''/A+b'')"
  "\<not> table_attack MATCH_DECODED 0 (strlow_ascii (plus_to_space ''/A+b''))"
  by code_simp+

lemma script_attack: "table_attack MATCH_DECODED 0 (strlow_ascii (plus_to_space ''<SCRIPT''))"
  by code_simp

lemma script_hit: "\<exists>h. ngx_http_shield_scan_input plain_globals ''<SCRIPT'' source 0 hit = (NGX_OK, h)"
proof -
  have "buffer_spec plain_globals 0 ''<SCRIPT'' \<noteq> None"
    unfolding buffer_spec_None plain_copies using script_attack by simp
  then show ?thesis unfolding scan_input_spec [OF plain_globals_ok] by auto
qed

end
