(* ===== verification/Examples.thy ===== *)
theory Examples
  imports Status Scan_Examples
begin

text \<open>
  Concrete environments, zones and requests, on which the properties are applied: comparison and
  search functions as nginx documents them, a location in block mode with bans, and one client with a
  recorded hit.
\<close>

section \<open>nginx functions\<close>

definition strncasecmp_ascii :: "bytes \<Rightarrow> bytes \<Rightarrow> nat \<Rightarrow> int" where
  "strncasecmp_ascii a b n = (if strlow_ascii (take n a) = strlow_ascii (take n b) then 0 else 1)"

definition strlchr_first :: "bytes \<Rightarrow> byte \<Rightarrow> nat option" where
  "strlchr_first s c = (if c \<in> set s then Some (length (takeWhile (\<lambda>d. d \<noteq> c) s)) else None)"

definition ex_env :: ngx_env where
  "ex_env = \<lparr>e_globals = plain_globals, e_strncasecmp = strncasecmp_ascii, e_strlchr = strlchr_first\<rparr>"

lemma ex_globals [simp]: "e_globals ex_env = plain_globals"
  by (simp add: ex_env_def)

definition ex_log :: log_env where
  "ex_log = \<lparr>le_hex4 = (\<lambda>n. ''00'' @ [hex_digit (n div 16), hex_digit (n mod 16)]), le_uint = dec_nat,
     le_iso8601 = ''2026-01-01T00:00:00+00:00'', le_time = 1000, le_write_fd = (\<lambda>out. Written (int (length out))),
     le_syslog_header = []\<rparr>"

lemma ex_log_ok: "log_env_ok ex_log"
  by (simp add: log_env_ok_def ex_log_def)

text \<open>Addresses in hexadecimal.\<close>

definition hex_text :: "bytes \<Rightarrow> bytes" where
  "hex_text a = concat (map (\<lambda>c. [hex_digit (byte_val c div 16), hex_digit (byte_val c mod 16)]) a)"

definition ex_format :: format_env where
  "ex_format = \<lparr>fe_uint = dec_nat, fe_int = dec_int, fe_ntop = (\<lambda>v4 a room. take (min room 39) (hex_text a))\<rparr>"

lemma hex_digit_plain: "n < 16 \<Longrightarrow> plain_text [hex_digit n]"
proof -
  assume "n < 16"
  then have v: "48 \<le> byte_val (hex_digit n) \<and> byte_val (hex_digit n) < 128 \<and> byte_val (hex_digit n) \<noteq> 92"
    by (auto simp: hex_digit_def)
  then have "hex_digit n \<noteq> CHR 0x5C \<and> hex_digit n \<noteq> CHR 0x22" by auto
  then show ?thesis using v by (simp add: plain_text_def)
qed

lemma hex_text_plain: "plain_text (hex_text a)"
proof (induction a)
  case (Cons c a)
  then show ?case using hex_digit_plain [OF byte_nibbles(1) [of c]] hex_digit_plain [OF byte_nibbles(2) [of c]]
    by (simp add: hex_text_def plain_text_def)
qed (simp add: hex_text_def plain_text_def)

lemma ex_format_ok: "fe_ok ex_format" "ntop_short ex_format"
proof -
  have "plain_text (take n (hex_text a))" for n a
    using hex_text_plain [of a] by (auto simp: plain_text_def list_all_iff dest: in_set_takeD)
  then show "fe_ok ex_format" by (simp add: fe_ok_def ex_format_def min_def)
qed (simp add: ntop_short_def ex_format_def)

definition ex_handler :: "time_t \<Rightarrow> handler_env" where
  "ex_handler now = \<lparr>he_env = ex_env, he_log = ex_log, he_ops = spine_ops fresh_slab, he_crc32 = length,
     he_time = now, he_cidr_match = (\<lambda>sa cs. True), he_parse_addr_port = (\<lambda>name. None), he_read_body = NGX_OK\<rparr>"

section \<open>A location, its zone and a client\<close>

definition ex_conf :: ngx_http_shield_loc_conf_t where
  "ex_conf = \<lparr>lc_mode = SHIELD_BLOCK, lc_body = 1, lc_max_body = 8192, lc_status = 403, lc_skip = 0, lc_log = PTR 3,
     lc_log_error_time = 0, lc_log_disk_full_time = 0, lc_syslog_peer = NULL_PTR, lc_ban_zone = PTR 7, lc_ban_count = 2,
     lc_ban_window = 60, lc_ban_time = 3600, lc_ban_key = BAN_KEY_PEER, lc_ban_trusted = NULL_PTR, lc_status_zone = NULL_PTR\<rparr>"

definition ex_addr :: bytes where
  "ex_addr = [CHR 0x0A, CHR 0x00, CHR 0x00, CHR 0x01]"

definition ex_node :: ngx_http_shield_ban_node_t where
  "ex_node = \<lparr>bn_key = 4, bn_addr = ex_addr, bn_window_start = 990, bn_banned_until = 0, bn_hits = 1\<rparr>"

definition ex_zone :: "ngx_http_shield_ban_node_t \<Rightarrow> ngx_http_shield_ban_shctx_t" where
  "ex_zone bn = \<lparr>sh_rbtree = \<langle>\<langle>\<rangle>, 1, \<langle>\<rangle>\<rangle>, sh_queue = [1], sh_cat_hits = replicate 64 0, sh_blocked = 0, sh_bans = 0,
     sh_cursor = None, sh_fault_nth = - 1, sh_fault_seen = 0, sh_nodes = [1 \<mapsto> bn]\<rparr>"

lemma ex_zone_inv: "ban_inv (ex_zone bn)"
  by (auto simp: ban_inv_def zone_ok_def in_use_def ex_zone_def tree_ok_def BAN_NCOUNTERS_def split: if_splits)

lemma ex_zone_view: "ban_view (ex_zone bn) = [client_of bn \<mapsto> bn]"
  by (auto simp: ban_view_def ex_zone_def client_at_def fun_eq_iff)

definition ex_state :: "ngx_http_shield_loc_conf_t \<Rightarrow> ngx_http_shield_ban_node_t \<Rightarrow> req_state" where
  "ex_state slcf bn = \<lparr>rs_zones = [7 \<mapsto> ex_zone bn], rs_ctx = None, rs_pool = [], rs_conf = slcf, rs_log = []\<rparr>"

lemma ex_state_ok: "lc_ban_zone slcf \<in> {PTR 7, NULL_PTR} \<Longrightarrow> state_ok (ex_handler now) (ex_state slcf bn)"
  using fresh_ops_ok ex_zone_inv by (auto simp: state_ok_def ex_handler_def ex_state_def zones_ok_def zone_ready_def zone_of_def)

text \<open>A request from that client for a path.\<close>

definition ex_req :: "bytes \<Rightarrow> ngx_http_request_t" where
  "ex_req path = \<lparr>r_main = True, r_uri = path, r_unparsed_uri = path, r_request_line = ''GET '' @ path @ '' HTTP/1.1'',
     r_headers = [], r_range = None, r_content_type = [], r_content_length_n = 0, r_chunked = False, r_body = None,
     r_x_forwarded_for = [], r_sockaddr = AF_INET ex_addr, r_addr_text = ''10.0.0.1''\<rparr>"

lemma ex_files_read: "files_read file (ex_req path)"
  by (simp add: files_read_def ex_req_def)

section \<open>A clean request and an attack\<close>

lemma clean_skip_mono: "clean env 0 data \<Longrightarrow> clean env skip data"
  using scan_spec_skip_antimono [of _ _ _ 0 _ skip] by (auto simp: buffer_spec_def split: if_splits option.splits)

lemma ex_clean: "clean ex_env skip ''/A+b''"
  by (rule clean_skip_mono) (use clean_example in \<open>simp add: buffer_spec_None plain_copies\<close>)

lemma ex_prebody_clean: "lc_skip slcf = 0 \<Longrightarrow> prebody_clean ex_env slcf (ex_req ''/A+b'')"
proof -
  have "path_of ex_env ''/A+b'' = ''/A+b''" by (simp add: path_of_def ex_env_def strlchr_first_def)
  moreover have "structural_clean ex_env slcf (ex_req ''/A+b'')"
    by (simp add: structural_clean_def ex_req_def dot_segment_def WELL_KNOWN_def)
  ultimately show ?thesis
    using ex_clean by (simp add: prebody_clean_def target_clean_def ex_req_def)
qed

lemma ex_attack: "lc_skip slcf = 0 \<Longrightarrow> \<not> prebody_clean ex_env slcf (ex_req ''/.git/HEAD'')"
  by (simp add: prebody_clean_def structural_clean_def ex_req_def dot_segment_def WELL_KNOWN_def cat_skipped_def)

section \<open>That client at the door\<close>

lemma ex_ban_addr:
  "lc_ban_key slcf = BAN_KEY_PEER \<Longrightarrow> ngx_http_shield_ban_addr (ex_handler now) (ex_req path) slcf = Some ex_addr"
  by (subst ban_addr_peer) (simp_all add: BAN_KEY_PEER_def BAN_KEY_FORWARDED_def ex_req_def ex_addr_def)

lemma ex_client: "client_of (ex_node\<lparr>bn_banned_until := t\<rparr>) = (4, ex_addr)" "client_of ex_node = (4, ex_addr)"
    "he_crc32 (ex_handler now) ex_addr = 4"
  by (simp_all add: client_of_def ex_node_def ex_handler_def ex_addr_def)

lemma ex_main: "lc_mode slcf = SHIELD_BLOCK \<Longrightarrow> \<not> passes_by (ex_req path) (ex_state slcf bn)"
  by (simp add: passes_by_def ex_req_def ex_state_def SHIELD_BLOCK_def SHIELD_OFF_def)

lemma ex_confs: "lc_ban_zone ex_conf = PTR 7" "lc_mode ex_conf = SHIELD_BLOCK" "lc_ban_key ex_conf = BAN_KEY_PEER"
    "lc_status ex_conf = 403" "lc_skip ex_conf = 0" "lc_ban_count ex_conf = 2" "lc_ban_window ex_conf = 60" "lc_ban_time ex_conf = 3600"
  by (simp_all add: ex_conf_def)

lemma ex_states: "rs_conf (ex_state slcf bn) = slcf" "rs_ctx (ex_state slcf bn) = None" "rs_pool (ex_state slcf bn) = []"
    "rs_zones (ex_state slcf bn) = [7 \<mapsto> ex_zone bn]" "he_env (ex_handler now) = ex_env" "he_time (ex_handler now) = now"
    "he_ops (ex_handler now) = spine_ops fresh_slab" "he_read_body (ex_handler now) = NGX_OK" "r_main (ex_req path)"
  by (simp_all add: ex_state_def ex_handler_def ex_req_def)

lemma ex_unbanned:
  assumes "0 \<le> now" and "lc_ban_zone slcf = PTR 7" and "lc_ban_key slcf = BAN_KEY_PEER"
  shows "\<exists>zs. ban_check (ex_handler now) (ex_req path) (ex_state slcf ex_node) = Some (False, zs)"
proof -
  have "state_ok (ex_handler now) (ex_state slcf ex_node)" by (rule ex_state_ok) (simp add: assms(2))
  from ban_check_zone [OF this, where z = 7 and sh = "ex_zone ex_node" and a = ex_addr and r = "ex_req path"] show ?thesis
    using ex_ban_addr [OF assms(3)] assms(1,2) by (auto simp: ex_states ex_zone_view ex_client) (simp add: ex_node_def)
qed

lemma ex_served:
  assumes "0 \<le> now" and "lc_ban_zone slcf = PTR 7" and "lc_ban_key slcf = BAN_KEY_PEER" and "lc_mode slcf = SHIELD_BLOCK" and "lc_skip slcf = 0"
  shows "\<exists>st'. shield_phase (ex_handler now) (ex_req ''/A+b'') (ex_state slcf ex_node) = Some (NGX_DECLINED, st')"
proof -
  obtain zs where b: "ban_check (ex_handler now) (ex_req ''/A+b'') (ex_state slcf ex_node) = Some (False, zs)"
    using ex_unbanned [OF assms(1-3)] by blast
  have g: "globals_ok (e_globals (he_env (ex_handler now)))" using plain_globals_ok by (simp add: ex_states)
  have "\<not> ngx_http_shield_scannable_body ex_env (ex_req ''/A+b'')"
    by (simp add: ngx_http_shield_scannable_body_def ex_req_def)
  then show ?thesis
    using phase_clean [OF g _ ex_main [OF assms(4)] _ b] ex_prebody_clean [OF assms(5)] by (simp add: ex_states) blast
qed

end
