(* ===== verification/Scan_Properties.thy ===== *)
theory Scan_Properties
  imports Examples
begin

text \<open>
  The properties of the automaton build and of the scan, each applied to the compiled-in tables.
\<close>

section \<open>Automaton and scan\<close>

text \<open>
  C7: The automaton build over any tables whose size checks pass, with every allocation served,
  returns an automaton whose state after any input accepts exactly the categories with a selected
  signature ending there and records exactly the rule terms ending there.
\<close>

theorem ac_build_accepts:
  assumes "ac_term_count rules \<le> 64" and "ac_cap cats rules m \<le> AC_MAX_STATES"
    and "mem_ok mem" and "sigs_nonempty cats rules"
  shows "\<exists>ac. ngx_http_shield_ac_build cats rules mem m = Inr ac
    \<and> (\<forall>u k. bit (ac_out ac ! ac_run ac u) k \<longleftrightarrow>
          (\<exists>c \<in> set cats. cat_selected m c \<and> cat_val (cd_cat c) = k \<and> (\<exists>p \<in> set (cd_sigs c). suffix p u)))
    \<and> (\<forall>u k. bit (ac_rout ac ! ac_run ac u) k \<longleftrightarrow> (\<exists>t. (k, t) \<in> term_marks m 0 rules \<and> suffix t u))"
proof -
  obtain ac where ac: "ngx_http_shield_ac_build cats rules mem m = Inr ac"
      "ac_automaton ac (sig_marks m cats) (term_marks m 0 rules)"
    using ac_build_automaton [OF assms] by blast
  show ?thesis
    using ac ac_automaton.accepts [OF ac(2)] ac_automaton.sees [OF ac(2)]
    by (intro exI [of _ ac]) (auto simp: sig_marks_def)
qed

theorem ac_build_accepts_witness:
  "\<exists>ac. ngx_http_shield_ac_build ngx_http_shield_categories ngx_http_shield_rules mem_all MATCH_DECODED = Inr ac
    \<and> (\<forall>u k. bit (ac_out ac ! ac_run ac u) k \<longleftrightarrow>
          (\<exists>c \<in> set ngx_http_shield_categories. cat_selected MATCH_DECODED c \<and> cat_val (cd_cat c) = k
             \<and> (\<exists>p \<in> set (cd_sigs c). suffix p u)))
    \<and> (\<forall>u k. bit (ac_rout ac ! ac_run ac u) k \<longleftrightarrow>
          (\<exists>t. (k, t) \<in> term_marks MATCH_DECODED 0 ngx_http_shield_rules \<and> suffix t u))"
  by (rule ac_build_accepts [OF _ caps_ok(2) mem_ok_all table_nonempty]) (simp add: table_terms)

text \<open>
  C2: One automaton pass reports exactly what a plain search reports: at the earliest position where
  a live signature ends, the lowest table row among the live categories, and when there is none, the
  category of the first rule all of whose terms occur.
\<close>

theorem ac_scan_reference:
  assumes "ac_term_count rules \<le> 64" and "ac_cap cats rules m \<le> AC_MAX_STATES"
    and "mem_ok mem" and "sigs_nonempty cats rules" and "distinct (map cd_cat cats)"
  shows "\<exists>ac. ngx_http_shield_ac_build cats rules mem m = Inr ac
    \<and> (\<forall>data skip. ngx_http_shield_ac_scan cats rules ac data skip = scan_spec cats rules m skip data)"
  using built_scanner [OF assms] shield_scanner.ac_scan_refines_spec by blast

theorem ac_scan_reference_witness:
  "\<exists>ac. ngx_http_shield_ac_build ngx_http_shield_categories ngx_http_shield_rules mem_all MATCH_RAW = Inr ac
    \<and> (\<forall>data skip. ngx_http_shield_ac_scan ngx_http_shield_categories ngx_http_shield_rules ac data skip
         = scan_spec ngx_http_shield_categories ngx_http_shield_rules MATCH_RAW skip data)"
  by (rule ac_scan_reference [OF _ caps_ok(1) mem_ok_all table_nonempty table_distinct]) (simp add: table_terms)

text \<open>
  C26: The build never fails for want of a result: it returns an automaton exactly when there are at
  most 64 rule terms, the state bound fits the 16-bit state type and every allocation was served.
\<close>

theorem ac_build_succeeds_iff:
  assumes "sigs_nonempty cats rules"
  shows "(\<exists>ac. ngx_http_shield_ac_build cats rules mem m = Inr ac) \<longleftrightarrow>
    ac_term_count rules \<le> 64 \<and> ac_cap cats rules m \<le> AC_MAX_STATES \<and> mem_ok mem"
proof
  assume "\<exists>ac. ngx_http_shield_ac_build cats rules mem m = Inr ac"
  then show "ac_term_count rules \<le> 64 \<and> ac_cap cats rules m \<le> AC_MAX_STATES \<and> mem_ok mem"
    by (auto simp: ngx_http_shield_ac_build_def Let_def mem_ok_def split: if_splits)
next
  assume "ac_term_count rules \<le> 64 \<and> ac_cap cats rules m \<le> AC_MAX_STATES \<and> mem_ok mem"
  then show "\<exists>ac. ngx_http_shield_ac_build cats rules mem m = Inr ac"
    using ac_build_automaton assms by blast
qed

theorem ac_build_succeeds_iff_witness:
  "\<not> (\<exists>ac. ngx_http_shield_ac_build ngx_http_shield_categories ngx_http_shield_rules
            (mem_all\<lparr>m_queue := False\<rparr>) MATCH_RAW = Inr ac)"
  unfolding ac_build_succeeds_iff [OF table_nonempty] by (simp add: mem_ok_def)

text \<open>
  C25: Memory safety of the scan: on the automaton a build returns, whatever bytes are read, the state
  is a state in use and the three table reads of the next byte are inside the arrays.
\<close>

theorem ac_scan_in_bounds:
  assumes "ngx_http_shield_ac_build cats rules mem m = Inr ac" and "sigs_nonempty cats rules"
  shows "ac_run ac u * AC_ALPHABET + byte_val c < length (ac_next ac)
    \<and> ac_run ac (u @ [c]) < length (ac_out ac) \<and> ac_run ac (u @ [c]) < length (ac_rout ac)
    \<and> length (ac_row ac) = 64 \<and> length (ac_need ac) = length rules"
proof -
  have "ac_term_count rules \<le> 64" "ac_cap cats rules m \<le> AC_MAX_STATES" "mem_ok mem"
    using assms(1) by (auto simp: ngx_http_shield_ac_build_def Let_def mem_ok_def split: if_splits)
  then have ac: "ac_automaton ac (sig_marks m cats) (term_marks m 0 rules)"
      "map (\<lambda>w. {k. bit w k}) (ac_need ac) = rule_needs m 0 rules"
      "ac_row ac = ac_rows cats rules m" "ac_closed (ac_cap cats rules m) ac"
    using ac_build_automaton [of rules cats m mem] assms by auto
  have r: "ac_run ac v < ac_cap cats rules m" for v
    using ac_automaton.in_range [OF ac(1), of v] ac(4) by (simp add: ac_closed_def)
  have "length (ac_need ac) = length rules"
    using arg_cong [OF ac(2), of length] by (simp add: length_rule_needs)
  then show ?thesis
    using r [of u] r [of "u @ [c]"] ac(3,4) flat_index_less [of "ac_run ac u" "ac_cap cats rules m" "byte_val c"]
    by (simp add: ac_closed_def AC_ALPHABET_def ac_rows_def)
qed

theorem ac_scan_in_bounds_witness:
  "ac_run ngx_http_shield_ac_raw ''%00'' * AC_ALPHABET + byte_val (CHR ''x'') < length (ac_next ngx_http_shield_ac_raw)"
  using ac_scan_in_bounds [OF built_ac(1) [OF caps_ok(1) mem_ok_all] table_nonempty, of "''%00''" "CHR ''x''"]
  by (simp add: ngx_http_shield_ac_raw_def)

text \<open>
  C9: With both automata built, scanning a buffer declines exactly when the buffer is empty or
  neither normalized copy holds a live signature or all terms of a live rule, and a decline leaves
  the hit record alone.
\<close>

theorem scan_input_clean_iff:
  assumes "globals_ok g"
  shows "ngx_http_shield_scan_input g data source skip hit = (NGX_DECLINED, hit) \<longleftrightarrow>
    data = [] \<or> \<not> attack_in g MATCH_RAW skip data \<and> \<not> attack_in g MATCH_DECODED skip data"
  unfolding scan_input_spec [OF assms] buffer_spec_None [symmetric] by (simp split: option.split)

theorem scan_input_clean_iff_witness:
  "ngx_http_shield_scan_input plain_globals ''/A+b'' ''uri'' 0 \<lparr>h_category = [], h_source = [], h_cat = 0\<rparr>
     = (NGX_DECLINED, \<lparr>h_category = [], h_source = [], h_cat = 0\<rparr>)"
  unfolding scan_input_clean_iff [OF plain_globals_ok] plain_copies using clean_example by blast

text \<open>
  C24: A hit is never spurious and always the first: it reports a row of the category table, not disabled
  by the skip mask, and carries the name and source of that report.  Either a signature of that category
  ends in the copy the automaton read, no live signature ends before it, and no smaller category has
  one that ends there too; or no live signature occurs in the copy and a rule of that category is
  complete in it.  The percent-decoded copy decides only when the raw copy has no match.
\<close>

theorem scan_input_sound:
  assumes "globals_ok g" and "ngx_http_shield_scan_input g data source skip hit = (NGX_OK, h)"
  shows "\<exists>c \<in> set ngx_http_shield_categories. h = hit_of c source \<and> \<not> bit skip (cat_val (cd_cat c))
    \<and> (\<exists>m \<in> {MATCH_RAW, MATCH_DECODED}. (m = MATCH_DECODED \<longrightarrow> table_spec g MATCH_RAW skip data = None)
        \<and> (first_hit ngx_http_shield_categories m skip (copy_of g m data) c
           \<or> rule_hit ngx_http_shield_categories ngx_http_shield_rules m skip (copy_of g m data) c))"
proof -
  obtain c where c: "buffer_spec g skip data = Some c" "h = hit_of c source"
    using assms(2) unfolding scan_input_spec [OF assms(1)] by (auto split: option.splits)
  show ?thesis using buffer_spec_Some [OF c(1)] buffer_spec_first [OF c(1)] c(2) by (intro bexI [of _ c] conjI) blast+
qed

theorem scan_input_sound_witness:
  "\<exists>h. \<exists>c \<in> set ngx_http_shield_categories. h = hit_of c ''args'' \<and> \<not> bit (0 :: u64) (cat_val (cd_cat c))
    \<and> (\<exists>m \<in> {MATCH_RAW, MATCH_DECODED}. first_hit ngx_http_shield_categories m 0 (copy_of plain_globals m ''<SCRIPT'') c
        \<or> rule_hit ngx_http_shield_categories ngx_http_shield_rules m 0 (copy_of plain_globals m ''<SCRIPT'') c)"
proof -
  obtain h where "ngx_http_shield_scan_input plain_globals ''<SCRIPT'' ''args'' 0
      \<lparr>h_category = [], h_source = [], h_cat = 0\<rparr> = (NGX_OK, h)" using script_hit by blast
  from scan_input_sound [OF plain_globals_ok this] show ?thesis by blast
qed

end
