(* ===== verification/Ban_Table.thy ===== *)
theory Ban_Table
  imports Ban_Service
begin

text \<open>
  The contract of the ban engine as an abstract machine: a table from clients to their records and the
  number of bans issued.  The only freedom the engine has is which stale clients it forgets when a new
  one is recorded, and whether memory is left.
\<close>

type_synonym ban_table = "(client \<rightharpoonup> ngx_http_shield_ban_node_t) \<times> nat"

datatype ban_out = Banned bool | Recorded ngx_rc

definition is_banned_in :: "ban_table \<Rightarrow> client \<Rightarrow> time_t \<Rightarrow> bool" where
  "is_banned_in t c now = (case fst t c of None \<Rightarrow> False | Some bn \<Rightarrow> bn_banned_until bn > now)"

text \<open>The table after a hit on a record of the client.\<close>

definition table_hit :: "time_t \<Rightarrow> nat \<Rightarrow> time_t \<Rightarrow> time_t \<Rightarrow> client \<Rightarrow> ngx_http_shield_ban_node_t \<Rightarrow> ban_table \<Rightarrow> ban_table" where
  "table_hit now count window ban_time c bn t =
     ((fst t)(c \<mapsto> snd (ban_hit now count window ban_time bn)),
      if fst (ban_hit now count window ban_time bn) then inc64 (snd t) else snd t)"

inductive table_step :: "ban_table \<Rightarrow> ban_op \<Rightarrow> ban_out \<Rightarrow> ban_table \<Rightarrow> bool" where
  check: "table_step t (Check c now) (Banned (is_banned_in t c now)) t"
| known: "fst t c = Some bn \<Longrightarrow>
    table_step t (Hit ops c now count window ban_time) (Recorded NGX_OK) (table_hit now count window ban_time c bn t)"
| new: "fst t c = None \<Longrightarrow> forgets now window (fst t) v \<Longrightarrow>
    table_step t (Hit ops c now count window ban_time) (Recorded NGX_OK)
      (table_hit now count window ban_time c (new_for c now) (v, snd t))"
| full: "fst t c = None \<Longrightarrow> forgets now window (fst t) v \<Longrightarrow>
    table_step t (Hit ops c now count window ban_time) (Recorded NGX_ERROR) (v, snd t)"

inductive_cases check_cases: "table_step t (Check c now) out t'"
inductive_cases hit_cases: "table_step t (Hit ops c now count window ban_time) out t'"

section \<open>The engine\<close>

fun ban_exec :: "ngx_http_shield_ban_shctx_t \<Rightarrow> ban_op \<Rightarrow> (ban_out \<times> ngx_http_shield_ban_shctx_t) option" where
  "ban_exec sh (Check (h, a) now) = map_option (\<lambda>(b, sh'). (Banned b, sh')) (ngx_http_shield_ban_is_banned_locked sh h a now)"
| "ban_exec sh (Hit ops (h, a) now count window ban_time) =
     map_option (\<lambda>(rc, sh'). (Recorded rc, sh')) (ngx_http_shield_ban_record_locked ops sh h a now count window ban_time)"

definition table_of :: "ngx_http_shield_ban_shctx_t \<Rightarrow> ban_table" where
  "table_of sh = (ban_view sh, sh_bans sh)"

lemma lookup_bans: "ngx_http_shield_ban_lookup sh h a = Some (res, sh') \<Longrightarrow> sh_bans sh' = sh_bans sh"
  by (auto simp: ngx_http_shield_ban_lookup_def split: option.splits)

lemma is_banned_bans: "ngx_http_shield_ban_is_banned_locked sh h a now = Some (b, sh') \<Longrightarrow> sh_bans sh' = sh_bans sh"
  by (auto simp: ngx_http_shield_ban_is_banned_locked_def split: option.splits dest: lookup_bans)

lemma exec_check:
  assumes "ban_inv sh"
  shows "\<exists>out sh'. ban_exec sh (Check c now) = Some (out, sh') \<and> ban_inv sh' \<and> table_step (table_of sh) (Check c now) out (table_of sh')"
proof (cases c)
  case (Pair h a)
  obtain sh' where s: "ngx_http_shield_ban_is_banned_locked sh h a now = Some (is_banned_in (table_of sh) (h, a) now, sh')"
      "ban_inv sh'" "ban_view sh' = ban_view sh"
    using ban_is_banned_correct [OF assms, of h a now] by (auto simp: is_banned_in_def table_of_def)
  then have "table_of sh' = table_of sh" using is_banned_bans [OF s(1)] by (simp add: table_of_def)
  then show ?thesis using s Pair table_step.check [of "table_of sh" c now] by auto
qed

lemma exec_hit:
  assumes "ops_ok ops" and "ban_inv sh"
  shows "\<exists>out sh'. ban_exec sh (Hit ops c now count window ban_time) = Some (out, sh') \<and> ban_inv sh'
    \<and> table_step (table_of sh) (Hit ops c now count window ban_time) out (table_of sh')"
proof (cases c)
  case (Pair h a)
  show ?thesis
  proof (cases "ban_view sh (h, a)")
    case (Some bn)
    have "fst (table_of sh) c = Some bn" using Some Pair by (simp add: table_of_def)
    note st = table_step.known [OF this, of ops now count window ban_time]
    obtain sh' where "ngx_http_shield_ban_record_locked ops sh h a now count window ban_time = Some (NGX_OK, sh')" "ban_inv sh'"
        "table_of sh' = table_hit now count window ban_time c bn (table_of sh)"
      using ban_record_known [OF assms(2) Some, where ops = ops and now = now and count = count and window = window
          and ban_time = ban_time] Pair by (auto simp: table_of_def table_hit_def)
    then show ?thesis using st Pair by simp
  next
    case None
    then have n: "fst (table_of sh) c = None" using Pair by (simp add: table_of_def)
    obtain rc sh' v where s: "ngx_http_shield_ban_record_locked ops sh h a now count window ban_time = Some (rc, sh')" "ban_inv sh'"
        "forgets now window (ban_view sh) v"
        "rc = NGX_OK \<and> table_of sh' = table_hit now count window ban_time c (new_for c now) (v, snd (table_of sh))
         \<or> rc = NGX_ERROR \<and> table_of sh' = (v, snd (table_of sh))"
      using ban_record_new [OF assms None, where now = now and count = count and window = window and ban_time = ban_time] Pair
      by (auto simp: table_of_def table_hit_def new_for_def)
    have f: "forgets now window (fst (table_of sh)) v" using s(3) by (simp add: table_of_def)
    show ?thesis using s(4)
    proof
      assume "rc = NGX_OK \<and> table_of sh' = table_hit now count window ban_time c (new_for c now) (v, snd (table_of sh))"
      then show ?thesis using s(1,2) Pair table_step.new [OF n f, of ops count ban_time] by simp
    next
      assume "rc = NGX_ERROR \<and> table_of sh' = (v, snd (table_of sh))"
      then show ?thesis using s(1,2) Pair table_step.full [OF n f, of ops count ban_time] by simp
    qed
  qed
qed

lemma exec_refines:
  assumes "op_ops_ok x" and "ban_inv sh"
  shows "\<exists>out sh'. ban_exec sh x = Some (out, sh') \<and> ban_inv sh' \<and> table_step (table_of sh) x out (table_of sh')"
  using assms exec_check exec_hit by (cases x) auto

section \<open>What the contract gives\<close>

text \<open>
  Two facts of the abstract machine.  A step concerns one client: the record of every other client
  stays or, when it was stale, is forgotten.  A client becomes banned only by its own hit.
\<close>

fun op_client :: "ban_op \<Rightarrow> client" where
  "op_client (Check c now) = c"
| "op_client (Hit ops c now count window ban_time) = c"

lemma forgets_frame: "forgets now window v v' \<Longrightarrow> v' d = v d \<or> v' d = None"
  unfolding forgets_def by (elim allE [of _ d] disjE conjE) simp_all

lemma table_step_frame:
  "table_step t x out t' \<Longrightarrow> d \<noteq> op_client x \<Longrightarrow> fst t' d = fst t d \<or> fst t' d = None"
proof (induction rule: table_step.induct)
  case (new t c now window v ops count ban_time)
  then show ?case using forgets_frame [OF new.hyps(2), of d] by (simp add: table_hit_def)
next
  case (full t c now window v ops count ban_time)
  then show ?case using forgets_frame [OF full.hyps(2), of d] by simp
qed (simp_all add: table_hit_def)

lemma table_step_no_new_ban:
  assumes "table_step t x out t'" and "is_banned_in t' d later" and "\<not> is_banned_in t d later"
  shows "hits_client d x"
proof (cases "op_client x = d")
  case False
  then show ?thesis using table_step_frame [OF assms(1), of d] assms(2,3) by (auto simp: is_banned_in_def)
next
  case True
  show ?thesis using assms True by (cases x) (auto elim: check_cases)
qed

end
