(* ===== verification/Ban_Properties.thy ===== *)
theory Ban_Properties
  imports Examples Ban_Table
begin

text \<open>
  The properties of the ban engine, each with its application to a concrete zone.
\<close>

section \<open>Runs of the engine\<close>

text \<open>
  C16: From a freshly initialized zone, any sequence of checks and recorded hits, with any clock and
  any policy, runs without reading a freed node and keeps the invariant: tree, queue and store hold the
  same nodes, the tree is ordered, and the eviction cursor is the sentinel or a node in use.
\<close>

theorem ban_run_safe:
  assumes "ngx_http_shield_ban_init_zone harness None None (Some mem) True = (NGX_OK, Some sh)"
    and "list_all op_ops_ok xs"
  shows "\<exists>sh'. run_steps ban_step sh xs = Some sh' \<and> ban_inv sh'"
  using engine.run_total [OF assms(2)] init_zone_fresh [OF assms(1)] by blast

theorem ban_run_safe_witness:
  "\<exists>sh'. run_steps ban_step (ngx_http_shield_ban_shctx_init (raw_zone\<lparr>sh_rbtree := \<langle>\<rangle>, sh_nodes := Map.empty\<rparr>))
     [Hit (spine_ops fresh_slab) (4, ''abcd'') 10 1 60 100, Check (4, ''abcd'') 20] = Some sh' \<and> ban_inv sh'"
  by (rule ban_run_safe [where harness = False and mem = raw_zone])
    (simp_all add: ngx_http_shield_ban_init_zone_def fresh_ops_ok Let_def)

section \<open>Refinement\<close>

text \<open>
  C6: Every operation of the engine, on the tree, the queue with its cursor and the slab, is a step
  of the abstract ban table with the same answer: a check reads the table, a hit of a known client
  updates its record, a hit of a new client may forget stale clients and adds the client or reports
  that no memory is left.
\<close>

theorem ban_refines_table:
  assumes "op_ops_ok x" and "ban_inv sh"
  shows "\<exists>out sh'. ban_exec sh x = Some (out, sh') \<and> ban_inv sh' \<and> table_step (table_of sh) x out (table_of sh')"
  by (rule exec_refines [OF assms])

theorem ban_refines_table_witness:
  "\<exists>out sh'. ban_exec (ex_zone ex_node) (Hit (spine_ops fresh_slab) (5, ''abcd'') 1000 2 60 3600) = Some (out, sh') \<and> ban_inv sh'
    \<and> table_step (table_of (ex_zone ex_node)) (Hit (spine_ops fresh_slab) (5, ''abcd'') 1000 2 60 3600) out (table_of sh')"
  by (rule ban_refines_table [OF _ ex_zone_inv]) (simp add: fresh_ops_ok)

text \<open>
  Nobody is banned by the traffic of others: after a step of the abstract table, which every
  operation of the engine is, a client that was not banned before and is banned now made the recorded
  hit itself.
\<close>

lemma only_own_hits_ban:
  assumes "op_ops_ok x" and "ban_inv sh" and "ban_exec sh x = Some (out, sh')"
    and "is_banned_in (table_of sh') d later" and "\<not> is_banned_in (table_of sh) d later"
  shows "hits_client d x"
proof (rule table_step_no_new_ban [OF _ assms(4,5)])
  show "table_step (table_of sh) x out (table_of sh')" using exec_refines [OF assms(1,2)] assms(3) by auto
qed

section \<open>Policy over time\<close>

text \<open>
  C11: A ban holds: whatever operations follow, as long as none is a hit of the banned client and each
  hit happens before the ban ends, a later check before the end still finds the client banned.
\<close>

theorem ban_holds:
  assumes "ban_inv sh" and "ban_view sh (h, a) = Some bn" and "list_all op_ops_ok xs"
    and "list_all (\<lambda>x. \<not> hits_client (h, a) x \<and> live_during bn x) xs" and "now < bn_banned_until bn"
  shows "\<exists>sh' sh''. run_steps ban_step sh xs = Some sh'
    \<and> ngx_http_shield_ban_is_banned_locked sh' h a now = Some (True, sh'')"
proof -
  obtain sh' where r: "run_steps ban_step sh xs = Some sh'" "ban_inv sh'" "ban_view sh' (h, a) = Some bn"
    using engine.run_keeps [OF assms(1-4)] by blast
  obtain sh'' where "ngx_http_shield_ban_is_banned_locked sh' h a now = Some (True, sh'')"
    using ban_is_banned_correct [OF r(2), of h a now] r(3) assms(5) by auto
  then show ?thesis using r(1) by blast
qed

theorem ban_holds_witness:
  "\<exists>sh' sh''. run_steps ban_step (ex_zone (ex_node\<lparr>bn_banned_until := 2000\<rparr>))
      [Hit (spine_ops fresh_slab) (5, ''abcd'') 1500 2 60 3600, Check (6, ''abcd'') 1600] = Some sh'
    \<and> ngx_http_shield_ban_is_banned_locked sh' 4 ex_addr 1999 = Some (True, sh'')"
  by (rule ban_holds [OF ex_zone_inv, of _ _ _ "ex_node\<lparr>bn_banned_until := 2000\<rparr>"])
    (simp_all add: ex_zone_view client_of_def ex_node_def fresh_ops_ok ban_live_def)

text \<open>
  C10: The ban is armed by exactly the hit that reaches the count.  From a counting client, after
  operations of one policy inside its window whose hits of the client keep the total below the count,
  the client is not banned and has all its hits counted; one more hit that reaches the count bans it
  until now plus the ban time.
\<close>

theorem ban_arms_at_count:
  assumes "ban_inv sh" and "ban_view sh (h, a) = Some bn" and "bn_banned_until bn = 0" and "bn_window_start bn = t0"
    and "t0 + window \<le> time_t_max" and "list_all op_ops_ok xs" and "list_all (in_policy count window ban_time t0) xs"
    and "bn_hits bn + length (filter (hits_client (h, a)) xs) + 1 = count" and "count < 2 ^ 64"
    and "t0 \<le> now" and "now < t0 + window"
  shows "\<exists>sh1 sh2. run_steps ban_step sh xs = Some sh1
    \<and> ban_view sh1 (h, a) = Some (bn\<lparr>bn_hits := count - 1\<rparr>)
    \<and> ngx_http_shield_ban_record_locked ops sh1 h a now count window ban_time = Some (NGX_OK, sh2)
    \<and> map_option bn_banned_until (ban_view sh2 (h, a)) = Some (ngx_http_shield_time_add_clamp now ban_time)
    \<and> sh_bans sh2 = inc64 (sh_bans sh1)"
proof -
  let ?bn = "bn\<lparr>bn_hits := count - 1\<rparr>"
  have k: "bn_hits bn + length (filter (hits_client (h, a)) xs) = count - 1" "0 < count" using assms(8) by auto
  obtain sh1 where r: "run_steps ban_step sh xs = Some sh1" "ban_inv sh1" "ban_view sh1 (h, a) = Some ?bn"
    using engine.run_counts [OF assms(1-7)] k assms(9) by auto
  have "ban_hit now count window ban_time ?bn = (True, ?bn\<lparr>bn_banned_until := ngx_http_shield_time_add_clamp now ban_time,
      bn_hits := 0, bn_window_start := now\<rparr>)"
    by (rule ban_hit_arms) (use assms(3,4,9,10,11) k(2) in auto)
  then obtain sh2 where "ngx_http_shield_ban_record_locked ops sh1 h a now count window ban_time = Some (NGX_OK, sh2)"
      "map_option bn_banned_until (ban_view sh2 (h, a)) = Some (ngx_http_shield_time_add_clamp now ban_time)"
      "sh_bans sh2 = inc64 (sh_bans sh1)"
    using ban_record_known [OF r(2,3), where ops = ops and now = now and count = count and window = window
        and ban_time = ban_time] by auto
  then show ?thesis using r by blast
qed

theorem ban_arms_at_count_witness:
  "\<exists>sh1 sh2. run_steps ban_step (ex_zone ex_node)
      [Hit (spine_ops fresh_slab) (4, ex_addr) 1000 3 60 3600, Hit (spine_ops fresh_slab) (9, ''wxyz'') 1001 3 60 3600] = Some sh1
    \<and> ban_view sh1 (4, ex_addr) = Some (ex_node\<lparr>bn_hits := 3 - 1\<rparr>)
    \<and> ngx_http_shield_ban_record_locked (spine_ops fresh_slab) sh1 4 ex_addr 1002 3 60 3600 = Some (NGX_OK, sh2)
    \<and> map_option bn_banned_until (ban_view sh2 (4, ex_addr)) = Some (ngx_http_shield_time_add_clamp 1002 3600)
    \<and> sh_bans sh2 = inc64 (sh_bans sh1)"
  by (rule ban_arms_at_count [OF ex_zone_inv, where ?t0.0 = 990])
    (simp_all add: ex_zone_view client_of_def ex_node_def fresh_ops_ok time_t_max_def SIZEOF_TIME_T_def)

text \<open>
  C32: Two requests of one client that both pass the check before either hit is recorded, as two workers
  or a request waiting for its body allow: the hit that reaches the count arms the ban, and the other,
  recorded while that ban runs, arms it a second time exactly when the count of its location is at most
  one.  Then the bans-issued counter grows by two and the end of the ban becomes what the second location
  asks for, also when that is earlier; with a higher count the counter grows by one and the end stays.
\<close>

theorem overlapping_hits_rearm:
  assumes "ban_inv sh" and "ban_view sh (h, a) = Some bn" and "bn_banned_until bn = 0" and "bn_window_start bn \<le> now"
    and "now < bn_window_start bn + window" and "bn_hits bn + 1 < 2 ^ 64" and "count \<le> bn_hits bn + 1"
    and "0 \<le> now" and "now < time_t_max" and "0 < ban_time" and "now' < ngx_http_shield_time_add_clamp now ban_time"
  shows "\<exists>sh1 sh2 sh3 sh4 bn3 bn4. ngx_http_shield_ban_is_banned_locked sh h a now = Some (False, sh1)
    \<and> ngx_http_shield_ban_is_banned_locked sh1 h a now = Some (False, sh2)
    \<and> ngx_http_shield_ban_record_locked ops sh2 h a now count window ban_time = Some (NGX_OK, sh3)
    \<and> ngx_http_shield_ban_record_locked ops sh3 h a now' count' window' ban_time' = Some (NGX_OK, sh4)
    \<and> sh_bans sh4 = (if count' \<le> 1 then inc64 (inc64 (sh_bans sh2)) else inc64 (sh_bans sh2))
    \<and> ban_view sh3 (h, a) = Some bn3 \<and> bn_banned_until bn3 = ngx_http_shield_time_add_clamp now ban_time \<and> now < bn_banned_until bn3
    \<and> ban_view sh4 (h, a) = Some bn4
    \<and> bn_banned_until bn4 = (if count' \<le> 1 then ngx_http_shield_time_add_clamp now' ban_time' else bn_banned_until bn3)
    \<and> (count' \<le> 1 \<and> now' + ban_time' < now + ban_time \<and> now' + ban_time' < time_t_max \<longrightarrow> bn_banned_until bn4 < bn_banned_until bn3)"
proof -
  let ?till = "ngx_http_shield_time_add_clamp now ban_time" and ?till' = "ngx_http_shield_time_add_clamp now' ban_time'"
  let ?bn = "bn\<lparr>bn_banned_until := ?till, bn_hits := 0, bn_window_start := now\<rparr>"
  let ?hit' = "ban_hit now' count' window' ban_time' ?bn"
  have later: "now < ?till" "now' + ban_time' < now + ban_time \<and> now' + ban_time' < time_t_max \<longrightarrow> ?till' < ?till"
    using assms(8-10) by (auto simp: ngx_http_shield_time_add_clamp_def)
  have h1: "ban_hit now count window ban_time bn = (True, ?bn)" by (rule ban_hit_arms) (use assms(3-7) in simp_all)
  have h2: "fst ?hit' = (count' \<le> 1)" "bn_banned_until (snd ?hit') = (if count' \<le> 1 then ?till' else ?till)"
    using assms(11) by (auto simp: ban_hit_def retire_lapsed_def roll_window_def inc64_def Let_def)
  obtain sh1 where c1: "ngx_http_shield_ban_is_banned_locked sh h a now = Some (False, sh1)" "ban_inv sh1" "ban_view sh1 (h, a) = Some bn"
    using ban_is_banned_correct [OF assms(1), of h a now] assms(2,3,8) by auto
  obtain sh2 where c2: "ngx_http_shield_ban_is_banned_locked sh1 h a now = Some (False, sh2)" "ban_inv sh2" "ban_view sh2 (h, a) = Some bn"
    using ban_is_banned_correct [OF c1(2), of h a now] c1(3) assms(3,8) by auto
  obtain sh3 where r1: "ngx_http_shield_ban_record_locked ops sh2 h a now count window ban_time = Some (NGX_OK, sh3)" "ban_inv sh3"
      "ban_view sh3 (h, a) = Some ?bn" "sh_bans sh3 = inc64 (sh_bans sh2)"
    using ban_record_known [OF c2(2,3), where ops = ops and now = now and count = count and window = window and ban_time = ban_time]
    unfolding h1 by auto
  obtain sh4 where r2: "ngx_http_shield_ban_record_locked ops sh3 h a now' count' window' ban_time' = Some (NGX_OK, sh4)"
      "ban_view sh4 (h, a) = Some (snd ?hit')" "sh_bans sh4 = (if count' \<le> 1 then inc64 (sh_bans sh3) else sh_bans sh3)"
    using ban_record_known [OF r1(2,3), where ops = ops and now = now' and count = count' and window = window' and ban_time = ban_time']
    unfolding h2(1) by auto
  show ?thesis
    by (intro exI [of _ sh1] exI [of _ sh2] exI [of _ sh3] exI [of _ sh4] exI [of _ ?bn] exI [of _ "snd ?hit'"] conjI)
      (use c1(1) c2(1) r1 r2 h2(2) later in simp_all)
qed

theorem overlapping_hits_rearm_witness:
  "\<exists>sh2 sh3 sh4 bn3 bn4. ngx_http_shield_ban_record_locked (spine_ops fresh_slab) sh2 4 ex_addr 1000 2 60 3600 = Some (NGX_OK, sh3)
    \<and> ngx_http_shield_ban_record_locked (spine_ops fresh_slab) sh3 4 ex_addr 1002 1 60 60 = Some (NGX_OK, sh4)
    \<and> ban_view sh3 (4, ex_addr) = Some bn3 \<and> ban_view sh4 (4, ex_addr) = Some bn4
    \<and> bn_banned_until bn4 < bn_banned_until bn3"
proof -
  have v: "ban_view (ex_zone ex_node) (4, ex_addr) = Some ex_node" by (simp add: ex_zone_view client_of_def ex_node_def)
  have n: "bn_banned_until ex_node = 0" "bn_window_start ex_node \<le> 1000" "1000 < bn_window_start ex_node + 60"
      "bn_hits ex_node + 1 < 2 ^ 64" "2 \<le> bn_hits ex_node + 1" "1000 < time_t_max"
      "(1 :: nat) \<le> 1 \<and> (1002 + 60 :: time_t) < 1000 + 3600 \<and> 1002 + 60 < time_t_max" "1002 < ngx_http_shield_time_add_clamp 1000 3600"
    by (simp_all add: ex_node_def time_t_max_def SIZEOF_TIME_T_def ngx_http_shield_time_add_clamp_def)
  show ?thesis
    using overlapping_hits_rearm [OF ex_zone_inv v n(1-5) _ n(6) _ n(8), of "spine_ops fresh_slab" 1 60 60] n(7) by (simp only: simp_thms) fastforce
qed

text \<open>
  The clock addition saturates and never leaves the range of the time type: for a time and a duration
  that are not negative it is the smaller of the sum and the largest time.
\<close>

lemma clamp_saturates:
  assumes "0 \<le> now" and "now \<le> time_t_max" and "0 \<le> delta" and "delta \<le> time_t_max"
  shows "ngx_http_shield_time_add_clamp now delta = min (now + delta) time_t_max
    \<and> now \<le> ngx_http_shield_time_add_clamp now delta
    \<and> ngx_http_shield_time_add_clamp now delta < 2 ^ 63 \<and> 0 \<le> time_t_max - now"
  using assms by (auto simp: ngx_http_shield_time_add_clamp_def min_def time_t_max_def SIZEOF_TIME_T_def)

section \<open>Reclaiming memory\<close>

text \<open>
  C29: One eviction pass removes at most four nodes, each neither banned nor inside its counting
  window, from tree, queue and store alike; every other node keeps its contents and its place in the
  queue, and the counters are untouched.
\<close>

theorem expire_only_stale:
  assumes "ops_ok ops" and "ban_inv sh"
  shows "\<exists>sh' E. ngx_http_shield_ban_expire ops sh now window = Some sh' \<and> ban_inv sh'
    \<and> reclaimed now window E sh sh' \<and> finite E \<and> card E \<le> 4"
  using ban_expire_correct [OF assms] by (simp add: BAN_EXPIRE_EVICT_def)

theorem expire_only_stale_witness:
  "\<exists>sh' E. ngx_http_shield_ban_expire (spine_ops full_slab) (ex_zone ex_node) 2000 60 = Some sh' \<and> ban_inv sh'
    \<and> reclaimed 2000 60 E (ex_zone ex_node) sh' \<and> finite E \<and> card E \<le> 4"
  by (rule expire_only_stale [OF full_ops_ok ex_zone_inv])

text \<open>
  C30: In a zone of at most 32 nodes one eviction pass is complete wherever the cursor is parked:
  afterwards no stale node is left, or four were removed.
\<close>

theorem expire_small_zone_complete:
  assumes "ops_ok ops" and "ban_inv sh" and "length (sh_queue sh) \<le> 32"
  shows "\<exists>sh'. ngx_http_shield_ban_expire ops sh now window = Some sh'
    \<and> (all_live now window sh' (sh_queue sh') \<or> length (sh_queue sh') + 4 = length (sh_queue sh))"
  using expire_small_zone [OF assms(1,2), of now window] assms(3)
  by (simp add: BAN_EXPIRE_SCAN_def BAN_EXPIRE_EVICT_def reclaim_done_def)

theorem expire_small_zone_complete_witness:
  "\<exists>sh'. ngx_http_shield_ban_expire (spine_ops full_slab) (ex_zone ex_node) 5000 60 = Some sh'
    \<and> (all_live 5000 60 sh' (sh_queue sh') \<or> length (sh_queue sh') + 4 = length (sh_queue (ex_zone ex_node)))"
  by (rule expire_small_zone_complete [OF full_ops_ok ex_zone_inv]) (simp add: ex_zone_def)

text \<open>
  C31: In a zone of more than 32 records the eviction can be starved for as long as bans last.  In a slab
  with room for 34 records, 34 clients at different addresses, under any hash, fill the zone from its
  initialization on, 33 of them banned until T and one with a single hit, whose record is stale from the
  end of its window on.  From then on, in any number of rounds at any times before T, requests without
  consequences of the stale client and of two banned ones keep the stale record away from the cursor: each
  round records two hits of a new client that find no memory, and leaves the zone exactly as it was, with
  the stale record in it and the new client unknown.
\<close>

theorem expire_can_starve:
  fixes crc :: "bytes \<Rightarrow> nat" and addr :: "nat \<Rightarrow> bytes"
  assumes "c = (\<lambda>i. (crc (addr i), addr i))" and "inj_on addr {..34}" and "60 < T" and "T \<le> time_t_max"
    and "ops_ok ops" and "\<not> op_harness ops" and "\<forall>used. op_slab_alloc ops used = None \<longleftrightarrow> 34 \<le> length used"
    and "ngx_http_shield_ban_init_zone harness None None (Some mem) True = (NGX_OK, Some sh0)"
    and "list_all (\<lambda>(t, u). t < T \<and> u < T) ts"
  shows "\<exists>sh bn. run_steps ban_step sh0 (park_setup ops c T) = Some sh
    \<and> ban_view sh (c 31) = Some bn \<and> (\<forall>t \<ge> 60. \<not> ban_live t 60 bn) \<and> ban_view sh (c 34) = None
    \<and> length (filter (hits_client (c 34)) (concat (map (park_round ops c) ts))) = 2 * length ts
    \<and> run_steps ban_step sh (concat (map (park_round ops c) ts)) = Some sh"
proof -
  have inj: "inj_on c {..34}" using assms(2) by (auto simp: assms(1) inj_on_def)
  have T: "0 < T" using assms(3) by simp
  have f: "ban_inv sh0" "sh_queue sh0 = []" "sh_cursor sh0 = None"
    using init_zone_fresh [OF assms(8)] assms(8)
    by (auto simp: ngx_http_shield_ban_init_zone_def ngx_http_shield_ban_shctx_init_def Let_def split: if_splits)
  obtain sh ps where sh: "run_steps ban_step sh0 (park_setup ops c T) = Some sh" "parked c T sh ps"
    using park_setup_run [OF f inj T assms(4-6)] assms(7) by blast
  have n: "sh_nodes sh (ps ! 31) = Some (park_node c T 31)" "ban_inv sh" "ban_view sh (c 34) = None" using sh(2) by (simp_all add: parked_def)
  have v: "ban_view sh (c 31) = Some (park_node c T 31)"
    using ban_view_Some [of sh "c 31" "park_node c T 31"] n(1,2) park_node_facts(2) [OF T assms(4)] by (auto simp: ban_inv_def)
  have "length (filter (hits_client (c 34)) (concat (map (park_round ops c) ts))) = 2 * length ts"
    by (induction ts) (simp_all add: park_round_def park_half_def)
  then show ?thesis using sh(1) v n(3) park_node_facts(5) [OF T assms(4)] park_rounds_run [OF sh(2) T assms(4,9,6)] assms(7) by blast
qed

text \<open>The hosts of a private network, and a hash of their addresses.\<close>

definition ex_host :: "nat \<Rightarrow> bytes" where
  "ex_host i = [CHR 0x0A, CHR 0x00, CHR 0x00, char_of i]"

definition ex_hash :: "bytes \<Rightarrow> nat" where
  "ex_hash a = foldl (\<lambda>h b. (h * 31 + byte_val b) mod 2 ^ 32) 0 a"

lemma ex_host_inj: "inj_on ex_host {..34}"
proof (rule inj_onI)
  fix i j assume "i \<in> {..34}" "j \<in> {..34}" "ex_host i = ex_host j"
  then show "i = j" using inj_onD [OF inj_on_char_of_nat, of i j] by (simp add: ex_host_def)
qed

text \<open>Bans of a day, a slab of 34 records, and three rounds over the day.\<close>

theorem expire_can_starve_witness:
  "\<exists>sh bn. run_steps ban_step (ngx_http_shield_ban_shctx_init (raw_zone\<lparr>sh_rbtree := \<langle>\<rangle>, sh_nodes := Map.empty\<rparr>))
      (park_setup (spine_ops (room_slab 34)) (\<lambda>i. (ex_hash (ex_host i), ex_host i)) 86400) = Some sh
    \<and> ban_view sh (ex_hash (ex_host 31), ex_host 31) = Some bn \<and> \<not> ban_live 80000 60 bn
    \<and> run_steps ban_step sh (concat (map (park_round (spine_ops (room_slab 34)) (\<lambda>i. (ex_hash (ex_host i), ex_host i)))
        [(100, 5000), (40000, 40001), (80000, 86399)])) = Some sh"
proof -
  let ?c = "\<lambda>i. (ex_hash (ex_host i), ex_host i)" and ?ops = "spine_ops (room_slab 34)" and ?ts = "[(100, 5000), (40000, 40001), (80000, 86399)] :: (time_t \<times> time_t) list"
  let ?sh0 = "ngx_http_shield_ban_shctx_init (raw_zone\<lparr>sh_rbtree := \<langle>\<rangle>, sh_nodes := Map.empty\<rparr>)"
  have o: "\<not> op_harness ?ops" "\<forall>used. op_slab_alloc ?ops used = None \<longleftrightarrow> 34 \<le> length used"
    by (auto simp: spine_ops_def room_slab_def fresh_slab_def)
  have i: "ngx_http_shield_ban_init_zone False None None (Some raw_zone) True = (NGX_OK, Some ?sh0)"
    by (simp add: ngx_http_shield_ban_init_zone_def Let_def)
  have t: "(60 :: time_t) < 86400" "86400 \<le> time_t_max" "list_all (\<lambda>(t, u). t < 86400 \<and> u < 86400) ?ts"
    by (simp_all add: time_t_max_def SIZEOF_TIME_T_def)
  obtain sh bn where "run_steps ban_step ?sh0 (park_setup ?ops ?c 86400) = Some sh" "ban_view sh (?c 31) = Some bn"
      "\<forall>t \<ge> 60. \<not> ban_live t 60 bn" "run_steps ban_step sh (concat (map (park_round ?ops ?c) ?ts)) = Some sh"
    using expire_can_starve [OF refl ex_host_inj t(1,2) room_ops_ok o i t(3), where crc = ex_hash] by blast
  moreover from this(3) have "\<not> ban_live 80000 60 bn" by simp
  ultimately show ?thesis by blast
qed

end
