(* ===== verification/Commands.thy ===== *)
theory Commands
  imports Status
begin

text \<open>
  The command table of \<open>src/ngx_http_shield_module.c\<close> and the configurations it can produce: the
  directives of one block, in any order, and the merge of the blocks from the main level down to a
  nested location.  The two slot functions of nginx are the record \<open>slot_env\<close>; which contexts and how
  many arguments a directive takes is what the flags of the table say.
\<close>

section \<open>Command table\<close>

datatype conf_level = HTTP_MAIN_CONF | HTTP_SRV_CONF | HTTP_LOC_CONF

datatype conf_takes = CONF_TAKE1 | CONF_FLAG | CONF_1MORE

datatype conf_set =
    SET_MODE | SET_BODY_SLOT | SET_MAX_BODY_SLOT | SET_STATUS | SET_SKIP | SET_LOG | SET_BAN_ZONE | SET_BAN
  | SET_BAN_STATUS | SET_PROBE

record ngx_command_t =
  cmd_name :: bytes
  cmd_levels :: "conf_level list"
  cmd_takes :: conf_takes
  cmd_set :: conf_set

definition any_level :: "conf_level list" where
  "any_level = [HTTP_MAIN_CONF, HTTP_SRV_CONF, HTTP_LOC_CONF]"

text \<open>The last entry is there in the test build only.\<close>

definition ngx_http_shield_commands :: "bool \<Rightarrow> ngx_command_t list" where
  "ngx_http_shield_commands harness =
     [\<lparr>cmd_name = ''shield'', cmd_levels = any_level, cmd_takes = CONF_TAKE1, cmd_set = SET_MODE\<rparr>,
      \<lparr>cmd_name = ''shield_body'', cmd_levels = any_level, cmd_takes = CONF_FLAG, cmd_set = SET_BODY_SLOT\<rparr>,
      \<lparr>cmd_name = ''shield_max_body'', cmd_levels = any_level, cmd_takes = CONF_TAKE1, cmd_set = SET_MAX_BODY_SLOT\<rparr>,
      \<lparr>cmd_name = ''shield_status'', cmd_levels = any_level, cmd_takes = CONF_TAKE1, cmd_set = SET_STATUS\<rparr>,
      \<lparr>cmd_name = ''shield_skip'', cmd_levels = any_level, cmd_takes = CONF_1MORE, cmd_set = SET_SKIP\<rparr>,
      \<lparr>cmd_name = ''shield_log'', cmd_levels = any_level, cmd_takes = CONF_TAKE1, cmd_set = SET_LOG\<rparr>,
      \<lparr>cmd_name = ''shield_ban_zone'', cmd_levels = [HTTP_MAIN_CONF], cmd_takes = CONF_TAKE1, cmd_set = SET_BAN_ZONE\<rparr>,
      \<lparr>cmd_name = ''shield_ban'', cmd_levels = any_level, cmd_takes = CONF_1MORE, cmd_set = SET_BAN\<rparr>,
      \<lparr>cmd_name = ''shield_ban_status'', cmd_levels = [HTTP_LOC_CONF], cmd_takes = CONF_TAKE1, cmd_set = SET_BAN_STATUS\<rparr>]
     @ (if harness
        then [\<lparr>cmd_name = ''shield_probe'', cmd_levels = [HTTP_LOC_CONF], cmd_takes = CONF_TAKE1, cmd_set = SET_PROBE\<rparr>]
        else [])"

fun takes_args :: "conf_takes \<Rightarrow> bytes list \<Rightarrow> bool" where
  "takes_args CONF_TAKE1 vs \<longleftrightarrow> length vs = 1"
| "takes_args CONF_FLAG vs \<longleftrightarrow> length vs = 1"
| "takes_args CONF_1MORE vs \<longleftrightarrow> vs \<noteq> []"

section \<open>A block being configured\<close>

text \<open>
  The configuration of the block, the zone of the probe, the content handler it installed and the
  zones it created.
\<close>

datatype content_handler = STATUS_HANDLER | PROBE_HANDLER

record block =
  bl_conf :: ngx_http_shield_loc_conf_t
  bl_probe :: "nat conf_ptr"
  bl_handler :: "content_handler option"
  bl_zones :: "nat list"

text \<open>\<open>ngx_conf_set_flag_slot\<close> and \<open>ngx_conf_set_size_slot\<close> on the value of a slot.\<close>

record slot_env =
  se_flag_slot :: "bytes \<Rightarrow> int \<Rightarrow> conf_rc \<times> int"
  se_size_slot :: "bytes \<Rightarrow> nat \<Rightarrow> conf_rc \<times> nat"

text \<open>On success a flag slot holds 0 or 1 and a size slot holds a size, which is not the unset value.\<close>

definition slots_ok :: "slot_env \<Rightarrow> bool" where
  "slots_ok se \<longleftrightarrow> (\<forall>v old new. se_flag_slot se v old = (CONF_OK, new) \<longrightarrow> new \<in> {0, 1})
     \<and> (\<forall>v old new. se_size_slot se v old = (CONF_OK, new) \<longrightarrow> new < NGX_CONF_UNSET_SIZE)"

definition set_conf :: "block \<Rightarrow> conf_rc \<times> ngx_http_shield_loc_conf_t \<Rightarrow> conf_rc \<times> block" where
  "set_conf b res = (fst res, b\<lparr>bl_conf := snd res\<rparr>)"

text \<open>One directive with its arguments.\<close>

fun apply_set :: "conf_env \<Rightarrow> slot_env \<Rightarrow> conf_set \<Rightarrow> bytes list \<Rightarrow> block \<Rightarrow> conf_rc \<times> block" where
  "apply_set env se SET_MODE vs b = set_conf b (ngx_http_shield_mode (hd vs) (bl_conf b))"
| "apply_set env se SET_BODY_SLOT vs b =
     (case se_flag_slot se (hd vs) (lc_body (bl_conf b)) of (rc, x) \<Rightarrow> (rc, b\<lparr>bl_conf := (bl_conf b)\<lparr>lc_body := x\<rparr>\<rparr>))"
| "apply_set env se SET_MAX_BODY_SLOT vs b =
     (case se_size_slot se (hd vs) (lc_max_body (bl_conf b)) of (rc, x) \<Rightarrow> (rc, b\<lparr>bl_conf := (bl_conf b)\<lparr>lc_max_body := x\<rparr>\<rparr>))"
| "apply_set env se SET_STATUS vs b = set_conf b (ngx_http_shield_status env (hd vs) (bl_conf b))"
| "apply_set env se SET_SKIP vs b = set_conf b (ngx_http_shield_skip vs (bl_conf b))"
| "apply_set env se SET_LOG vs b = set_conf b (ngx_http_shield_log env (hd vs) (bl_conf b))"
| "apply_set env se SET_BAN_ZONE vs b =
     (case ngx_http_shield_ban_zone env (hd vs) of
        (rc, None) \<Rightarrow> (rc, b)
      | (rc, Some z) \<Rightarrow> (rc, b\<lparr>bl_zones := z # bl_zones b\<rparr>))"
| "apply_set env se SET_BAN vs b = set_conf b (ngx_http_shield_ban env vs (bl_conf b))"
| "apply_set env se SET_BAN_STATUS vs b =
     (case ngx_http_shield_ban_status env (hd vs) (bl_conf b) of
        (rc, slcf, installed) \<Rightarrow>
          (rc, b\<lparr>bl_conf := slcf, bl_handler := (if installed then Some STATUS_HANDLER else bl_handler b)\<rparr>))"
| "apply_set env se SET_PROBE vs b =
     (case ngx_http_shield_probe env (hd vs) (bl_probe b) of
        (rc, z, installed) \<Rightarrow>
          (rc, b\<lparr>bl_probe := z, bl_handler := (if installed then Some PROBE_HANDLER else bl_handler b)\<rparr>))"

text \<open>The blocks of one level: a fresh configuration and any accepted directives of the table.\<close>

inductive opened :: "bool \<Rightarrow> slot_env \<Rightarrow> conf_level \<Rightarrow> block \<Rightarrow> bool" for harness se lvl where
  fresh: "ngx_http_shield_create_loc_conf env = Some slcf \<Longrightarrow>
     opened harness se lvl \<lparr>bl_conf = slcf, bl_probe = NULL_PTR, bl_handler = None, bl_zones = []\<rparr>"
| directive: "opened harness se lvl b \<Longrightarrow> cmd \<in> set (ngx_http_shield_commands harness) \<Longrightarrow> lvl \<in> set (cmd_levels cmd) \<Longrightarrow>
     takes_args (cmd_takes cmd) vs \<Longrightarrow> apply_set env se (cmd_set cmd) vs b = (CONF_OK, b') \<Longrightarrow> opened harness se lvl b'"

text \<open>
  The configurations requests are served with: a server block merged with the main one, and a location
  merged with what encloses it.
\<close>

inductive effective :: "bool \<Rightarrow> slot_env \<Rightarrow> ngx_http_shield_loc_conf_t \<Rightarrow> bool" for harness se where
  server: "opened harness se HTTP_MAIN_CONF m \<Longrightarrow> opened harness se HTTP_SRV_CONF s \<Longrightarrow>
     ngx_http_shield_merge_loc_conf (bl_conf m) (bl_conf s) = (CONF_OK, c) \<Longrightarrow> effective harness se c"
| location: "effective harness se p \<Longrightarrow> opened harness se HTTP_LOC_CONF l \<Longrightarrow>
     ngx_http_shield_merge_loc_conf p (bl_conf l) = (CONF_OK, c) \<Longrightarrow> effective harness se c"

section \<open>What every configuration satisfies\<close>

definition mode_ok :: "nat \<Rightarrow> bool" where
  "mode_ok m \<longleftrightarrow> m = SHIELD_OFF \<or> m = SHIELD_DETECT \<or> m = SHIELD_BLOCK"

definition status_ok :: "nat \<Rightarrow> bool" where
  "status_ok s \<longleftrightarrow> s = 403 \<or> s = 404 \<or> s = 419 \<or> s = 429 \<or> s = 444"

definition skip_ok :: "u64 \<Rightarrow> bool" where
  "skip_ok w \<longleftrightarrow> (\<forall>k. bit w k \<longrightarrow> k < CAT_N)"

text \<open>Every field is unset or has an admissible value; both log sinks are set together.\<close>

definition fields_ok :: "ngx_http_shield_loc_conf_t \<Rightarrow> bool" where
  "fields_ok c \<longleftrightarrow> (lc_mode c = NGX_CONF_UNSET_UINT \<or> mode_ok (lc_mode c))
     \<and> (lc_body c = NGX_CONF_UNSET \<or> lc_body c = 0 \<or> lc_body c = 1) \<and> lc_max_body c \<le> NGX_CONF_UNSET_SIZE
     \<and> (lc_status c = NGX_CONF_UNSET_UINT \<or> status_ok (lc_status c))
     \<and> skip_ok (lc_skip c) \<and> (lc_log c = UNSET_PTR \<longleftrightarrow> lc_syslog_peer c = UNSET_PTR) \<and> ban_policy_ok c"

lemma policy_upd [simp]:
  "ban_policy_ok (c\<lparr>lc_mode := m\<rparr>) = ban_policy_ok c" "ban_policy_ok (c\<lparr>lc_body := i\<rparr>) = ban_policy_ok c"
  "ban_policy_ok (c\<lparr>lc_max_body := n\<rparr>) = ban_policy_ok c" "ban_policy_ok (c\<lparr>lc_status := s\<rparr>) = ban_policy_ok c"
  "ban_policy_ok (c\<lparr>lc_skip := w\<rparr>) = ban_policy_ok c" "ban_policy_ok (c\<lparr>lc_log := l\<rparr>) = ban_policy_ok c"
  "ban_policy_ok (c\<lparr>lc_syslog_peer := l\<rparr>) = ban_policy_ok c" "ban_policy_ok (c\<lparr>lc_status_zone := z\<rparr>) = ban_policy_ok c"
  by (simp_all add: ban_policy_ok_def split: conf_ptr.split)

lemma fields_upd:
  assumes "fields_ok c"
  shows "mode_ok m \<Longrightarrow> fields_ok (c\<lparr>lc_mode := m\<rparr>)" and "status_ok s \<Longrightarrow> fields_ok (c\<lparr>lc_status := s\<rparr>)"
    and "i = 0 \<or> i = 1 \<Longrightarrow> fields_ok (c\<lparr>lc_body := i\<rparr>)" and "n < NGX_CONF_UNSET_SIZE \<Longrightarrow> fields_ok (c\<lparr>lc_max_body := n\<rparr>)"
    and "skip_ok w \<Longrightarrow> fields_ok (c\<lparr>lc_skip := w\<rparr>)" and "fields_ok (c\<lparr>lc_status_zone := z\<rparr>)"
    and "l \<noteq> UNSET_PTR \<Longrightarrow> p \<noteq> UNSET_PTR \<Longrightarrow> fields_ok (c\<lparr>lc_log := l, lc_syslog_peer := p\<rparr>)"
    and "l \<noteq> UNSET_PTR \<Longrightarrow> p \<noteq> UNSET_PTR \<Longrightarrow> fields_ok (c\<lparr>lc_syslog_peer := p, lc_log := l\<rparr>)"
  using assms by (simp_all add: fields_ok_def)

lemma mode_fields: "fields_ok c \<Longrightarrow> ngx_http_shield_mode v c = (CONF_OK, c') \<Longrightarrow> fields_ok c'"
  by (auto simp: ngx_http_shield_mode_def mode_ok_def split: if_splits intro: fields_upd(1))

lemma status_fields: "fields_ok c \<Longrightarrow> ngx_http_shield_status env v c = (CONF_OK, c') \<Longrightarrow> fields_ok c'"
  by (auto simp: ngx_http_shield_status_def status_ok_def Let_def split: if_splits intro: fields_upd(2))

lemma skip_ok_or: "skip_ok w \<Longrightarrow> skip_ok (w OR bit_at (cat_val k))"
  using cat_val_bound [of k] by (auto simp: skip_ok_def mask_simps)

lemma skip_fields: "fields_ok c \<Longrightarrow> ngx_http_shield_skip vs c = (CONF_OK, c') \<Longrightarrow> fields_ok c'"
proof (induction vs arbitrary: c)
  case (Cons v vs)
  then obtain cat where cat: "ngx_http_shield_cat_by_name v = Some cat" by (auto split: option.splits)
  obtain k where k: "cat = cat_val k" using cat_by_name_Some [OF cat] by blast
  have "skip_ok (lc_skip c)" using Cons.prems(1) by (simp add: fields_ok_def)
  then have "fields_ok (c\<lparr>lc_skip := lc_skip c OR bit_at cat\<rparr>)" unfolding k by (intro fields_upd(5) [OF Cons.prems(1)] skip_ok_or)
  then show ?case using Cons.IH Cons.prems(2) cat by simp
qed simp

lemma log_fields: "fields_ok c \<Longrightarrow> ngx_http_shield_log env v c = (CONF_OK, c') \<Longrightarrow> fields_ok c'"
  by (auto simp: ngx_http_shield_log_def split: if_splits option.splits intro: fields_upd(7,8))

lemma ban_fields:
  assumes "fields_ok c" and "ngx_http_shield_ban env vs c = (CONF_OK, c')"
  shows "fields_ok c'"
proof -
  have "lc_mode c' = lc_mode c \<and> lc_body c' = lc_body c \<and> lc_max_body c' = lc_max_body c \<and> lc_status c' = lc_status c
      \<and> lc_skip c' = lc_skip c \<and> lc_log c' = lc_log c \<and> lc_syslog_peer c' = lc_syslog_peer c"
    using assms(2) by (auto simp: ngx_http_shield_ban_def split: if_splits option.splits)
  then show ?thesis using assms(1) shield_ban_ok [OF assms(2)] by (simp add: fields_ok_def)
qed

lemma ban_status_fields:
  "fields_ok c \<Longrightarrow> ngx_http_shield_ban_status env v c = (CONF_OK, c', inst) \<Longrightarrow> fields_ok c'"
  by (auto simp: ngx_http_shield_ban_status_def split: if_splits option.splits intro: fields_upd(6))

lemma set_conf_OK: "set_conf b res = (CONF_OK, b') \<longleftrightarrow> (\<exists>c. res = (CONF_OK, c) \<and> b' = b\<lparr>bl_conf := c\<rparr>)"
  by (cases res) (auto simp: set_conf_def)

lemmas set_fields = mode_fields status_fields skip_fields log_fields ban_fields

lemma apply_set_fields:
  assumes "slots_ok se" and "fields_ok (bl_conf b)" and "apply_set env se d vs b = (CONF_OK, b')"
  shows "fields_ok (bl_conf b')"
proof (cases d)
  case SET_BODY_SLOT
  then obtain x where "se_flag_slot se (hd vs) (lc_body (bl_conf b)) = (CONF_OK, x)" "b' = b\<lparr>bl_conf := (bl_conf b)\<lparr>lc_body := x\<rparr>\<rparr>"
    using assms(3) by (auto split: prod.splits)
  moreover from this(1) have "x = 0 \<or> x = 1" using assms(1) unfolding slots_ok_def by blast
  ultimately show ?thesis using fields_upd(3) [OF assms(2)] by simp
next
  case SET_MAX_BODY_SLOT
  then obtain x where "se_size_slot se (hd vs) (lc_max_body (bl_conf b)) = (CONF_OK, x)" "b' = b\<lparr>bl_conf := (bl_conf b)\<lparr>lc_max_body := x\<rparr>\<rparr>"
    using assms(3) by (auto split: prod.splits)
  moreover from this(1) have "x < NGX_CONF_UNSET_SIZE" using assms(1) unfolding slots_ok_def by blast
  ultimately show ?thesis using fields_upd(4) [OF assms(2)] by simp
next
  case SET_BAN_ZONE
  then show ?thesis using assms(2,3) by (auto split: prod.splits option.splits)
next
  case SET_BAN_STATUS
  then show ?thesis using assms(2,3) by (auto split: prod.splits dest: ban_status_fields)
next
  case SET_PROBE
  then show ?thesis using assms(2,3) by (auto split: prod.splits)
qed (use assms(2,3) in \<open>auto simp: set_conf_OK dest: set_fields\<close>)

lemma opened_fields:
  assumes "slots_ok se"
  shows "opened harness se lvl b \<Longrightarrow> fields_ok (bl_conf b)"
proof (induction rule: opened.induct)
  case (fresh env slcf)
  then show ?case by (auto simp: ngx_http_shield_create_loc_conf_def fields_ok_def ban_policy_ok_def skip_ok_def split: if_splits)
next
  case (directive b cmd vs env b')
  then show ?case using apply_set_fields [OF assms] by blast
qed

text \<open>After a merge with any admissible parent nothing is unset.\<close>

definition conf_ok :: "ngx_http_shield_loc_conf_t \<Rightarrow> bool" where
  "conf_ok c \<longleftrightarrow> mode_ok (lc_mode c) \<and> (lc_body c = 0 \<or> lc_body c = 1) \<and> lc_max_body c < NGX_CONF_UNSET_SIZE \<and> status_ok (lc_status c)
     \<and> skip_ok (lc_skip c) \<and> lc_log c \<noteq> UNSET_PTR \<and> lc_syslog_peer c \<noteq> UNSET_PTR \<and> lc_ban_zone c \<noteq> UNSET_PTR \<and> ban_policy_ok c"

lemma merge_log_sel [simp]:
  "lc_mode (merge_log p c) = lc_mode c" "lc_body (merge_log p c) = lc_body c" "lc_max_body (merge_log p c) = lc_max_body c"
  "lc_status (merge_log p c) = lc_status c" "lc_skip (merge_log p c) = lc_skip c" "lc_ban_zone (merge_log p c) = lc_ban_zone c"
  "lc_log (merge_log p c) = (if lc_log c = UNSET_PTR then ptr_or_null (lc_log p) else lc_log c)"
  "lc_syslog_peer (merge_log p c) = (if lc_log c = UNSET_PTR then ptr_or_null (lc_syslog_peer p) else lc_syslog_peer c)"
  by (simp_all add: merge_log_def)

lemma merge_ban_sel [simp]:
  "lc_mode (merge_ban p c) = lc_mode c" "lc_body (merge_ban p c) = lc_body c" "lc_max_body (merge_ban p c) = lc_max_body c"
  "lc_status (merge_ban p c) = lc_status c" "lc_skip (merge_ban p c) = lc_skip c" "lc_log (merge_ban p c) = lc_log c"
  "lc_syslog_peer (merge_ban p c) = lc_syslog_peer c"
  "lc_ban_zone (merge_ban p c) = (if lc_ban_zone c = UNSET_PTR then ptr_or_null (lc_ban_zone p) else lc_ban_zone c)"
  by (simp_all add: merge_ban_def ptr_or_null_def)

lemma merge_selectors:
  assumes "ngx_http_shield_merge_loc_conf prev conf = (rc, c)"
  shows "lc_mode c = merge_value NGX_CONF_UNSET_UINT (lc_mode conf) (lc_mode prev) SHIELD_OFF"
    and "lc_body c = merge_value NGX_CONF_UNSET (lc_body conf) (lc_body prev) 1"
    and "lc_max_body c = merge_value NGX_CONF_UNSET_SIZE (lc_max_body conf) (lc_max_body prev) (8 * 1024)"
    and "lc_status c = merge_value NGX_CONF_UNSET_UINT (lc_status conf) (lc_status prev) NGX_HTTP_FORBIDDEN"
    and "lc_skip c = (if lc_skip conf = 0 then lc_skip prev else lc_skip conf)"
    and "lc_log c = (if lc_log conf = UNSET_PTR then ptr_or_null (lc_log prev) else lc_log conf)"
    and "lc_syslog_peer c = (if lc_log conf = UNSET_PTR then ptr_or_null (lc_syslog_peer prev) else lc_syslog_peer conf)"
    and "lc_ban_zone c = (if lc_ban_zone conf = UNSET_PTR then ptr_or_null (lc_ban_zone prev) else lc_ban_zone conf)"
    and "rc = CONF_OK"
  using assms [unfolded ngx_http_shield_merge_loc_conf_def Let_def prod.inject] by auto

lemma merge_value_in:
  assumes "P dflt" and "conf = unset \<or> P conf" and "prev = unset \<or> P prev"
  shows "P (merge_value unset conf prev dflt)"
  using assms by (auto simp: merge_value_def)

lemma ptr_or_null_set: "ptr_or_null p \<noteq> UNSET_PTR"
  by (simp add: ptr_or_null_def)

lemma merge_conf_ok:
  assumes p: "fields_ok prev" and c: "fields_ok conf" and m: "ngx_http_shield_merge_loc_conf prev conf = (rc, d)"
  shows "conf_ok d"
proof -
  note sel = merge_selectors [OF m]
  have "mode_ok (lc_mode d)" unfolding sel(1) by (rule merge_value_in) (use p c in \<open>simp_all add: fields_ok_def mode_ok_def\<close>)
  moreover have "lc_body d = 0 \<or> lc_body d = 1" unfolding sel(2)
    by (rule merge_value_in [where P = "\<lambda>i. i = 0 \<or> i = 1"]) (use p c in \<open>auto simp: fields_ok_def\<close>)
  moreover have "lc_max_body d < NGX_CONF_UNSET_SIZE" unfolding sel(3)
  proof (rule merge_value_in [where P = "\<lambda>n. n < NGX_CONF_UNSET_SIZE"])
    show "8 * 1024 < NGX_CONF_UNSET_SIZE" by (simp add: NGX_CONF_UNSET_SIZE_def)
    have "lc_max_body conf \<le> NGX_CONF_UNSET_SIZE" "lc_max_body prev \<le> NGX_CONF_UNSET_SIZE"
      using p c unfolding fields_ok_def by blast+
    then show "lc_max_body conf = NGX_CONF_UNSET_SIZE \<or> lc_max_body conf < NGX_CONF_UNSET_SIZE"
      "lc_max_body prev = NGX_CONF_UNSET_SIZE \<or> lc_max_body prev < NGX_CONF_UNSET_SIZE" by (simp_all only: le_less disj_commute)
  qed
  moreover have "status_ok (lc_status d)" unfolding sel(4)
    by (rule merge_value_in) (use p c in \<open>simp_all add: fields_ok_def status_ok_def NGX_HTTP_FORBIDDEN_def\<close>)
  moreover have "skip_ok (lc_skip d)" using p c unfolding sel(5) by (simp add: fields_ok_def)
  moreover have "lc_log d \<noteq> UNSET_PTR" "lc_syslog_peer d \<noteq> UNSET_PTR" "lc_ban_zone d \<noteq> UNSET_PTR"
    using c ptr_or_null_set unfolding sel(6-8) by (auto simp: fields_ok_def)
  moreover have "ban_policy_ok d" using merge_policy_ok [of prev conf] p c m by (simp add: fields_ok_def)
  ultimately show ?thesis by (simp add: conf_ok_def)
qed

lemma conf_ok_fields: "conf_ok c \<Longrightarrow> fields_ok c"
  by (auto simp: conf_ok_def fields_ok_def)

lemma effective_conf_ok:
  assumes "slots_ok se" and "effective harness se c"
  shows "conf_ok c"
  using assms(2)
proof (induction rule: effective.induct)
  case (server m s c)
  then show ?case using merge_conf_ok opened_fields [OF assms(1)] by blast
next
  case (location p l c)
  then show ?case using merge_conf_ok opened_fields [OF assms(1)] conf_ok_fields by blast
qed

end
