(* ===== verification/Request_Properties.thy ===== *)
theory Request_Properties
  imports Examples Commands
begin

text \<open>
  The properties of the charged address, of the initialization and of the configuration.
\<close>

section \<open>Whose address is charged\<close>

text \<open>
  Unless banning is keyed on the forwarded header and the connection comes from a trusted proxy,
  the charged address is that of the connection, whatever the forwarded headers say.
\<close>

lemma charged_address_peer:
  assumes "lc_ban_key slcf \<noteq> BAN_KEY_FORWARDED \<or> \<not> ngx_http_shield_ban_peer_trusted he r (lc_ban_trusted slcf)"
  shows "ngx_http_shield_ban_addr he (r\<lparr>r_x_forwarded_for := hs\<rparr>) slcf = ngx_http_shield_ban_sockaddr_bytes (r_sockaddr r)"
  using assms ban_addr_peer [of slcf he "r\<lparr>r_x_forwarded_for := hs\<rparr>"] by simp

text \<open>
  C14: Behind a trusted proxy the charged address is parsed from the bytes after the last comma of the
  last forwarded header, with the blanks around them removed; nothing a client put before that comma or
  in an earlier header has any influence, and bytes that are no address fall back to the connection.
\<close>

theorem charged_address_forwarded:
  assumes "lc_ban_key slcf = BAN_KEY_FORWARDED" and "ngx_http_shield_ban_peer_trusted he r (lc_ban_trusted slcf)"
    and "CHR '','' \<notin> set v"
  shows "\<exists>us tok ws. v = us @ tok @ ws \<and> list_all is_blank us \<and> list_all is_blank ws
    \<and> (tok = [] \<or> \<not> is_blank (hd tok) \<and> \<not> is_blank (last tok))
    \<and> ngx_http_shield_ban_addr he (r\<lparr>r_x_forwarded_for := hs @ [pre @ CHR '','' # v]\<rparr>) slcf
        = ngx_http_shield_ban_sockaddr_bytes
            (case if tok = [] then None else he_parse_addr_port he tok of None \<Rightarrow> r_sockaddr r | Some sa \<Rightarrow> sa)"
proof -
  let ?r = "r\<lparr>r_x_forwarded_for := hs @ [pre @ CHR '','' # v]\<rparr>"
  have "ngx_http_shield_ban_peer_trusted he ?r (lc_ban_trusted slcf)" "r_sockaddr ?r = r_sockaddr r"
    using assms(2) by simp_all
  then have "ngx_http_shield_ban_addr he ?r slcf = ngx_http_shield_ban_sockaddr_bytes
      (case if strip_blanks v = [] then None else he_parse_addr_port he (strip_blanks v) of None \<Rightarrow> r_sockaddr r | Some sa \<Rightarrow> sa)"
    using assms(1) xff_last_token_eq(2) [OF assms(3), of pre]
    by (auto simp: ngx_http_shield_ban_addr_def Let_def split: option.split)
  then show ?thesis using strip_blanks_split [of v] strip_blanks_ends [of v] by metis
qed

theorem charged_address_forwarded_witness:
  "\<exists>us tok ws. '' 10.0.0.9 '' = us @ tok @ ws \<and> list_all is_blank us \<and> list_all is_blank ws
    \<and> (tok = [] \<or> \<not> is_blank (hd tok) \<and> \<not> is_blank (last tok))
    \<and> ngx_http_shield_ban_addr (ex_handler 1000) ((ex_req ''/'')\<lparr>r_x_forwarded_for := [''1.1.1.1''] @ [''6.6.6.6'' @ CHR '','' # '' 10.0.0.9 '']\<rparr>)
          (ex_conf\<lparr>lc_ban_key := BAN_KEY_FORWARDED, lc_ban_trusted := PTR [0]\<rparr>)
        = ngx_http_shield_ban_sockaddr_bytes
            (case if tok = [] then None else he_parse_addr_port (ex_handler 1000) tok of
               None \<Rightarrow> r_sockaddr (ex_req ''/'') | Some sa \<Rightarrow> sa)"
  by (rule charged_address_forwarded) (simp_all add: ngx_http_shield_ban_peer_trusted_def ex_handler_def)

section \<open>Initialization\<close>

text \<open>
  C35: A zone initialized on a fresh segment satisfies the invariant, knows no client and has every
  counter at zero, whatever the memory held before; a reload keeps the previous context.
\<close>

theorem zone_init:
  assumes "ngx_http_shield_ban_init_zone harness octx None (Some mem) True = (NGX_OK, Some sh)"
  shows "case octx of Some old \<Rightarrow> sh = old
    | None \<Rightarrow> ban_inv sh \<and> ban_view sh = Map.empty \<and> sh_bans sh = 0 \<and> sh_blocked sh = 0
        \<and> (\<forall>k < 64. sh_cat_hits sh ! k = 0) \<and> (harness \<longrightarrow> sh_fault_nth sh = - 1)"
proof (cases octx)
  case None
  then show ?thesis using init_zone_fresh [of harness mem sh] assms by simp
next
  case (Some old)
  then show ?thesis using assms by (simp add: ngx_http_shield_ban_init_zone_def)
qed

theorem zone_init_witness:
  "ban_view (ngx_http_shield_ban_shctx_init (raw_zone\<lparr>sh_rbtree := \<langle>\<rangle>, sh_nodes := Map.empty\<rparr>)) = Map.empty"
  using zone_init [of False None raw_zone "ngx_http_shield_ban_shctx_init (raw_zone\<lparr>sh_rbtree := \<langle>\<rangle>, sh_nodes := Map.empty\<rparr>)"]
  by (simp add: ngx_http_shield_ban_init_zone_def Let_def)

text \<open>
  C34: Postconfiguration succeeds exactly when every allocation of both builds and the handler slot were
  served, and then both automata are the complete ones for the compiled-in tables: the server never runs
  with a partly built automaton.
\<close>

theorem module_init:
  "(fst (ngx_http_shield_init md mr push g) = NGX_OK \<longleftrightarrow> mem_ok md \<and> mem_ok mr \<and> push)
   \<and> (fst (ngx_http_shield_init md mr push g) = NGX_OK \<longrightarrow> globals_ok (snd (ngx_http_shield_init md mr push g)))"
proof -
  have fails: "ngx_http_shield_ac_build cats rules mem m = Inr ac \<Longrightarrow> mem_ok mem" for cats rules mem m ac
    by (auto simp: ngx_http_shield_ac_build_def Let_def mem_ok_def split: if_splits)
  have "mem_ok md \<and> mem_ok mr \<and> push" if "fst (ngx_http_shield_init md mr push g) = NGX_OK"
    using that by (auto simp: ngx_http_shield_init_def split: sum.splits if_splits dest: fails)
  moreover have "fst (ngx_http_shield_init md mr push g) = NGX_OK" if "mem_ok md \<and> mem_ok mr \<and> push"
    using that init_globals [of md mr g] by simp
  moreover have "globals_ok (snd (ngx_http_shield_init md mr push g))" if "fst (ngx_http_shield_init md mr push g) = NGX_OK"
    using init_only_if [of md mr push g "snd (ngx_http_shield_init md mr push g)"] that by (metis prod.collapse)
  ultimately show ?thesis by blast
qed

theorem module_init_witness:
  "fst (ngx_http_shield_init mem_all mem_all True plain_globals) = NGX_OK
   \<and> fst (ngx_http_shield_init mem_all (mem_all\<lparr>m_fail := False\<rparr>) True plain_globals) \<noteq> NGX_OK"
  using module_init [of mem_all mem_all True plain_globals] module_init [of mem_all "mem_all\<lparr>m_fail := False\<rparr>" True plain_globals]
  by (simp add: mem_ok_def mem_all_def)

section \<open>Configuration\<close>

text \<open>
  C36: The skip directive is accepted exactly when every name is a category name, and then it disables
  exactly the categories of those names besides the ones disabled before.
\<close>

theorem skip_exact:
  assumes "ngx_http_shield_skip vs slcf = (rc, slcf')"
  shows "(rc = CONF_OK \<longleftrightarrow> list_all (\<lambda>v. \<exists>c. v = ngx_http_shield_cat_name (cat_val c)) vs)
    \<and> (rc = CONF_OK \<longrightarrow> (\<forall>c. bit (lc_skip slcf') (cat_val c) \<longleftrightarrow>
          bit (lc_skip slcf) (cat_val c) \<or> ngx_http_shield_cat_name (cat_val c) \<in> set vs))"
proof -
  have known: "ngx_http_shield_cat_by_name v \<noteq> None \<longleftrightarrow> (\<exists>c. v = ngx_http_shield_cat_name (cat_val c))" for v
    using cat_names cat_by_name_Some [of v] by (cases "ngx_http_shield_cat_by_name v") fastforce+
  have "fst (ngx_http_shield_skip vs s) = CONF_OK \<longleftrightarrow> list_all (\<lambda>v. ngx_http_shield_cat_by_name v \<noteq> None) vs" for s
    by (induction vs arbitrary: s) (auto split: option.splits)
  then have ok: "rc = CONF_OK \<longleftrightarrow> list_all (\<lambda>v. \<exists>c. v = ngx_http_shield_cat_name (cat_val c)) vs"
    using assms unfolding known by (metis fst_conv)
  have bits: "bit (lc_skip slcf') (cat_val c) \<longleftrightarrow> bit (lc_skip slcf) (cat_val c) \<or> ngx_http_shield_cat_name (cat_val c) \<in> set vs"
    if "rc = CONF_OK" for c
  proof -
    have lt: "cat_val c < 64" by (cases c) simp_all
    have e: "(\<exists>v \<in> set vs. ngx_http_shield_cat_by_name v = Some (cat_val c)) \<longleftrightarrow> ngx_http_shield_cat_name (cat_val c) \<in> set vs"
      using cat_names [of c] cat_by_name_Some [of _ "cat_val c"] by metis
    have s: "ngx_http_shield_skip vs slcf = (CONF_OK, slcf')" using assms that by simp
    show ?thesis using skip_bits [OF s, of "cat_val c"] lt e by blast
  qed
  show ?thesis using ok bits by blast
qed

theorem skip_exact_witness:
  "bit (lc_skip (snd (ngx_http_shield_skip [ngx_http_shield_cat_name (cat_val CAT_XSS)] ex_conf))) (cat_val CAT_XSS)
   \<and> \<not> bit (lc_skip (snd (ngx_http_shield_skip [ngx_http_shield_cat_name (cat_val CAT_XSS)] ex_conf))) (cat_val CAT_SQLI)"
proof -
  obtain rc s where r: "ngx_http_shield_skip [ngx_http_shield_cat_name (cat_val CAT_XSS)] ex_conf = (rc, s)" by fastforce
  let ?x = "ngx_http_shield_cat_name (cat_val CAT_XSS)" and ?s = "ngx_http_shield_cat_name (cat_val CAT_SQLI)"
  have ne: "?s \<noteq> ?x"
    using cat_names [of CAT_SQLI] cat_names [of CAT_XSS] by (metis cat_val.simps(1,2) option.inject zero_neq_one)
  have "list_all (\<lambda>v. \<exists>c. v = ngx_http_shield_cat_name (cat_val c)) [?x]" by (simp only: list.pred_inject) blast
  then have b: "\<forall>c. bit (lc_skip s) (cat_val c) \<longleftrightarrow> bit (lc_skip ex_conf) (cat_val c) \<or> ngx_http_shield_cat_name (cat_val c) \<in> set [?x]"
    using skip_exact [OF r] by blast
  have z: "\<not> bit (lc_skip ex_conf) k" for k by (simp add: ex_conf_def)
  have "bit (lc_skip s) (cat_val CAT_XSS)" using b by (metis list.set_intros(1))
  moreover have "\<not> bit (lc_skip s) (cat_val CAT_SQLI)" using b z ne by (metis empty_iff empty_set set_ConsD)
  ultimately show ?thesis unfolding r snd_conv by (rule conjI)
qed

definition ex_conf_env :: conf_env where
  "ex_conf_env = \<lparr>ce_atoi = (\<lambda>s. if s = ''5'' then 5 else if s = ''1'' then 1 else - 1), ce_parse_time = (\<lambda>s. if s = ''60'' then 60 else - 1),
     ce_parse_size = (\<lambda>s. 1048576), ce_ptocidr = (\<lambda>s. (NGX_OK, 0)), ce_shared_memory_add = (\<lambda>nm size. Some (7, False)),
     ce_palloc = True, ce_open_file = (\<lambda>s. Some 0), ce_syslog_process_conf = (\<lambda>s. Some 0), ce_pagesize = 4096\<rparr>"

text \<open>
  C37: Whatever directives are accepted, in any order, in the main block, a server block and any nesting
  of locations, the configuration requests are served with has no unset value: a mode of the three,
  a status of the five, a body limit, skip bits of categories only, log sinks and zone decided, and with
  a ban zone a positive count, window and ban time, where the forwarded key comes with at least one
  trusted address and the peer key with none.
\<close>

theorem served_configuration:
  assumes "slots_ok se" and "effective harness se c"
  shows "lc_mode c \<in> {SHIELD_OFF, SHIELD_DETECT, SHIELD_BLOCK} \<and> lc_body c \<in> {0, 1} \<and> lc_max_body c < NGX_CONF_UNSET_SIZE
    \<and> lc_status c \<in> {403, 404, 419, 429, 444} \<and> (\<forall>k. bit (lc_skip c) k \<longrightarrow> k < CAT_N)
    \<and> lc_log c \<noteq> UNSET_PTR \<and> lc_syslog_peer c \<noteq> UNSET_PTR \<and> lc_ban_zone c \<noteq> UNSET_PTR
    \<and> (\<forall>z. lc_ban_zone c = PTR z \<longrightarrow> 0 < lc_ban_count c \<and> 0 < lc_ban_window c \<and> 0 < lc_ban_time c
          \<and> (lc_ban_key c = BAN_KEY_PEER \<and> lc_ban_trusted c = NULL_PTR
             \<or> lc_ban_key c = BAN_KEY_FORWARDED \<and> (\<exists>a as. lc_ban_trusted c = PTR (a # as))))"
  using effective_conf_ok [OF assms]
  unfolding conf_ok_def mode_ok_def status_ok_def skip_ok_def ban_policy_ok_def by (auto split: conf_ptr.splits)

definition ex_slots :: slot_env where
  "ex_slots = \<lparr>se_flag_slot = (\<lambda>v old. if old \<noteq> NGX_CONF_UNSET then (CONF_DUPLICATE, old)
       else if v = ''on'' then (CONF_OK, 1) else if v = ''off'' then (CONF_OK, 0) else (CONF_ERROR, old)),
     se_size_slot = (\<lambda>v old. if old \<noteq> NGX_CONF_UNSET_SIZE then (CONF_DUPLICATE, old)
       else if v = ''16k'' then (CONF_OK, 16384) else (CONF_ERROR, old))\<rparr>"

lemma ex_slots_ok: "slots_ok ex_slots"
  by (auto simp: slots_ok_def ex_slots_def NGX_CONF_UNSET_SIZE_def split: if_splits)

lemma ex_effective: "\<exists>c. effective False ex_slots c \<and> lc_mode c = SHIELD_BLOCK \<and> lc_ban_zone c = NULL_PTR"
proof -
  obtain c0 where c0: "ngx_http_shield_create_loc_conf ex_conf_env = Some c0" "lc_mode c0 = NGX_CONF_UNSET_UINT"
      "lc_ban_zone c0 = UNSET_PTR"
    by (simp add: ngx_http_shield_create_loc_conf_def ex_conf_env_def)
  let ?m = "\<lparr>bl_conf = c0, bl_probe = NULL_PTR, bl_handler = None, bl_zones = []\<rparr>"
  let ?s = "?m\<lparr>bl_conf := c0\<lparr>lc_mode := SHIELD_BLOCK\<rparr>\<rparr>"
  have m: "opened False ex_slots lvl ?m" for lvl by (rule opened.fresh [OF c0(1)])
  have "opened False ex_slots HTTP_SRV_CONF ?s"
    by (rule opened.directive [OF m, where cmd = "\<lparr>cmd_name = ''shield'', cmd_levels = any_level, cmd_takes = CONF_TAKE1, cmd_set = SET_MODE\<rparr>"
          and vs = "[''block'']" and env = ex_conf_env])
      (simp_all add: ngx_http_shield_commands_def any_level_def set_conf_OK ngx_http_shield_mode_def c0 c_str_def)
  moreover obtain rc c where mg: "ngx_http_shield_merge_loc_conf (bl_conf ?m) (bl_conf ?s) = (rc, c)" by fastforce
  moreover have "rc = CONF_OK" "lc_mode c = SHIELD_BLOCK" "lc_ban_zone c = NULL_PTR" using merge_selectors(1,8,9) [OF mg] c0(3)
    by (simp_all add: ptr_or_null_def merge_value_def SHIELD_BLOCK_def NGX_CONF_UNSET_UINT_def)
  ultimately show ?thesis using effective.server [OF m] by blast
qed

theorem served_configuration_witness:
  "\<exists>c. effective False ex_slots c \<and> lc_mode c = SHIELD_BLOCK \<and> lc_status c \<in> {403, 404, 419, 429, 444} \<and> lc_ban_zone c \<noteq> UNSET_PTR"
  using ex_effective served_configuration [OF ex_slots_ok] by blast

end
