(* ===== verification/Report_Properties.thy ===== *)
theory Report_Properties
  imports Examples Handler_Logs
begin

text \<open>
  The properties of the inspection of one request, of the log record and of the reporting endpoints.
\<close>

section \<open>Inspection\<close>

text \<open>
  C17: The first inspection never reports a request clean that is not: it declines only when no
  structural check and no scan of the target and the headers finds anything, also when memory runs
  short; and when memory suffices it declines exactly then.
\<close>

theorem prebody_verdict:
  assumes "globals_ok (e_globals env)" and "ngx_http_shield_inspect_prebody env pool r slcf hit = ((rc, hit'), pool')"
  shows "(rc = NGX_DECLINED \<longrightarrow> prebody_clean env slcf r)
    \<and> (list_all (\<lambda>b. b) pool \<longrightarrow> rc = (if prebody_clean env slcf r then NGX_DECLINED else NGX_OK))"
  using prebody_declined [OF assms] prebody_rc [OF assms] by auto

theorem prebody_verdict_witness:
  "fst (fst (ngx_http_shield_inspect_prebody ex_env [] (ex_req ''/A+b'') ex_conf hit0)) = NGX_DECLINED
   \<and> fst (fst (ngx_http_shield_inspect_prebody ex_env [] (ex_req ''/.git/HEAD'') ex_conf hit0)) = NGX_OK"
proof -
  have g: "globals_ok (e_globals ex_env)" using plain_globals_ok by simp
  have s: "lc_skip ex_conf = 0" by (simp add: ex_conf_def)
  obtain a b c a' b' c' where
    e: "ngx_http_shield_inspect_prebody ex_env [] (ex_req ''/A+b'') ex_conf hit0 = ((a, b), c)"
       "ngx_http_shield_inspect_prebody ex_env [] (ex_req ''/.git/HEAD'') ex_conf hit0 = ((a', b'), c')"
    by (metis surj_pair)
  show ?thesis
    using prebody_verdict [OF g e(1)] prebody_verdict [OF g e(2)] ex_prebody_clean [OF s] ex_attack [OF s] unfolding e by simp
qed

text \<open>
  C18: The body that is scanned is exactly the first bytes of the request body, across memory and file
  buffers and short reads, up to the configured limit and the announced length; a body that could not
  be read completely is an error and never a shorter body, and with memory, from files that can be read
  however slowly, the body is collected.
\<close>

theorem body_is_prefix:
  assumes "files_read file r"
  shows "(\<forall>body pool'. ngx_http_shield_collect_body pool r mx = (Some body, pool') \<longrightarrow> body = body_prefix file r mx \<and> length body \<le> mx)
    \<and> (no_faults pool \<longrightarrow> body_served file r \<longrightarrow> (\<exists>pool'. ngx_http_shield_collect_body pool r mx = (Some (body_prefix file r mx), pool')))"
proof -
  have "length (body_prefix file r mx) \<le> mx" using body_limit_le [of r mx] by (auto simp: body_prefix_def split: option.split)
  moreover have "body = body_prefix file r mx" if "ngx_http_shield_collect_body pool r mx = (Some body, pool')" for body pool'
    using collect_body_correct that assms unfolding files_read_def by blast
  ultimately show ?thesis using collect_body_total [of "file" r pool mx] by blast
qed

text \<open>A file read one byte at a time.\<close>

definition slow_reader :: "bytes \<Rightarrow> int \<Rightarrow> nat \<Rightarrow> bytes option" where
  "slow_reader file off n = Some (take (min 1 n) (drop (nat off) file))"

lemma slow_reader_reads: "reads_file (slow_reader file) file"
  by (auto simp: reads_file_def slow_reader_def min_def)

definition ex_body_req :: ngx_http_request_t where
  "ex_body_req = (ex_req ''/'')\<lparr>r_chunked := True, r_body := Some [MemBuf ''ab'', FileBuf 1 3 (slow_reader ''xcdefg'')]\<rparr>"

lemma ex_body_served: "body_served ''xcdefg'' ex_body_req"
proof -
  have "serves_file (slow_reader ''xcdefg'') ''xcdefg''"
    using slow_reader_reads by (auto simp: serves_file_def slow_reader_def)
  then show ?thesis by (simp add: body_served_def ex_body_req_def)
qed

theorem body_is_prefix_witness: "\<exists>pool'. ngx_http_shield_collect_body [] ex_body_req 4 = (Some ''abcd'', pool')"
proof -
  have "body_prefix ''xcdefg'' ex_body_req 4 = ''abcd''"
    by (simp add: body_prefix_def body_limit_def off_t_of_def ex_body_req_def ex_req_def)
  then show ?thesis using body_is_prefix [OF body_served_reads [OF ex_body_served], of "[]" 4] ex_body_served by simp
qed

text \<open>
  C40: One signature of the compiled-in tables can never match: in the copies its category is matched
  against every plus sign was replaced by a space, whatever was decoded and however letters are
  lowered.
\<close>

theorem chmod_signature_dead:
  assumes "c \<in> set ngx_http_shield_categories" and "''chmod +x'' \<in> set (cd_sigs c)"
    and "m \<in> {MATCH_RAW, MATCH_DECODED}" and "cat_selected m c"
    and "\<And>x. CHR ''+'' \<notin> set x \<Longrightarrow> CHR ''+'' \<notin> set (g_strlow g x)"
  shows "\<not> sublist ''chmod +x'' (copy_of g m data)"
proof
  assume sub: "sublist ''chmod +x'' (copy_of g m data)"
  have "list_all (\<lambda>c. list_ex (\<lambda>p. p = ''chmod +x'') (cd_sigs c) \<longrightarrow> \<not> cat_selected MATCH_RAW c) ngx_http_shield_categories"
    by code_simp
  then have "m = MATCH_DECODED" using assms(1-4) unfolding list_all_iff list_ex_iff by blast
  moreover have "CHR ''+'' \<notin> set (plus_to_space x)" for x by (auto simp: plus_to_space_def)
  ultimately have "CHR ''+'' \<notin> set (copy_of g m data)" using assms(5) by (simp add: decoded_buffer_def)
  moreover have "CHR ''+'' \<in> set (copy_of g m data)"
    using sub set_mono_sublist [OF sub] by auto
  ultimately show False by blast
qed

lemma strlow_ascii_plus: "CHR ''+'' \<notin> set x \<Longrightarrow> CHR ''+'' \<notin> set (strlow_ascii x)"
proof -
  have "char_of (byte_val c + 32) \<noteq> CHR ''+''" if "is_upper c" for c
  proof
    assume e: "char_of (byte_val c + 32) = CHR ''+''"
    have "byte_val (char_of (byte_val c + 32)) = 43" unfolding e by simp
    then show False using that by (simp add: is_upper_def)
  qed
  then show "CHR ''+'' \<notin> set x \<Longrightarrow> CHR ''+'' \<notin> set (strlow_ascii x)" by (auto simp: strlow_ascii_def split: if_splits) metis
qed

theorem chmod_signature_dead_witness:
  "\<exists>c. c \<in> set ngx_http_shield_categories \<and> ''chmod +x'' \<in> set (cd_sigs c) \<and> \<not> sublist ''chmod +x'' (copy_of plain_globals MATCH_DECODED ''?c=chmod +x'')"
proof -
  have "list_ex (\<lambda>c. list_ex (\<lambda>p. p = ''chmod +x'') (cd_sigs c) \<and> cat_selected MATCH_DECODED c) ngx_http_shield_categories"
    by code_simp
  then obtain c where c: "c \<in> set ngx_http_shield_categories" "''chmod +x'' \<in> set (cd_sigs c)" "cat_selected MATCH_DECODED c"
    unfolding list_ex_iff by blast
  have "\<not> sublist ''chmod +x'' (copy_of plain_globals MATCH_DECODED ''?c=chmod +x'')"
    by (rule chmod_signature_dead [OF c(1,2) _ c(3)]) (simp_all add: plain_globals_def strlow_ascii_plus)
  then show ?thesis using c by blast
qed

section \<open>Log\<close>

text \<open>
  C12: A request leaves at most one log record, and every record written is the JSON text of one hit:
  one line of printable characters, inside its buffer with its newline, from which a JSON reader gets
  back the time stamp, the address, the name of an enabled category, the part of the request, the mode,
  the status, and exactly the first 600 bytes of the request line, whatever bytes the request sent.
\<close>

theorem log_record_roundtrip:
  assumes "globals_ok (e_globals (he_env he))" and "log_env_ok (he_log he)" and "lc_status (rs_conf st) < 2 ^ 64"
    and "plain_text (le_iso8601 (he_log he))" and "plain_text (r_addr_text r)"
    and "rs_ctx st = None" and "shield_phase he r st = Some (rc, st')"
  shows "rs_log st' = rs_log st \<or> (\<exists>eff. rs_log st' = eff # rs_log st \<and> record_ok he r (rs_conf st) eff)"
  using phase_logs [OF assms(1,6,7)] hit_effect_record [OF assms(2-5)] unfolding one_record_def by blast

definition ex_log_conf :: ngx_http_shield_loc_conf_t where
  "ex_log_conf = ex_conf\<lparr>lc_log := PTR 3, lc_ban_zone := NULL_PTR\<rparr>"

lemma ex_logged: "\<exists>st' eff. shield_phase (ex_handler 1000) (ex_req ''/.git/HEAD'') (ex_state ex_log_conf ex_node) = Some (NGX_HTTP 403, st')
    \<and> rs_log st' = [eff] \<and> lf_file eff \<noteq> None"
proof -
  let ?hit = "structural_hit NAME_DOTFILE CAT_DOTFILE ''uri''" and ?st = "ex_state ex_log_conf ex_node"
  have i: "ngx_http_shield_inspect_prebody ex_env [] (ex_req ''/.git/HEAD'') ex_log_conf hit0 = ((NGX_OK, ?hit), [])"
    unfolding ngx_http_shield_inspect_prebody_def httpoxy_iff range_iff ctrl_char_iff dotfile_iff
    by (simp add: ex_req_def dot_segment_def WELL_KNOWN_def cat_skipped_def ex_log_conf_def ex_conf_def)
  have a: "\<not> passes_by (ex_req ''/.git/HEAD'') ?st" by (rule ex_main) (simp add: ex_log_conf_def ex_confs)
  have b: "ban_check (ex_handler 1000) (ex_req ''/.git/HEAD'') ?st = Some (False, rs_zones ?st)"
    by (simp add: ban_check_def ex_states ex_log_conf_def)
  have c: "lc_mode ex_log_conf = SHIELD_BLOCK" "lc_status ex_log_conf = 403" "lc_log ex_log_conf = PTR 3" "lc_ban_zone ex_log_conf = NULL_PTR"
      "lc_syslog_peer ex_log_conf = NULL_PTR" "lc_log_disk_full_time ex_log_conf = 0" "rs_log ?st = []"
      "le_time (he_log (ex_handler 1000)) = 1000" "le_write_fd (he_log (ex_handler 1000)) = (\<lambda>out. Written (int (length out)))"
    by (simp_all add: ex_log_conf_def ex_conf_def ex_state_def ex_handler_def ex_log_def)
  show ?thesis unfolding shield_phase_def handler_first [OF a ex_states(2)] b
    by (simp add: handler_inspect_def Let_def ex_states i c ngx_http_shield_act_def log_hit_def ngx_http_shield_write_log_def
        log_file_def palloc_def)
qed

theorem log_record_roundtrip_witness:
  "\<exists>eff. lf_file eff \<noteq> None \<and> record_ok (ex_handler 1000) (ex_req ''/.git/HEAD'') ex_log_conf eff"
proof -
  have g: "globals_ok (e_globals (he_env (ex_handler 1000)))" using plain_globals_ok by (simp add: ex_states)
  have l: "he_log (ex_handler 1000) = ex_log" by (simp add: ex_handler_def)
  obtain st' eff where p: "shield_phase (ex_handler 1000) (ex_req ''/.git/HEAD'') (ex_state ex_log_conf ex_node) = Some (NGX_HTTP 403, st')"
      "rs_log st' = [eff]" "lf_file eff \<noteq> None" using ex_logged by blast
  have "plain_text (le_iso8601 ex_log)" "plain_text (r_addr_text (ex_req ''/.git/HEAD''))" "lc_status ex_log_conf < 2 ^ 64"
    "rs_log (ex_state ex_log_conf ex_node) = []"
    by (simp_all add: ex_log_def ex_req_def plain_text_def ex_log_conf_def ex_conf_def ex_state_def)
  then show ?thesis using log_record_roundtrip [OF g _ _ _ _ _ p(1)] ex_log_ok p(2,3) unfolding l by (auto simp: ex_states)
qed

section \<open>Reports\<close>

text \<open>
  C39: When no other worker changes the zone between the two locks, and the hits of a client and the
  seconds left of its ban have at most ten digits, the status page is a complete JSON document: a reader
  gets back the name of the zone, its three totals, the counter of every category, and address, hits and
  remaining time of every banned client; nothing is cut off.
\<close>

theorem status_complete:
  assumes "fe_ok fe" and "ban_inv sh" and "counters_ok sh" and "list_all (entry_small now) (banned_nodes now sh)" and "plain_text name"
  shows "\<exists>doc. status_document fe now name sh sh = Some doc \<and> json_read doc = Some (status_json fe now name sh)"
  using status_document_json [OF assms] json_read_print by blast

theorem status_complete_witness:
  "\<exists>doc. status_document ex_format 1000 ''b'' (ex_zone (ex_node\<lparr>bn_banned_until := 2000\<rparr>)) (ex_zone (ex_node\<lparr>bn_banned_until := 2000\<rparr>)) = Some doc
    \<and> json_read doc = Some (status_json ex_format 1000 ''b'' (ex_zone (ex_node\<lparr>bn_banned_until := 2000\<rparr>)))
    \<and> banned_nodes 1000 (ex_zone (ex_node\<lparr>bn_banned_until := 2000\<rparr>)) \<noteq> []"
proof -
  let ?bn = "ex_node\<lparr>bn_banned_until := 2000\<rparr>"
  have n: "banned_nodes 1000 (ex_zone ?bn) = [?bn]" by (simp add: banned_nodes_def ex_zone_def)
  have c: "counters_ok (ex_zone ?bn)" by (simp add: counters_ok_def ex_zone_def list_all_iff)
  have s: "list_all (entry_small 1000) (banned_nodes 1000 (ex_zone ?bn))" unfolding n by (simp add: entry_small_def ex_node_def)
  have "plain_text ''b''" by (simp add: plain_text_def)
  from status_complete [OF ex_format_ok(1) ex_zone_inv c s this] show ?thesis using n by simp
qed

text \<open>
  C38: Whatever happens to the zone between the two locks, the status page is a JSON document inside the
  buffer sized under the first lock.  With address texts of at most 39 characters, and hits and remaining
  seconds of at most ten digits, a reader gets back the totals and categories of the first snapshot and
  the banned clients of the second one in queue order, all of them or a front part that has at least as
  many entries as the zone had clients under the first lock: the list is cut between two entries, never
  inside one, and the document is always closed.
\<close>

theorem status_cut_cleanly:
  assumes "fe_ok fe" and "ntop_short fe" and "ban_inv sh1" and "ban_inv sh2" and "counters_ok sh1"
    and "list_all (entry_small now) (banned_nodes now sh2)" and "plain_text name"
  shows "\<exists>doc k. status_document fe now name sh1 sh2 = Some doc \<and> length doc \<le> status_size name (length (sh_queue sh1))
    \<and> min (length (sh_queue sh1)) (length (banned_nodes now sh2)) \<le> k \<and> k \<le> length (banned_nodes now sh2)
    \<and> json_read doc = Some (status_json_with fe now name sh1 (take k (banned_nodes now sh2)))"
proof -
  have "list_all (entry_small now) (take k (banned_nodes now sh2))" for k
    using assms(6) by (auto simp: list_all_iff dest: in_set_takeD)
  then show ?thesis using status_document_cut [OF assms(1-6), of name] status_text_json [OF assms(1,3,5) _ assms(7)] json_read_print by metis
qed

text \<open>A client is banned between the two locks, in a zone that was empty.\<close>

theorem status_cut_cleanly_witness:
  "\<exists>doc k. status_document ex_format 1000 ''b'' (ngx_http_shield_ban_shctx_init (raw_zone\<lparr>sh_rbtree := \<langle>\<rangle>, sh_nodes := Map.empty\<rparr>))
      (ex_zone (ex_node\<lparr>bn_banned_until := 2000\<rparr>)) = Some doc \<and> k \<le> 1 \<and> length doc \<le> status_size ''b'' 0
    \<and> json_read doc = Some (status_json_with ex_format 1000 ''b''
        (ngx_http_shield_ban_shctx_init (raw_zone\<lparr>sh_rbtree := \<langle>\<rangle>, sh_nodes := Map.empty\<rparr>)) (take k [ex_node\<lparr>bn_banned_until := 2000\<rparr>]))"
proof -
  let ?bn = "ex_node\<lparr>bn_banned_until := 2000\<rparr>" and ?new = "ngx_http_shield_ban_shctx_init (raw_zone\<lparr>sh_rbtree := \<langle>\<rangle>, sh_nodes := Map.empty\<rparr>)"
  have n: "banned_nodes 1000 (ex_zone ?bn) = [?bn]" by (simp add: banned_nodes_def ex_zone_def)
  have "ngx_http_shield_ban_init_zone False None None (Some raw_zone) True = (NGX_OK, Some ?new)"
    by (simp add: ngx_http_shield_ban_init_zone_def Let_def)
  then have i: "ban_inv ?new" using init_zone_fresh by blast
  have z: "counters_ok ?new" "sh_queue ?new = []" by (simp_all add: ngx_http_shield_ban_shctx_init_def counters_ok_def list_all_iff)
  have s: "list_all (entry_small 1000) (banned_nodes 1000 (ex_zone ?bn))" unfolding n by (simp add: entry_small_def ex_node_def)
  have "plain_text ''b''" by (simp add: plain_text_def)
  from status_cut_cleanly [OF ex_format_ok i ex_zone_inv z(1) s this] show ?thesis unfolding n z(2) by auto
qed

text \<open>
  The probe reports the number of clients the zone knows and the number of them with a ban in
  force.
\<close>

lemma probe_counts_clients:
  assumes "ban_inv sh"
  shows "ngx_shield_probe_zone_render fe now cap buf (Some sh) = Some (slput cap buf
    (probe_members fe (card (dom (ban_view sh))) (card (banned_clients now sh)) (sh_fault_nth sh) (sh_fault_seen sh)))"
proof -
  have "set (sh_queue sh) \<subseteq> dom (sh_nodes sh)" using assms by (simp add: ban_inv_def zone_ok_def)
  then show ?thesis using probe_walk_counts [of "sh_queue sh" "sh_nodes sh" now 0 0] banned_count [OF assms]
    by (simp add: ngx_shield_probe_zone_render_def)
qed

text \<open>
  An armed fault fails exactly the allocation it names: of the allocations after the arming, the
  one with that number gets no memory and every other one is passed on to the slab.
\<close>

lemma fault_hits_nth:
  assumes "op_harness ops" and "0 \<le> n" and "ngx_shield_probe_fault_set (Some sh0) FAULT_SLAB n = (NGX_OK, Some sh)" and "k < 2 ^ 63"
  shows "fst (ngx_shield_slab_alloc ops (alloc_run ops k sh)) = (if n = int k + 1 then None else op_slab_alloc ops (sh_queue sh))"
proof -
  have sh: "sh = sh0\<lparr>sh_fault_nth := n, sh_fault_seen := 0\<rparr>" using assms(3) by (simp add: ngx_shield_probe_fault_set_def)
  have lt: "k + 1 < 2 ^ 64" using assms(4) by simp
  have "alloc_run ops k sh = sh\<lparr>sh_fault_seen := k\<rparr>" using alloc_run_seen [OF assms(1), of sh k] assms(2) lt by (simp add: sh)
  moreover have "inc64 k = k + 1" unfolding inc64_def by (rule mod_less [OF lt])
  ultimately show ?thesis using assms(1,2)
    by (auto simp: ngx_shield_slab_alloc_def ngx_http_shield_ban_slab_alloc_def Let_def sh)
qed

end
