(* ===== verification/Server.thy ===== *)
theory Server
  imports Handler_Bans
begin

text \<open>
  Requests of several workers on the shared zones and log files.  Each locked section of the ban
  operations is one step, as are the inspections in between and the writing of the log record, and the
  steps of different requests interleave freely.  The inspections and the log call the same functions as
  the phase handler; every step may see another clock.  The body handler resumes the phases and so calls
  the handler again: first call and second call take their early returns from the same function.
\<close>

section \<open>Requests in progress\<close>

datatype stage =
    Arrived                          \<comment> \<open>at the top of the handler\<close>
  | Passed                           \<comment> \<open>no ban in force\<close>
  | Reading                          \<comment> \<open>phase suspended for the body\<close>
  | Found ngx_http_shield_hit_t      \<comment> \<open>a hit, not yet recorded\<close>
  | Noted ngx_http_shield_hit_t      \<comment> \<open>recorded, not yet counted\<close>
  | Counted ngx_http_shield_hit_t    \<comment> \<open>counted where there is a zone, not yet logged\<close>
  | Answered ngx_rc

text \<open>\<open>jb_ctx\<close> is the module context of the request, the verdict the body handler records.\<close>

record job =
  jb_req :: ngx_http_request_t
  jb_conf :: ngx_http_shield_loc_conf_t
  jb_ctx :: "ngx_rc option"
  jb_stage :: stage

text \<open>The files are the byte strings appended through each log handle since the start, in order.\<close>

type_synonym log_files = "nat \<Rightarrow> bytes list"

record server =
  sv_zones :: zones
  sv_jobs :: "nat \<rightharpoonup> job"
  sv_files :: log_files

text \<open>
  The early returns of the handler: a subrequest, a location that is off, and a request whose context
  holds a verdict.  \<open>None\<close> is going on to the ban check.
\<close>

definition handler_entry :: "ngx_http_shield_loc_conf_t \<Rightarrow> ngx_http_request_t \<Rightarrow> ngx_rc option \<Rightarrow> ngx_rc option" where
  "handler_entry slcf r ctx =
     (if \<not> r_main r then Some NGX_DECLINED
      else if lc_mode slcf = SHIELD_OFF then Some NGX_DECLINED
      else (case ctx of Some status \<Rightarrow> Some status | None \<Rightarrow> None))"

text \<open>
  The end of the body handler: the verdict is recorded in the context and the phases are run again, which
  enters the handler a second time.
\<close>

definition resume :: "ngx_http_shield_loc_conf_t \<Rightarrow> ngx_http_request_t \<Rightarrow> ngx_rc \<Rightarrow> ngx_rc option \<times> stage" where
  "resume slcf r status =
     (Some status, case handler_entry slcf r (Some status) of Some rc \<Rightarrow> Answered rc | None \<Rightarrow> Arrived)"

text \<open>
  The answer to a hit; the context and the stage after the first inspection, after the body inspection,
  and after a hit was acted on, which the handler returns and the body handler records.
\<close>

definition verdict :: "ngx_http_shield_loc_conf_t \<Rightarrow> ngx_rc" where
  "verdict slcf = (if lc_mode slcf = SHIELD_BLOCK then NGX_HTTP (lc_status slcf) else NGX_DECLINED)"

definition after_prebody :: "handler_env \<Rightarrow> ngx_http_request_t \<Rightarrow> ngx_http_shield_loc_conf_t \<Rightarrow> bool
    \<Rightarrow> ngx_rc \<times> ngx_http_shield_hit_t \<Rightarrow> ngx_rc option \<times> stage" where
  "after_prebody he r slcf ctx_ok res =
     (case res of (rc, hit) \<Rightarrow>
        if rc = NGX_ERROR then (None, Answered (ngx_http_shield_fail slcf))
        else if rc = NGX_OK then (None, Found hit)
        else if lc_body slcf = 0 \<or> \<not> ngx_http_shield_scannable_body (he_env he) r then (None, Answered NGX_DECLINED)
        else if \<not> ctx_ok then (None, Answered NGX_ERROR)
        else if special_response (he_read_body he) then (Some NGX_DECLINED, Answered (he_read_body he))
        else (Some NGX_DECLINED, Reading))"

definition after_body :: "ngx_http_shield_loc_conf_t \<Rightarrow> ngx_http_request_t \<Rightarrow> ngx_rc option
    \<Rightarrow> ngx_rc \<times> ngx_http_shield_hit_t \<Rightarrow> ngx_rc option \<times> stage" where
  "after_body slcf r ctx res =
     (case res of (rc, hit) \<Rightarrow>
        if rc = NGX_OK then (ctx, Found hit)
        else if rc = NGX_ERROR then resume slcf r (ngx_http_shield_fail slcf)
        else resume slcf r NGX_DECLINED)"

definition after_act :: "ngx_http_shield_loc_conf_t \<Rightarrow> ngx_http_request_t \<Rightarrow> ngx_rc option \<Rightarrow> ngx_rc option \<times> stage" where
  "after_act slcf r ctx =
     (case ctx of None \<Rightarrow> (None, Answered (verdict slcf)) | Some _ \<Rightarrow> resume slcf r (verdict slcf))"

definition after_check :: "ngx_http_shield_loc_conf_t \<Rightarrow> bool \<Rightarrow> stage" where
  "after_check slcf banned = (if banned then Answered (NGX_HTTP (lc_status slcf)) else Passed)"

definition off_path :: "job \<Rightarrow> bool" where
  "off_path j \<longleftrightarrow> \<not> r_main (jb_req j) \<or> lc_mode (jb_conf j) = SHIELD_OFF"

definition move :: "server \<Rightarrow> nat \<Rightarrow> job \<Rightarrow> zones \<Rightarrow> stage \<Rightarrow> server" where
  "move s i j zs st = s\<lparr>sv_zones := zs, sv_jobs := (sv_jobs s)(i \<mapsto> j\<lparr>jb_stage := st\<rparr>)\<rparr>"

text \<open>A job with another context, and with the context and the stage a decision leaves.\<close>

abbreviation with_ctx :: "job \<Rightarrow> ngx_rc option \<Rightarrow> job" where
  "with_ctx j c \<equiv> j\<lparr>jb_ctx := c\<rparr>"

abbreviation enters :: "job \<Rightarrow> ngx_rc option" where
  "enters j \<equiv> handler_entry (jb_conf j) (jb_req j) (jb_ctx j)"

text \<open>
  What a log write leaves in its file: the bytes the system accepted, all of them, the first ones, or
  none.
\<close>

definition log_append :: "log_env \<Rightarrow> ngx_http_shield_loc_conf_t \<Rightarrow> log_effect \<Rightarrow> log_files \<Rightarrow> log_files" where
  "log_append le slcf eff fs =
     (case (lc_log slcf, lf_file eff) of
        (PTR fd, Some out) \<Rightarrow>
          (case le_write_fd le out of
             Written n \<Rightarrow> fs(fd := fs fd @ [take (nat n) out])
           | WriteError enospc \<Rightarrow> fs)
      | _ \<Rightarrow> fs)"

text \<open>The number formats are the same in every step, the time stamp keeps its character set.\<close>

definition log_alike :: "log_env \<Rightarrow> log_env \<Rightarrow> bool" where
  "log_alike lb le \<longleftrightarrow> le_hex4 le = le_hex4 lb \<and> le_uint le = le_uint lb
     \<and> (plain_text (le_iso8601 lb) \<longrightarrow> plain_text (le_iso8601 le))"

text \<open>
  One step of one request.  \<open>hb\<close> is what the handler calls of nginx; the clock, the answer to the body
  read and the state of the slab and the tree may differ from step to step.  \<open>spool\<close> holds the contents
  of the body files.
\<close>

text \<open>A clock that does not start before the epoch does not go there, and stays in the range of \<open>time_t\<close>.\<close>

definition clock_alike :: "time_t \<Rightarrow> time_t \<Rightarrow> bool" where
  "clock_alike t0 t \<longleftrightarrow> (0 \<le> t0 \<and> t0 \<le> time_t_max \<longrightarrow> 0 \<le> t \<and> t \<le> time_t_max)"

definition alike :: "handler_env \<Rightarrow> handler_env \<Rightarrow> bool" where
  "alike hb he \<longleftrightarrow> he_env he = he_env hb \<and> he_crc32 he = he_crc32 hb \<and> he_cidr_match he = he_cidr_match hb
     \<and> he_parse_addr_port he = he_parse_addr_port hb \<and> log_alike (he_log hb) (he_log he)
     \<and> clock_alike (he_time hb) (he_time he)"

inductive server_step :: "handler_env \<Rightarrow> bytes \<Rightarrow> server \<Rightarrow> server \<Rightarrow> bool" for hb spool where
  arrive: "sv_jobs s i = None \<Longrightarrow> zone_ready slcf (sv_zones s) \<Longrightarrow> files_read spool r \<Longrightarrow>
     server_step hb spool s (move s i \<lparr>jb_req = r, jb_conf = slcf, jb_ctx = None, jb_stage = Arrived\<rparr> (sv_zones s) Arrived)"
| early: "sv_jobs s i = Some j \<Longrightarrow> jb_stage j = Arrived \<Longrightarrow> enters j = Some rc \<Longrightarrow>
     server_step hb spool s (move s i j (sv_zones s) (Answered rc))"
| no_zone: "sv_jobs s i = Some j \<Longrightarrow> jb_stage j = Arrived \<Longrightarrow> enters j = None \<Longrightarrow> lc_ban_zone (jb_conf j) = NULL_PTR \<Longrightarrow>
     server_step hb spool s (move s i j (sv_zones s) Passed)"
| check: "sv_jobs s i = Some j \<Longrightarrow> jb_stage j = Arrived \<Longrightarrow> enters j = None \<Longrightarrow> lc_ban_zone (jb_conf j) \<noteq> NULL_PTR \<Longrightarrow> alike hb he \<Longrightarrow>
     ngx_http_shield_ban_is_banned he (jb_req j) (jb_conf j) (sv_zones s) = Some (banned, zs) \<Longrightarrow>
     server_step hb spool s (move s i j zs (after_check (jb_conf j) banned))"
| inspect: "sv_jobs s i = Some j \<Longrightarrow> jb_stage j = Passed \<Longrightarrow> alike hb he \<Longrightarrow>
     ngx_http_shield_inspect_prebody (he_env hb) pool (jb_req j) (jb_conf j) hit0 = (res, pool') \<Longrightarrow>
     after_prebody he (jb_req j) (jb_conf j) ctx_ok res = (c, st) \<Longrightarrow>
     server_step hb spool s (move s i (with_ctx j c) (sv_zones s) st)"
| body: "sv_jobs s i = Some j \<Longrightarrow> jb_stage j = Reading \<Longrightarrow>
     ngx_http_shield_inspect_body (he_env hb) pool (jb_req j) (jb_conf j) hit0 = (res, pool') \<Longrightarrow>
     after_body (jb_conf j) (jb_req j) (jb_ctx j) res = (c, st) \<Longrightarrow>
     server_step hb spool s (move s i (with_ctx j c) (sv_zones s) st)"
| unrecorded: "sv_jobs s i = Some j \<Longrightarrow> jb_stage j = Found hit \<Longrightarrow> lc_ban_zone (jb_conf j) = NULL_PTR \<Longrightarrow>
     server_step hb spool s (move s i j (sv_zones s) (Counted hit))"
| charge: "sv_jobs s i = Some j \<Longrightarrow> jb_stage j = Found hit \<Longrightarrow> lc_ban_zone (jb_conf j) \<noteq> NULL_PTR \<Longrightarrow> alike hb he \<Longrightarrow> ops_ok (he_ops he) \<Longrightarrow>
     ngx_http_shield_ban_record he (jb_req j) (jb_conf j) (sv_zones s) = Some zs \<Longrightarrow>
     server_step hb spool s (move s i j zs (Noted hit))"
| tally: "sv_jobs s i = Some j \<Longrightarrow> jb_stage j = Noted hit \<Longrightarrow>
     server_step hb spool s (move s i j (ngx_http_shield_ban_count (jb_conf j) hit (sv_zones s)) (Counted hit))"
| report: "sv_jobs s i = Some j \<Longrightarrow> jb_stage j = Counted hit \<Longrightarrow> alike hb he \<Longrightarrow>
     ngx_http_shield_write_log (he_log he) pool (jb_req j) (jb_conf j) hit = (eff, pool') \<Longrightarrow>
     after_act (jb_conf j) (jb_req j) (jb_ctx j) = (c, st) \<Longrightarrow>
     server_step hb spool s
       (move (s\<lparr>sv_files := log_append (he_log he) (jb_conf j) eff (sv_files s)\<rparr>) i (with_ctx j c) (sv_zones s) st)"

inductive server_run :: "handler_env \<Rightarrow> bytes \<Rightarrow> server \<Rightarrow> server \<Rightarrow> bool" for hb spool where
  stop: "server_run hb spool s s"
| step: "server_run hb spool s t \<Longrightarrow> server_step hb spool t u \<Longrightarrow> server_run hb spool s u"

lemma alike_refl: "alike he he"
  by (simp add: alike_def log_alike_def clock_alike_def)

lemma run_one: "server_step hb spool s t \<Longrightarrow> server_run hb spool s t"
  by (rule server_run.step [OF server_run.stop])

lemma run_trans: "server_run hb spool s t \<Longrightarrow> server_run hb spool t u \<Longrightarrow> server_run hb spool s u"
  by (rotate_tac, induction rule: server_run.induct) (auto intro: server_run.step)

lemma move_sel [simp]:
  "sv_zones (move s i j zs st) = zs"
  "sv_jobs (move s i j zs st) = (sv_jobs s)(i \<mapsto> j\<lparr>jb_stage := st\<rparr>)"
  "sv_files (move s i j zs st) = sv_files s"
  by (simp_all add: move_def)

section \<open>Invariant\<close>

text \<open>
  The zones are well-formed and those in use are initialized; a request has a context from the moment
  its body is read; a request that waits for its body has a clean line and clean headers; a request with
  a hit is not clean; a main request that block mode lets pass was inspected and is clean.
\<close>

definition job_clean :: "ngx_env \<Rightarrow> bytes \<Rightarrow> job \<Rightarrow> bool" where
  "job_clean env spool j \<longleftrightarrow> prebody_clean env (jb_conf j) (jb_req j)
     \<and> (lc_body (jb_conf j) \<noteq> 0 \<longrightarrow> ngx_http_shield_scannable_body env (jb_req j) \<longrightarrow>
          clean env (lc_skip (jb_conf j) OR ngx_http_shield_no_body_mask) (body_prefix spool (jb_req j) (lc_max_body (jb_conf j))))"

fun is_hit :: "stage \<Rightarrow> bool" where
  "is_hit (Found hit) = True"
| "is_hit (Noted hit) = True"
| "is_hit (Counted hit) = True"
| "is_hit _ = False"

definition job_ok :: "ngx_env \<Rightarrow> bytes \<Rightarrow> zones \<Rightarrow> job \<Rightarrow> bool" where
  "job_ok env spool zs j \<longleftrightarrow> zone_ready (jb_conf j) zs \<and> files_read spool (jb_req j)
     \<and> (jb_stage j \<noteq> Arrived \<longrightarrow> off_path j \<longrightarrow> jb_stage j = Answered NGX_DECLINED)
     \<and> (jb_stage j \<in> {Arrived, Passed} \<longrightarrow> jb_ctx j = None) \<and> (jb_stage j = Reading \<longrightarrow> jb_ctx j \<noteq> None)
     \<and> (jb_stage j = Reading \<longrightarrow> prebody_clean env (jb_conf j) (jb_req j)
          \<and> lc_body (jb_conf j) \<noteq> 0 \<and> ngx_http_shield_scannable_body env (jb_req j))
     \<and> (is_hit (jb_stage j) \<longrightarrow> \<not> job_clean env spool j)
     \<and> (jb_stage j = Answered NGX_DECLINED \<longrightarrow> lc_mode (jb_conf j) = SHIELD_BLOCK \<longrightarrow> r_main (jb_req j) \<longrightarrow> job_clean env spool j)"

lemma job_clean_stage [simp]: "job_clean env spool (j\<lparr>jb_stage := st\<rparr>) = job_clean env spool j"
    "job_clean env spool (with_ctx j c) = job_clean env spool j"
  by (simp_all add: job_clean_def)

lemma off_path_stage [simp]: "off_path (j\<lparr>jb_stage := st\<rparr>) = off_path j" "off_path (with_ctx j c) = off_path j"
  by (simp_all add: off_path_def)

text \<open>The first call goes past the early returns unless the request is none of the module's; the second call never does.\<close>

lemma enters_None: "enters j = None \<longleftrightarrow> \<not> off_path j \<and> jb_ctx j = None"
  by (auto simp: handler_entry_def off_path_def split: option.splits)

lemma enters_Some: "enters j = Some rc \<Longrightarrow> jb_ctx j = None \<Longrightarrow> off_path j \<and> rc = NGX_DECLINED"
  by (auto simp: handler_entry_def off_path_def split: if_splits)

lemma resume_answers: "\<exists>rc. resume slcf r status = (Some status, Answered rc)"
  by (simp add: resume_def handler_entry_def)

lemma resume_main: "\<not> off_path j \<Longrightarrow> resume (jb_conf j) (jb_req j) status = (Some status, Answered status)"
  by (simp add: resume_def handler_entry_def off_path_def)

lemma after_act_answers: "after_act slcf r ctx = (c, st) \<Longrightarrow> \<exists>rc. st = Answered rc"
  using resume_answers [of slcf r "verdict slcf"] by (auto simp: after_act_def split: option.splits)

lemma after_act_main:
  "\<not> off_path j \<Longrightarrow> \<exists>c. after_act (jb_conf j) (jb_req j) (jb_ctx j) = (c, Answered (verdict (jb_conf j)))"
  by (cases "jb_ctx j") (simp_all add: after_act_def resume_main)

definition server_ok :: "ngx_env \<Rightarrow> bytes \<Rightarrow> server \<Rightarrow> bool" where
  "server_ok env spool s \<longleftrightarrow> zones_ok (sv_zones s) \<and> (\<forall>i j. sv_jobs s i = Some j \<longrightarrow> job_ok env spool (sv_zones s) j)"

lemma server_ok_files [simp]: "server_ok env spool (s\<lparr>sv_files := fs\<rparr>) = server_ok env spool s"
  by (simp add: server_ok_def)

text \<open>An operation on one zone leaves every initialized zone initialized.\<close>

definition zones_kept :: "zones \<Rightarrow> zones \<Rightarrow> bool" where
  "zones_kept zs zs' \<longleftrightarrow> zones_ok zs' \<and> (\<forall>z. zs z \<noteq> None \<longrightarrow> zs' z \<noteq> None)"

lemma zones_kept_refl: "zones_ok zs \<Longrightarrow> zones_kept zs zs"
  by (simp add: zones_kept_def)

lemma zone_ready_kept: "zones_kept zs zs' \<Longrightarrow> zone_ready slcf zs \<Longrightarrow> zone_ready slcf zs'"
  by (auto simp: zones_kept_def zone_ready_def zone_of_def split: conf_ptr.splits)

lemma upd_kept: "zones_ok (zs(z \<mapsto> sh)) \<Longrightarrow> zones_kept zs (zs(z \<mapsto> sh))"
  by (simp add: zones_kept_def)

lemma is_banned_kept:
  assumes "zones_ok zs" and "zone_of slcf zs \<noteq> None" and "ngx_http_shield_ban_is_banned he r slcf zs = Some (b, zs')"
  shows "zones_kept zs zs'"
proof -
  have "zones_ok zs'" using is_banned_total [OF assms(1,2), of he r] assms(3) by auto
  moreover have "zs' = zs \<or> (\<exists>z sh. zs' = zs(z \<mapsto> sh))"
    using assms(3) by (auto simp: ngx_http_shield_ban_is_banned_def split: option.splits prod.splits)
  ultimately show ?thesis using zones_kept_refl upd_kept by blast
qed

lemma record_kept:
  assumes "ops_ok (he_ops he)" and "zones_ok zs" and "zone_of slcf zs \<noteq> None" and "ngx_http_shield_ban_record he r slcf zs = Some zs'"
  shows "zones_kept zs zs'"
proof -
  have "zones_ok zs'" using record_total [OF assms(1-3), of r] assms(4) by auto
  moreover have "zs' = zs \<or> (\<exists>z sh. zs' = zs(z \<mapsto> sh))"
    using assms(4) by (auto simp: ngx_http_shield_ban_record_def split: option.splits prod.splits)
  ultimately show ?thesis using zones_kept_refl upd_kept by blast
qed

lemma count_kept: "zones_ok zs \<Longrightarrow> zones_kept zs (ngx_http_shield_ban_count slcf hit zs)"
  using count_total(1) [of zs slcf hit] by (auto simp: zones_kept_def ngx_http_shield_ban_count_def split: option.split)

text \<open>Moving one request keeps the invariant when its new stage fits and the zones are kept.\<close>

lemma move_ok:
  assumes "server_ok env spool s" and "zones_kept (sv_zones s) zs" and "job_ok env spool zs (j\<lparr>jb_stage := st\<rparr>)"
  shows "server_ok env spool (move s i j zs st)"
proof -
  have "job_ok env spool zs j'" if "sv_jobs s k = Some j'" for k j'
    using that assms(1) zone_ready_kept [OF assms(2)] by (auto simp: server_ok_def job_ok_def)
  then show ?thesis using assms(2,3) by (auto simp: server_ok_def zones_kept_def)
qed

lemma job_ok_answer:
  assumes "job_ok env spool zs0 j" and "zones_kept zs0 zs" and "\<not> off_path j" and "rc \<noteq> NGX_DECLINED \<or> lc_mode (jb_conf j) \<noteq> SHIELD_BLOCK"
  shows "job_ok env spool zs (j\<lparr>jb_ctx := c, jb_stage := Answered rc\<rparr>)"
  using assms zone_ready_kept [OF assms(2)] by (auto simp: job_ok_def)

lemma job_ok_go:
  assumes "job_ok env spool zs0 j" and "zones_kept zs0 zs" and "\<not> off_path j"
  shows "jb_ctx j = None \<Longrightarrow> job_ok env spool zs (j\<lparr>jb_stage := Passed\<rparr>)"
    and "\<not> job_clean env spool j \<Longrightarrow> is_hit st \<Longrightarrow> job_ok env spool zs (j\<lparr>jb_ctx := c, jb_stage := st\<rparr>)"
  using assms zone_ready_kept [OF assms(2)] by (auto simp: job_ok_def)

lemma job_ok_inspect:
  assumes g: "globals_ok (e_globals env)" and j: "job_ok env spool zs j" and z: "zones_ok zs" and n: "\<not> off_path j" and e: "he_env he = env"
    and i: "ngx_http_shield_inspect_prebody env pool (jb_req j) (jb_conf j) hit0 = (res, pool')"
    and a: "after_prebody he (jb_req j) (jb_conf j) ctx_ok res = (c, st)"
  shows "job_ok env spool zs (j\<lparr>jb_ctx := c, jb_stage := st\<rparr>)"
proof -
  obtain rc hit where res: "res = (rc, hit)" by fastforce
  note i' = i [unfolded res] and a' = a [unfolded res after_prebody_def prod.case]
  have pre: "rc = NGX_DECLINED \<Longrightarrow> prebody_clean env (jb_conf j) (jb_req j)" using prebody_declined [OF g i'] by blast
  consider "rc = NGX_OK" | "rc = NGX_ERROR" | "rc = NGX_DECLINED" using prebody_rc [OF g i'] by blast
  then show ?thesis
  proof cases
    case 1
    then have "\<not> job_clean env spool j" using prebody_declined [OF g i'] by (auto simp: job_clean_def)
    then show ?thesis using 1 a' job_ok_go(2) [OF j zones_kept_refl [OF z] n, of "Found hit"] by auto
  next
    case 2
    have "ngx_http_shield_fail (jb_conf j) \<noteq> NGX_DECLINED \<or> lc_mode (jb_conf j) \<noteq> SHIELD_BLOCK" by (simp add: ngx_http_shield_fail_def)
    then show ?thesis using 2 a' job_ok_answer [OF j zones_kept_refl [OF z] n] by auto
  next
    case 3
    let ?scan = "lc_body (jb_conf j) \<noteq> 0 \<and> ngx_http_shield_scannable_body env (jb_req j)"
    have "special_response x \<Longrightarrow> x \<noteq> NGX_DECLINED" for x by (auto simp: special_response_def)
    then consider (none) "st = Answered NGX_DECLINED" "\<not> ?scan" | (fail) x where "st = Answered x" "x \<noteq> NGX_DECLINED"
      | (read) "st = Reading" "c = Some NGX_DECLINED" "?scan" using 3 a' e by (simp split: if_splits) fastforce+
    then show ?thesis
    proof cases
      case none
      then have "job_clean env spool j" using pre [OF 3] by (auto simp: job_clean_def)
      then show ?thesis using none(1) j n by (simp add: job_ok_def)
    next
      case fail
      then show ?thesis using job_ok_answer [OF j zones_kept_refl [OF z] n] by simp
    next
      case read
      then show ?thesis using pre [OF 3] j n by (simp add: job_ok_def)
    qed
  qed
qed

lemma job_ok_body:
  assumes g: "globals_ok (e_globals env)" and j: "job_ok env spool zs j" and z: "zones_ok zs" and s: "jb_stage j = Reading"
    and i: "ngx_http_shield_inspect_body env pool (jb_req j) (jb_conf j) hit0 = (res, pool')"
    and a: "after_body (jb_conf j) (jb_req j) (jb_ctx j) res = (c, st)"
  shows "job_ok env spool zs (j\<lparr>jb_ctx := c, jb_stage := st\<rparr>)"
proof -
  obtain rc hit where res: "res = (rc, hit)" by fastforce
  have n: "\<not> off_path j" using j s by (auto simp: job_ok_def)
  note a' = a [unfolded res after_body_def prod.case resume_main [OF n]]
  have files: "case r_body (jb_req j) of None \<Rightarrow> True | Some bufs \<Rightarrow> list_all (buf_reads spool) bufs"
    using j by (simp add: job_ok_def files_read_def)
  consider "rc = NGX_OK" | "rc = NGX_ERROR" | "rc = NGX_DECLINED" using inspect_body_rc [OF g i [unfolded res]] by blast
  then show ?thesis
  proof cases
    case 1
    have "\<not> clean env (lc_skip (jb_conf j) OR ngx_http_shield_no_body_mask) (body_prefix spool (jb_req j) (lc_max_body (jb_conf j)))"
      by (rule inspect_body_hit [OF g files]) (use i 1 res in simp)
    then have "\<not> job_clean env spool j" using j s by (simp add: job_clean_def job_ok_def)
    then have "job_ok env spool zs (j\<lparr>jb_ctx := jb_ctx j, jb_stage := Found hit\<rparr>)"
      by (rule job_ok_go(2) [OF j zones_kept_refl [OF z] n]) simp
    then show ?thesis using 1 a' by auto
  next
    case 2
    have "ngx_http_shield_fail (jb_conf j) \<noteq> NGX_DECLINED \<or> lc_mode (jb_conf j) \<noteq> SHIELD_BLOCK" by (simp add: ngx_http_shield_fail_def)
    then show ?thesis using 2 a' job_ok_answer [OF j zones_kept_refl [OF z] n] by auto
  next
    case 3
    have "clean env (lc_skip (jb_conf j) OR ngx_http_shield_no_body_mask) (body_prefix spool (jb_req j) (lc_max_body (jb_conf j)))"
      by (rule inspect_body_declined [OF g files]) (use i 3 res in simp)
    then show ?thesis using 3 a' j n s by (auto simp: job_ok_def job_clean_def)
  qed
qed

lemma verdict_block: "verdict slcf \<noteq> NGX_DECLINED \<or> lc_mode slcf \<noteq> SHIELD_BLOCK"
  by (simp add: verdict_def)

lemma server_okD:
  assumes "server_ok env spool s"
  shows "zones_ok (sv_zones s)" and "zones_kept (sv_zones s) (sv_zones s)"
    and "sv_jobs s i = Some j \<Longrightarrow> job_ok env spool (sv_zones s) j"
    and "sv_jobs s i = Some j \<Longrightarrow> lc_ban_zone (jb_conf j) \<noteq> NULL_PTR \<Longrightarrow> zone_of (jb_conf j) (sv_zones s) \<noteq> None"
    and "sv_jobs s i = Some j \<Longrightarrow> jb_stage j \<noteq> Arrived \<Longrightarrow> jb_stage j \<noteq> Answered NGX_DECLINED \<Longrightarrow> \<not> off_path j"
  using assms by (auto simp: server_ok_def job_ok_def zone_ready_def zones_kept_refl)

text \<open>The three kinds of moves: on to the inspection, with a hit, and to an answer.\<close>

lemma move_stage_ok:
  assumes ok: "server_ok env spool s" and j: "sv_jobs s i = Some j" and n: "\<not> off_path j" and k: "zones_kept (sv_zones s) zs"
  shows "jb_ctx j = None \<Longrightarrow> server_ok env spool (move s i j zs Passed)"
    and "\<not> job_clean env spool j \<Longrightarrow> is_hit st \<Longrightarrow> server_ok env spool (move s i j zs st)"
    and "rc \<noteq> NGX_DECLINED \<or> lc_mode (jb_conf j) \<noteq> SHIELD_BLOCK \<Longrightarrow> server_ok env spool (move s i (with_ctx j c) zs (Answered rc))"
    and "rc \<noteq> NGX_DECLINED \<or> lc_mode (jb_conf j) \<noteq> SHIELD_BLOCK \<Longrightarrow> server_ok env spool (move s i j zs (Answered rc))"
  using job_ok_go(1) [OF server_okD(3) [OF ok j] k n] job_ok_go(2) [OF server_okD(3) [OF ok j] k n, where c = "jb_ctx j"]
    job_ok_answer [OF server_okD(3) [OF ok j] k n] job_ok_answer [OF server_okD(3) [OF ok j] k n, where c = "jb_ctx j"]
  by (auto intro: move_ok [OF ok k])

text \<open>A request with a hit moves only on with its hit.\<close>

lemma hit_move_ok:
  assumes ok: "server_ok env spool s" and j: "sv_jobs s i = Some j" "is_hit (jb_stage j)" and k: "zones_kept (sv_zones s) zs" and "is_hit st"
  shows "server_ok env spool (move s i j zs st)"
proof -
  have "jb_stage j \<noteq> Arrived" "jb_stage j \<noteq> Answered NGX_DECLINED" using j(2) by auto
  then have "\<not> off_path j" by (rule server_okD(5) [OF ok j(1)])
  moreover have "\<not> job_clean env spool j" using server_okD(3) [OF ok j(1)] j(2) by (simp add: job_ok_def)
  ultimately show ?thesis using move_stage_ok(2) [OF ok j(1) _ k] assms(5) by blast
qed

lemma server_step_ok:
  assumes g: "globals_ok (e_globals (he_env hb))" and ok: "server_ok (he_env hb) spool s" and st: "server_step hb spool s t"
  shows "server_ok (he_env hb) spool t"
  using st
proof cases
  case (arrive i slcf r)
  then show ?thesis by (auto intro!: move_ok [OF ok server_okD(2) [OF ok]] simp: job_ok_def)
next
  case (early i j rc)
  have off: "off_path j" "rc = NGX_DECLINED" using enters_Some [OF early(4)] server_okD(3) [OF ok early(2)] early(3) by (simp_all add: job_ok_def)
  have "lc_mode (jb_conf j) \<noteq> SHIELD_BLOCK \<or> \<not> r_main (jb_req j)"
    using off(1) by (auto simp: off_path_def SHIELD_OFF_def SHIELD_BLOCK_def)
  then have "job_ok (he_env hb) spool (sv_zones s) (j\<lparr>jb_stage := Answered NGX_DECLINED\<rparr>)"
    using server_okD(3) [OF ok early(2)] by (auto simp: job_ok_def)
  then show ?thesis unfolding early(1) off(2) by (rule move_ok [OF ok server_okD(2) [OF ok]])
next
  case (no_zone i j)
  note n = no_zone(4) [unfolded enters_None]
  show ?thesis unfolding no_zone(1) by (rule move_stage_ok(1) [OF ok no_zone(2) _ server_okD(2) [OF ok]]) (use n in simp_all)
next
  case (check i j he banned zs)
  note n = check(4) [unfolded enters_None]
  have k: "zones_kept (sv_zones s) zs" by (rule is_banned_kept [OF server_okD(1) [OF ok] server_okD(4) [OF ok check(2,5)] check(7)])
  show ?thesis unfolding check(1) using move_stage_ok(1) [OF ok check(2) _ k] move_stage_ok(4) [OF ok check(2) _ k] n
    by (simp add: after_check_def)
next
  case (inspect i j he pool res pool' ctx_ok c st)
  have n: "\<not> off_path j" using server_okD(5) [OF ok inspect(2)] inspect(3) by simp
  have e: "he_env he = he_env hb" using inspect(4) by (simp add: alike_def)
  show ?thesis unfolding inspect(1)
    by (rule move_ok [OF ok server_okD(2) [OF ok] job_ok_inspect [OF g server_okD(3) [OF ok inspect(2)] server_okD(1) [OF ok] n e inspect(5,6)]])
next
  case (body i j pool res pool' c st)
  show ?thesis unfolding body(1)
    by (rule move_ok [OF ok server_okD(2) [OF ok] job_ok_body [OF g server_okD(3) [OF ok body(2)] server_okD(1) [OF ok] body(3,4,5)]])
next
  case (unrecorded i j hit)
  show ?thesis unfolding unrecorded(1) by (rule hit_move_ok [OF ok unrecorded(2) _ server_okD(2) [OF ok]]) (simp_all add: unrecorded(3))
next
  case (charge i j hit he zs)
  have k: "zones_kept (sv_zones s) zs" by (rule record_kept [OF charge(6) server_okD(1) [OF ok] server_okD(4) [OF ok charge(2,4)] charge(7)])
  show ?thesis unfolding charge(1) by (rule hit_move_ok [OF ok charge(2) _ k]) (simp_all add: charge(3))
next
  case (tally i j hit)
  show ?thesis unfolding tally(1) by (rule hit_move_ok [OF ok tally(2) _ count_kept [OF server_okD(1) [OF ok]]]) (simp_all add: tally(3))
next
  case (report i j hit he pool eff pool' c st)
  let ?s = "s\<lparr>sv_files := log_append (he_log he) (jb_conf j) eff (sv_files s)\<rparr>"
  have ok': "server_ok (he_env hb) spool ?s" using ok by simp
  have n: "\<not> off_path j" using server_okD(5) [OF ok report(2)] report(3) by simp
  have "st = Answered (verdict (jb_conf j))" using after_act_main [OF n] report(6) by simp
  then show ?thesis unfolding report(1)
    by (simp only:) (rule move_stage_ok(3) [OF ok' _ n _ verdict_block], use report(2) server_okD(2) [OF ok] in simp_all)
qed

section \<open>Progress\<close>

text \<open>How many steps a request still takes at most.\<close>

fun rank :: "stage \<Rightarrow> nat" where
  "rank Arrived = 6"
| "rank Passed = 5"
| "rank Reading = 4"
| "rank (Found hit) = 3"
| "rank (Noted hit) = 2"
| "rank (Counted hit) = 1"
| "rank (Answered rc) = 0"

lemma rank_le: "rank st \<le> 6"
  by (cases st) simp_all

lemma rank_after:
  "rank (after_check slcf banned) < rank Arrived"
  "after_prebody he r slcf ctx_ok res = (c, st) \<Longrightarrow> rank st < rank Passed"
  "after_body slcf r ctx res = (c, st) \<Longrightarrow> rank st < rank Reading"
  "after_act slcf r ctx = (c, st) \<Longrightarrow> rank st < rank (Counted hit)"
proof -
  have res: "resume slcf r status = (c, st) \<Longrightarrow> rank st = 0" for status using resume_answers [of slcf r status] by auto
  show "rank (after_check slcf banned) < rank Arrived" by (simp add: after_check_def)
  show "after_prebody he r slcf ctx_ok res = (c, st) \<Longrightarrow> rank st < rank Passed"
    by (auto simp: after_prebody_def split: prod.splits if_splits)
  show "after_body slcf r ctx res = (c, st) \<Longrightarrow> rank st < rank Reading"
    using res by (auto simp: after_body_def split: prod.splits if_splits)
  show "after_act slcf r ctx = (c, st) \<Longrightarrow> rank st < rank (Counted hit)"
    using after_act_answers by fastforce
qed

text \<open>Every step brings in a new request or brings one request closer to its answer.\<close>

definition closer :: "server \<Rightarrow> nat \<Rightarrow> server \<Rightarrow> bool" where
  "closer s i t \<longleftrightarrow> (\<exists>j j'. sv_jobs s i = Some j \<and> sv_jobs t = (sv_jobs s)(i \<mapsto> j') \<and> jb_req j' = jb_req j \<and> jb_conf j' = jb_conf j
     \<and> rank (jb_stage j') < rank (jb_stage j))"

definition arrives :: "server \<Rightarrow> server \<Rightarrow> bool" where
  "arrives s t \<longleftrightarrow> (\<exists>i j. sv_jobs s i = None \<and> sv_jobs t = (sv_jobs s)(i \<mapsto> j))"

lemma closer_move:
  "sv_jobs s i = Some j \<Longrightarrow> rank st < rank (jb_stage j) \<Longrightarrow> closer s i (move s i j zs st)"
  "sv_jobs s i = Some j \<Longrightarrow> rank st < rank (jb_stage j) \<Longrightarrow> closer s i (move (s\<lparr>sv_files := fs\<rparr>) i (with_ctx j c) zs st)"
  "sv_jobs s i = Some j \<Longrightarrow> rank st < rank (jb_stage j) \<Longrightarrow> closer s i (move s i (with_ctx j c) zs st)"
  unfolding closer_def by force+

lemma arrives_move: "sv_jobs s i = None \<Longrightarrow> arrives s (move s i j zs st)"
  unfolding arrives_def by (intro exI [of _ i] exI [of _ "j\<lparr>jb_stage := st\<rparr>"]) simp

lemma step_rank: "server_step hb spool s t \<Longrightarrow> arrives s t \<or> (\<exists>i. closer s i t)"
proof (induction rule: server_step.induct)
  case (arrive s i slcf r)
  then show ?case using arrives_move by blast
next
  case (check s i j he banned zs)
  then show ?case using closer_move(1) rank_after(1) by metis
next
  case (inspect s i j he pool res pool' ctx_ok c st)
  then show ?case using closer_move(3) rank_after(2) by metis
next
  case (body s i j pool res pool' c st)
  then show ?case using closer_move(3) rank_after(3) by metis
next
  case (report s i j hit he pool eff pool' c st)
  then show ?case using closer_move(2) rank_after(4) by metis
qed (rule disjI2, rule exI, rule closer_move(1), assumption, simp)+

text \<open>
  The work left in a server with finitely many requests.  A step that brings in no request reduces it, so
  that it bounds the number of such steps in a row, under any scheduling.
\<close>

definition work :: "server \<Rightarrow> nat" where
  "work s = (\<Sum>i \<in> dom (sv_jobs s). rank (jb_stage (the (sv_jobs s i))))"

definition quiet_step :: "handler_env \<Rightarrow> bytes \<Rightarrow> server \<Rightarrow> server \<Rightarrow> bool" where
  "quiet_step hb spool s t \<longleftrightarrow> server_step hb spool s t \<and> \<not> arrives s t"

lemma closer_work:
  assumes "finite (dom (sv_jobs s))" and "closer s i t"
  shows "work t < work s \<and> dom (sv_jobs t) = dom (sv_jobs s)"
proof -
  obtain j j' where c: "sv_jobs s i = Some j" "sv_jobs t = (sv_jobs s)(i \<mapsto> j')" "rank (jb_stage j') < rank (jb_stage j)"
    using assms(2) unfolding closer_def by blast
  have d: "dom (sv_jobs t) = dom (sv_jobs s)" "i \<in> dom (sv_jobs s)" using c by auto
  have "work t < work s" unfolding work_def d(1)
    by (rule sum_strict_mono_ex1 [OF assms(1)]) (use c d(2) in \<open>auto intro!: bexI [of _ i]\<close>)
  then show ?thesis using d(1) by blast
qed

lemma quiet_work: "finite (dom (sv_jobs s)) \<Longrightarrow> quiet_step hb spool s t \<Longrightarrow> work t < work s \<and> dom (sv_jobs t) = dom (sv_jobs s)"
  using step_rank closer_work unfolding quiet_step_def by blast

lemma quiet_steps_work:
  "(quiet_step hb spool ^^ n) s t \<Longrightarrow> finite (dom (sv_jobs s)) \<Longrightarrow> n + work t \<le> work s \<and> dom (sv_jobs t) = dom (sv_jobs s)"
proof (induction n arbitrary: t)
  case (Suc n)
  obtain u where u: "(quiet_step hb spool ^^ n) s u" "quiet_step hb spool u t" using Suc.prems(1) by auto
  then show ?case using Suc.IH [OF u(1) Suc.prems(2)] quiet_work [of u hb spool t] Suc.prems(2) by auto
qed simp

lemma work_le: "work s \<le> 6 * card (dom (sv_jobs s))"
  unfolding work_def using rank_le sum_bounded_above [of "dom (sv_jobs s)" "\<lambda>i. rank (jb_stage (the (sv_jobs s i)))" 6]
  by (simp add: mult.commute)

text \<open>
  A request that is not answered can always take its next step: no locked operation fails, whatever the
  other requests did to the zones.
\<close>

lemma next_step: "server_step hb spool s t \<Longrightarrow> closer s i t \<Longrightarrow> \<exists>t. server_step hb spool s t \<and> closer s i t"
  by blast

text \<open>The next step of a request by the stage it is in.\<close>

lemma arrived_progress:
  assumes ok: "server_ok (he_env hb) spool s" and j: "sv_jobs s i = Some j" and st: "jb_stage j = Arrived"
  shows "\<exists>t. server_step hb spool s t \<and> closer s i t"
proof -
  consider rc where "enters j = Some rc" | "enters j = None" "lc_ban_zone (jb_conf j) = NULL_PTR"
    | "enters j = None" "lc_ban_zone (jb_conf j) \<noteq> NULL_PTR" by fastforce
  then show ?thesis
  proof cases
    case 1
    from next_step [OF server_step.early [OF j st 1] closer_move(1) [OF j]] show ?thesis by (simp add: st)
  next
    case 2
    from next_step [OF server_step.no_zone [OF j st 2] closer_move(1) [OF j]] show ?thesis by (simp add: st)
  next
    case 3
    obtain b zs where "ngx_http_shield_ban_is_banned hb (jb_req j) (jb_conf j) (sv_zones s) = Some (b, zs)"
      using is_banned_total [OF server_okD(1) [OF ok] server_okD(4) [OF ok j 3(2)]] by blast
    from next_step [OF server_step.check [OF j st 3 alike_refl this] closer_move(1) [OF j]] show ?thesis using rank_after(1) st by metis
  qed
qed

lemma found_progress:
  assumes ok: "server_ok (he_env hb) spool s" and j: "sv_jobs s i = Some j" and ops: "ops_ok (he_ops hb)" and st: "jb_stage j = Found hit"
  shows "\<exists>t. server_step hb spool s t \<and> closer s i t"
proof (cases "lc_ban_zone (jb_conf j) = NULL_PTR")
  case True
  from next_step [OF server_step.unrecorded [OF j st True] closer_move(1) [OF j]] show ?thesis by (simp add: st)
next
  case False
  obtain zs where "ngx_http_shield_ban_record hb (jb_req j) (jb_conf j) (sv_zones s) = Some zs"
    using record_total [OF ops server_okD(1) [OF ok] server_okD(4) [OF ok j False]] by blast
  from next_step [OF server_step.charge [OF j st False alike_refl ops this] closer_move(1) [OF j]] show ?thesis by (simp add: st)
qed

lemma job_progress:
  assumes ok: "server_ok (he_env hb) spool s" and j: "sv_jobs s i = Some j" and ops: "ops_ok (he_ops hb)"
    and n: "\<forall>rc. jb_stage j \<noteq> Answered rc"
  shows "\<exists>t. server_step hb spool s t \<and> closer s i t"
proof (cases "jb_stage j")
  case Arrived
  then show ?thesis by (rule arrived_progress [OF ok j])
next
  case Passed
  obtain res pool' c st where "ngx_http_shield_inspect_prebody (he_env hb) [] (jb_req j) (jb_conf j) hit0 = (res, pool')"
      "after_prebody hb (jb_req j) (jb_conf j) True res = (c, st)" by (meson surj_pair)
  from next_step [OF server_step.inspect [OF j Passed alike_refl this] closer_move(3) [OF j]] rank_after(2) [OF this(2)] show ?thesis
    by (simp add: Passed)
next
  case Reading
  obtain res pool' c st where "ngx_http_shield_inspect_body (he_env hb) [] (jb_req j) (jb_conf j) hit0 = (res, pool')"
      "after_body (jb_conf j) (jb_req j) (jb_ctx j) res = (c, st)" by (meson surj_pair)
  from next_step [OF server_step.body [OF j Reading this] closer_move(3) [OF j]] rank_after(3) [OF this(2)] show ?thesis
    by (simp add: Reading)
next
  case (Found hit)
  then show ?thesis by (rule found_progress [OF ok j ops])
next
  case (Noted hit)
  from next_step [OF server_step.tally [OF j Noted] closer_move(1) [OF j]] show ?thesis by (simp add: Noted)
next
  case (Counted hit)
  obtain eff pool' c st where "ngx_http_shield_write_log (he_log hb) [] (jb_req j) (jb_conf j) hit = (eff, pool')"
      "after_act (jb_conf j) (jb_req j) (jb_ctx j) = (c, st)" by (meson surj_pair)
  from next_step [OF server_step.report [OF j Counted alike_refl this] closer_move(2) [OF j]] rank_after(4) [OF this(2)] show ?thesis
    by (simp add: Counted)
next
  case (Answered rc)
  then show ?thesis using n by blast
qed

text \<open>
  A step of request \<open>i\<close> alone: it moves on, keeps what it asked for, and no other request moves.  By such
  steps a request gets to its answer.
\<close>

definition own_step :: "handler_env \<Rightarrow> bytes \<Rightarrow> nat \<Rightarrow> server \<Rightarrow> server \<Rightarrow> bool" where
  "own_step hb spool i s t \<longleftrightarrow> server_step hb spool s t
     \<and> (\<exists>j j'. sv_jobs s i = Some j \<and> sv_jobs t = (sv_jobs s)(i \<mapsto> j') \<and> jb_req j' = jb_req j \<and> jb_conf j' = jb_conf j
          \<and> jb_stage j' \<noteq> jb_stage j)"

lemma closer_own: "server_step hb spool s t \<Longrightarrow> closer s i t \<Longrightarrow> own_step hb spool i s t"
  unfolding own_step_def closer_def by (metis less_irrefl)

lemma own_run:
  assumes g: "globals_ok (e_globals (he_env hb))" and ops: "ops_ok (he_ops hb)"
  shows "server_ok (he_env hb) spool s \<Longrightarrow> sv_jobs s i = Some j \<Longrightarrow>
     \<exists>n t j' rc. n \<le> rank (jb_stage j) \<and> (own_step hb spool i ^^ n) s t \<and> sv_jobs t = (sv_jobs s)(i \<mapsto> j')
       \<and> jb_req j' = jb_req j \<and> jb_conf j' = jb_conf j \<and> jb_stage j' = Answered rc"
proof (induction "rank (jb_stage j)" arbitrary: s j rule: less_induct)
  case less
  show ?case
  proof (cases "\<exists>rc. jb_stage j = Answered rc")
    case True
    have "sv_jobs s = (sv_jobs s)(i \<mapsto> j)" using less.prems(2) by auto
    moreover have "(own_step hb spool i ^^ 0) s s" by simp
    ultimately show ?thesis using True by blast
  next
    case False
    obtain u where u: "server_step hb spool s u" "closer s i u" using job_progress [OF less.prems ops] False by blast
    obtain k where k: "sv_jobs u = (sv_jobs s)(i \<mapsto> k)" "jb_req k = jb_req j" "jb_conf k = jb_conf j" "rank (jb_stage k) < rank (jb_stage j)"
      using u(2) less.prems(2) by (auto simp: closer_def)
    have "sv_jobs u i = Some k" using k(1) by simp
    from less.hyps [OF k(4) server_step_ok [OF g less.prems(1) u(1)] this]
    obtain n t j' rc where t: "n \<le> rank (jb_stage k)" "(own_step hb spool i ^^ n) u t" "sv_jobs t = (sv_jobs u)(i \<mapsto> j')"
        "jb_req j' = jb_req k" "jb_conf j' = jb_conf k" "jb_stage j' = Answered rc" by blast
    have "(own_step hb spool i ^^ Suc n) s t" using relpowp_Suc_I2 [OF closer_own [OF u] t(2)] .
    moreover have "Suc n \<le> rank (jb_stage j)" "sv_jobs t = (sv_jobs s)(i \<mapsto> j')" using t(1,3) k(1,4) by auto
    ultimately show ?thesis using t(4-6) k(2,3) by metis
  qed
qed

section \<open>The phase handler is one schedule\<close>

lemma move_move:
  "move ((move s i j zs st)\<lparr>sv_files := fs\<rparr>) i j' zs' st' = move (s\<lparr>sv_files := fs\<rparr>) i j' zs' st'"
  "move (move s i j zs st) i j' zs' st' = move s i j' zs' st'"
  "move s i (j\<lparr>jb_stage := x\<rparr>) zs st = move s i j zs st"
  "move s i (j\<lparr>jb_stage := x, jb_ctx := c\<rparr>) zs st = move s i (with_ctx j c) zs st"
  "move s i (j\<lparr>jb_ctx := c', jb_stage := x, jb_ctx := c\<rparr>) zs st = move s i (with_ctx j c) zs st"
  by (simp_all add: move_def)

text \<open>The files after a phase: what its new log effects, latest first, append.\<close>

definition phase_files :: "handler_env \<Rightarrow> req_state \<Rightarrow> req_state \<Rightarrow> log_files \<Rightarrow> log_files" where
  "phase_files he st st' fs =
     foldr (log_append (he_log he) (rs_conf st)) (take (length (rs_log st') - length (rs_log st)) (rs_log st')) fs"

lemma phase_files_none: "rs_log st' = rs_log st \<Longrightarrow> phase_files he st st' fs = fs"
  by (simp add: phase_files_def)

lemma phase_files_cong:
  "rs_log st1 = rs_log st \<Longrightarrow> rs_conf st1 = rs_conf st \<Longrightarrow> rs_log st1' = rs_log st' \<Longrightarrow> phase_files he st1 st1' fs = phase_files he st st' fs"
  by (simp add: phase_files_def)

text \<open>A job at a stage, on the state of a request.\<close>

definition job_at :: "server \<Rightarrow> nat \<Rightarrow> job \<Rightarrow> ngx_http_request_t \<Rightarrow> req_state \<Rightarrow> stage \<Rightarrow> bool" where
  "job_at s i j r st stg \<longleftrightarrow> sv_zones s = rs_zones st \<and> sv_jobs s i = Some j \<and> jb_req j = r \<and> jb_conf j = rs_conf st
     \<and> jb_ctx j = rs_ctx st \<and> jb_stage j = stg"

lemma job_atD:
  assumes "job_at s i j r st stg"
  shows "sv_zones s = rs_zones st" and "sv_jobs s i = Some j" and "jb_req j = r" and "jb_conf j = rs_conf st" and "jb_stage j = stg"
    and "jb_ctx j = rs_ctx st" and "off_path j = passes_by r st"
  using assms by (auto simp: job_at_def off_path_def passes_by_def)

lemma job_at_move:
  "job_at s i j r st stg \<Longrightarrow> rs_zones st' = zs \<Longrightarrow> rs_conf st' = rs_conf st \<Longrightarrow>
     job_at (move s i (with_ctx j (rs_ctx st')) zs stg') i (j\<lparr>jb_ctx := rs_ctx st', jb_stage := stg'\<rparr>) r st' stg'"
  by (simp add: job_at_def)

lemma with_ctx_same: "job_at s i j r st stg \<Longrightarrow> with_ctx j (rs_ctx st) = j"
  by (simp add: job_at_def)

text \<open>The steps of a decision on a hit: the charge and the count in the zone if there is one, and the report.\<close>

lemma act_zones_run:
  assumes act: "ngx_http_shield_act he r hit st = Some (rc, st')" and ops: "ops_ok (he_ops he)" and s: "job_at s i j r st (Found hit)"
  shows "server_run he spool s (move s i j (rs_zones st') (Counted hit))"
proof (cases "lc_ban_zone (rs_conf st) = NULL_PTR")
  case True
  then have "rs_zones st' = rs_zones st" using act log_hit_keeps [of "st\<lparr>rs_zones := rs_zones st\<rparr>" he r hit]
    by (auto simp: ngx_http_shield_act_def Let_def split: if_splits)
  then show ?thesis using run_one [OF server_step.unrecorded [OF job_atD(2,5) [OF s]]] True job_atD [OF s] by simp
next
  case False
  obtain zs where zs: "ngx_http_shield_ban_record he r (rs_conf st) (rs_zones st) = Some zs"
    using act False by (auto simp: ngx_http_shield_act_def Let_def split: option.splits)
  have z: "rs_zones st' = ngx_http_shield_ban_count (rs_conf st) hit zs"
    using act zs False log_hit_keeps [of "st\<lparr>rs_zones := ngx_http_shield_ban_count (rs_conf st) hit zs\<rparr>" he r hit]
    by (auto simp: ngx_http_shield_act_def Let_def split: if_splits)
  let ?s1 = "move s i j zs (Noted hit)" and ?j1 = "j\<lparr>jb_stage := Noted hit\<rparr>"
  have "server_step he spool s ?s1"
    by (rule server_step.charge [OF job_atD(2,5) [OF s] _ alike_refl ops]) (use False zs job_atD [OF s] in simp_all)
  moreover have "server_step he spool ?s1 (move ?s1 i ?j1 (ngx_http_shield_ban_count (jb_conf ?j1) hit (sv_zones ?s1)) (Counted hit))"
    by (rule server_step.tally) simp_all
  ultimately show ?thesis using run_trans [OF run_one run_one] z job_atD(4) [OF s] unfolding move_move by fastforce
qed

lemma act_run:
  assumes act: "ngx_http_shield_act he r hit st = Some (rc, st')" and ops: "ops_ok (he_ops he)" and s: "job_at s i j r st (Found hit)"
    and n: "\<not> passes_by r st"
  shows "server_run he spool s (move (s\<lparr>sv_files := phase_files he st st' (sv_files s)\<rparr>) i
      (with_ctx j (map_option (\<lambda>_. rc) (rs_ctx st))) (rs_zones st') (Answered rc))"
proof -
  let ?s1 = "move s i j (rs_zones st') (Counted hit)" and ?j1 = "j\<lparr>jb_stage := Counted hit\<rparr>" and ?c = "map_option (\<lambda>_. rc) (rs_ctx st)"
  obtain eff pool' where w: "ngx_http_shield_write_log (he_log he) (rs_pool st) r (rs_conf st) hit = (eff, pool')" by fastforce
  have f: "phase_files he st st' fs = log_append (he_log he) (rs_conf st) eff fs" for fs
    using act_record [OF act] w by (simp add: phase_files_def)
  have v: "verdict (rs_conf st) = rc" using act_rc [OF act] by (simp add: verdict_def)
  have "\<not> off_path j" using n job_atD(7) [OF s] by simp
  then have a: "after_act (jb_conf ?j1) (jb_req ?j1) (jb_ctx ?j1) = (?c, Answered rc)"
    using v job_atD [OF s] resume_main [of j] by (simp add: after_act_def split: option.splits)
  have "server_step he spool ?s1 (move (?s1\<lparr>sv_files := phase_files he st st' (sv_files s)\<rparr>) i (with_ctx ?j1 ?c) (rs_zones st') (Answered rc))"
    using server_step.report [where s = ?s1 and j = ?j1 and i = i and hb = he and he = he, OF _ _ alike_refl _ a] w job_atD [OF s] by (simp add: f)
  then show ?thesis using run_trans [OF act_zones_run [OF act ops s] run_one] unfolding move_move by blast
qed

lemma inspect_run:
  assumes g: "globals_ok (e_globals (he_env he))" and i: "handler_inspect he r st = Some (rc, st')" and ops: "ops_ok (he_ops he)"
    and s: "job_at s k j r st Passed" and c: "rs_ctx st = None" and n: "\<not> passes_by r st"
  shows "server_run he spool s (move (s\<lparr>sv_files := phase_files he st st' (sv_files s)\<rparr>) k (with_ctx j (rs_ctx st')) (rs_zones st')
      (if rc = NGX_DONE then Reading else Answered rc))"
proof -
  obtain rc0 hit pool where p: "ngx_http_shield_inspect_prebody (he_env he) (rs_pool st) r (rs_conf st) hit0 = ((rc0, hit), pool)"
    by (metis surj_pair)
  obtain ok pool2 where al: "palloc pool = (ok, pool2)" by fastforce
  obtain c1 stg where a: "after_prebody he r (rs_conf st) ok (rc0, hit) = (c1, stg)" by fastforce
  have one: "server_step he spool s (move s k (with_ctx j c1) (rs_zones st) stg)"
    using server_step.inspect [OF job_atD(2,5) [OF s] alike_refl, of he "rs_pool st" "(rc0, hit)" pool ok c1 stg spool] p a job_atD [OF s] by simp
  note unf = i [unfolded handler_inspect_def Let_def p prod.case]
  show ?thesis
  proof (cases "rc0 = NGX_OK")
    case True
    let ?st1 = "st\<lparr>rs_pool := pool\<rparr>"
    let ?s1 = "move s k (with_ctx j (rs_ctx ?st1)) (rs_zones st) (Found hit)"
    have act: "ngx_http_shield_act he r hit ?st1 = Some (rc, st')"
      using unf True by (auto split: option.splits if_splits)
    have f: "phase_files he ?st1 st' fs = phase_files he st st' fs" for fs by (rule phase_files_cong) simp_all
    have "server_run he spool ?s1 (move (?s1\<lparr>sv_files := phase_files he ?st1 st' (sv_files ?s1)\<rparr>) k
        (with_ctx (j\<lparr>jb_ctx := rs_ctx ?st1, jb_stage := Found hit\<rparr>) (map_option (\<lambda>_. rc) (rs_ctx ?st1))) (rs_zones st') (Answered rc))"
      by (rule act_run [OF act ops job_at_move [OF s]]) (use n in \<open>simp_all add: passes_by_def\<close>)
    moreover have "c1 = None" "stg = Found hit" "rc \<noteq> NGX_DONE" "rs_ctx st' = None"
      using True a act_rc [OF act] act_ctx [OF act] c by (simp_all add: after_prebody_def split: if_splits)
    ultimately show ?thesis using run_trans [OF run_one [OF one]] c unfolding move_move f by simp
  next
    case False
    then have "rs_zones st' = rs_zones st" "rs_log st' = rs_log st" "stg = (if rc = NGX_DONE then Reading else Answered rc)" "c1 = rs_ctx st'"
      using unf al a prebody_rc [OF g p] c
      by (auto simp: after_prebody_def ngx_http_shield_fail_def special_response_def split: if_splits ngx_rc.splits)
    then show ?thesis using run_one [OF one] by (simp add: phase_files_none)
  qed
qed

lemma body_run:
  assumes g: "globals_ok (e_globals (he_env he))" and b: "ngx_http_shield_body_handler he r st = Some st'" and ops: "ops_ok (he_ops he)"
    and s: "job_at s k j r st Reading" and rc: "rs_ctx st' = Some rc" and n: "\<not> passes_by r st"
  shows "server_run he spool s (move (s\<lparr>sv_files := phase_files he st st' (sv_files s)\<rparr>) k (with_ctx j (Some rc)) (rs_zones st') (Answered rc))"
proof -
  obtain rc0 hit pool where p: "ngx_http_shield_inspect_body (he_env he) (rs_pool st) r (rs_conf st) hit0 = ((rc0, hit), pool)"
    by (metis surj_pair)
  obtain c1 stg where a: "after_body (rs_conf st) r (rs_ctx st) (rc0, hit) = (c1, stg)" by fastforce
  have one: "server_step he spool s (move s k (with_ctx j c1) (rs_zones st) stg)"
    using server_step.body [OF job_atD(2,5) [OF s], of he "rs_pool st" "(rc0, hit)" pool c1 stg] p a job_atD [OF s] by simp
  obtain c where c: "rs_ctx st = Some c" using b by (auto simp: ngx_http_shield_body_handler_def split: option.splits)
  note unf = b [unfolded ngx_http_shield_body_handler_def Let_def p prod.case c option.case]
  have re: "resume (rs_conf st) r status = (Some status, Answered status)" for status
    using resume_main [of j] n job_atD [OF s] by simp
  show ?thesis
  proof (cases "rc0 = NGX_OK")
    case True
    let ?st1 = "st\<lparr>rs_pool := pool\<rparr>"
    let ?s1 = "move s k (with_ctx j (rs_ctx ?st1)) (rs_zones st) (Found hit)"
    obtain rc' st2 where act: "ngx_http_shield_act he r hit ?st1 = Some (rc', st2)"
        "rc = rc'" "rs_zones st' = rs_zones st2" "rs_log st' = rs_log st2"
      using unf True rc by (auto split: option.splits if_splits)
    have f: "phase_files he ?st1 st2 fs = phase_files he st st' fs" for fs by (rule phase_files_cong) (simp_all add: act(4))
    have "server_run he spool ?s1 (move (?s1\<lparr>sv_files := phase_files he ?st1 st2 (sv_files ?s1)\<rparr>) k
        (with_ctx (j\<lparr>jb_ctx := rs_ctx ?st1, jb_stage := Found hit\<rparr>) (map_option (\<lambda>_. rc') (rs_ctx ?st1))) (rs_zones st2) (Answered rc'))"
      by (rule act_run [OF act(1) ops job_at_move [OF s]]) (use n in \<open>simp_all add: passes_by_def\<close>)
    moreover have "c1 = Some c" "stg = Found hit" using True a c by (simp_all add: after_body_def)
    ultimately show ?thesis using run_trans [OF run_one [OF one]] act(2,3) c unfolding move_move f by simp
  next
    case False
    then have "rs_zones st' = rs_zones st" "rs_log st' = rs_log st" "stg = Answered rc" "c1 = Some rc"
      using unf rc a inspect_body_rc [OF g p] by (auto simp: after_body_def re split: if_splits)
    then show ?thesis using run_one [OF one] by (simp add: phase_files_none)
  qed
qed

lemma check_run:
  assumes "ban_check he r st = Some (b, zs)" and "\<not> passes_by r st" and s: "job_at s k j r st Arrived" and "rs_ctx st = None"
  shows "server_run he spool s (move s k j zs (after_check (rs_conf st) b))"
proof -
  have e: "enters j = None" using enters_None [of j] assms(2,4) job_atD(6,7) [OF s] by simp
  show ?thesis
  proof (cases "lc_ban_zone (rs_conf st) = NULL_PTR")
    case True
    then show ?thesis using run_one [OF server_step.no_zone [OF job_atD(2,5) [OF s] e]] assms(1) job_atD [OF s]
      by (simp add: ban_check_def after_check_def)
  next
    case False
    then show ?thesis using run_one [OF server_step.check [OF job_atD(2,5) [OF s] e _ alike_refl, of he b zs]] assms(1) job_atD [OF s]
      by (simp add: ban_check_def)
  qed
qed

lemma checked_inspect_run:
  assumes "globals_ok (e_globals (he_env he))" and "ops_ok (he_ops he)" and "ban_check he r st = Some (False, zs)" and "\<not> passes_by r st"
    and "handler_inspect he r (st\<lparr>rs_zones := zs\<rparr>) = Some (rc, st')" and s: "job_at s k j r st Arrived" and c: "rs_ctx st = None"
  shows "server_run he spool s (move (s\<lparr>sv_files := phase_files he st st' (sv_files s)\<rparr>) k (with_ctx j (rs_ctx st')) (rs_zones st')
      (if rc = NGX_DONE then Reading else Answered rc))"
proof -
  let ?st1 = "st\<lparr>rs_zones := zs\<rparr>"
  let ?s1 = "move s k (with_ctx j (rs_ctx ?st1)) zs Passed"
  have f: "phase_files he ?st1 st' fs = phase_files he st st' fs" for fs by (rule phase_files_cong) simp_all
  have "server_run he spool ?s1 (move (?s1\<lparr>sv_files := phase_files he ?st1 st' (sv_files ?s1)\<rparr>) k
      (with_ctx (j\<lparr>jb_ctx := rs_ctx ?st1, jb_stage := Passed\<rparr>) (rs_ctx st')) (rs_zones st') (if rc = NGX_DONE then Reading else Answered rc))"
    by (rule inspect_run [OF assms(1,5,2) job_at_move [OF s]]) (use c assms(4) in \<open>simp_all add: passes_by_def\<close>)
  moreover have "?s1 = move s k j zs Passed" using with_ctx_same [OF s] by simp
  ultimately show ?thesis using run_trans [OF check_run [OF assms(3,4) s c]] unfolding move_move f by (simp add: after_check_def move_move)
qed

lemma phase_run:
  assumes g: "globals_ok (e_globals (he_env he))" and p: "shield_phase he r st = Some (rc, st')" and ops: "ops_ok (he_ops he)"
    and c: "rs_ctx st = None" and s: "job_at s k j r st Arrived"
  shows "server_run he spool s
      (move (s\<lparr>sv_files := phase_files he st st' (sv_files s)\<rparr>) k (with_ctx j (rs_ctx st')) (rs_zones st') (Answered rc))"
  using g c p
proof (cases rule: phase_cases)
  case passes
  then have "enters j = Some NGX_DECLINED" using job_atD [OF s] by (auto simp: passes_by_def handler_entry_def)
  then show ?thesis using run_one [OF server_step.early [OF job_atD(2,5) [OF s]]] passes job_atD(1) [OF s] with_ctx_same [OF s]
    by (simp add: phase_files_none)
next
  case (banned zs)
  then show ?thesis using check_run [OF banned(2,1) s c] with_ctx_same [OF s] by (simp add: after_check_def phase_files_none)
next
  case (inspected zs)
  then show ?thesis using checked_inspect_run [OF g ops inspected(2,1,3) s c] by simp
next
  case (body zs st1)
  let ?s2 = "move s k (with_ctx j (rs_ctx st1)) (rs_zones st1) Reading"
  have l: "rs_log st1 = rs_log st" using inspect_logs(2) [OF g body(3)] by simp
  have f: "phase_files he st1 st' fs = phase_files he st st' fs" for fs by (rule phase_files_cong) (simp_all add: l body(4))
  have "server_run he spool ?s2 (move (?s2\<lparr>sv_files := phase_files he st1 st' (sv_files ?s2)\<rparr>) k
      (with_ctx (j\<lparr>jb_ctx := rs_ctx st1, jb_stage := Reading\<rparr>) (Some rc)) (rs_zones st') (Answered rc))"
    by (rule body_run [OF g body(6) ops job_at_move [OF s] body(7)]) (use body(1) in \<open>simp_all add: body(4) passes_by_def\<close>)
  moreover have "server_run he spool s ?s2" using checked_inspect_run [OF g ops body(2,1,3) s c] phase_files_none [OF l] by simp
  ultimately show ?thesis using run_trans body(7) unfolding move_move f by fastforce
qed

end
