(* ===== verification/Server_Bans.thy ===== *)
theory Server_Bans
  imports Server Ban_Table
begin

text \<open>
  Who gets banned on a server with many requests in progress: the records of the zones never count more
  hits of a client than there are requests of that client which are attacks and were decided, and a ban
  takes as many of them as a location asks for.
\<close>

section \<open>Records in the zones\<close>

definition record_of :: "zones \<Rightarrow> nat \<Rightarrow> client \<Rightarrow> ngx_http_shield_ban_node_t option" where
  "record_of zs z d = (case zs z of None \<Rightarrow> None | Some sh \<Rightarrow> ban_view sh d)"

definition banned_in :: "zones \<Rightarrow> nat \<Rightarrow> client \<Rightarrow> time_t \<Rightarrow> bool" where
  "banned_in zs z d later \<longleftrightarrow> (case record_of zs z d of None \<Rightarrow> False | Some bn \<Rightarrow> bn_banned_until bn > later)"

definition hits_of :: "ngx_http_shield_ban_node_t option \<Rightarrow> nat" where
  "hits_of rec = (case rec of None \<Rightarrow> 0 | Some bn \<Rightarrow> bn_hits bn)"

lemma record_of_upd: "record_of (zs(z \<mapsto> sh)) y d = (if y = z then ban_view sh d else record_of zs y d)"
  by (simp add: record_of_def)

lemma zones_ok_inv: "zones_ok zs \<Longrightarrow> zs z = Some sh \<Longrightarrow> ban_inv sh"
  by (auto simp: zones_ok_def)

lemma is_banned_view:
  assumes "zones_ok zs" and "ngx_http_shield_ban_is_banned he r slcf zs = Some (b, zs')"
  shows "record_of zs' = record_of zs"
proof (cases "ngx_http_shield_ban_addr he r slcf")
  case None
  then show ?thesis using assms(2) by (simp add: ngx_http_shield_ban_is_banned_def)
next
  case (Some a)
  then obtain z sh sh' where z: "zone_of slcf zs = Some (z, sh)"
      "ngx_http_shield_ban_is_banned_locked sh (he_crc32 he a) a (he_time he) = Some (b, sh')" "zs' = zs(z \<mapsto> sh')"
    using assms(2) by (auto simp: ngx_http_shield_ban_is_banned_def split: option.splits)
  have sh: "zs z = Some sh" using z(1) by (simp add: zone_of_Some)
  then have "ban_view sh' = ban_view sh"
    using ban_is_banned_correct [OF zones_ok_inv [OF assms(1)], of z sh "he_crc32 he a" a "he_time he"] z(2) by auto
  then show ?thesis using sh unfolding z(3) by (simp add: record_of_def fun_eq_iff)
qed

lemma count_view: "record_of (ngx_http_shield_ban_count slcf hit zs) = record_of zs"
  by (auto simp: ngx_http_shield_ban_count_def zone_of_Some record_of_def fun_eq_iff split: option.split)

text \<open>A hit adds at most one to the count of its record, and arms a ban only when that reaches the limit.\<close>

lemma inc64_le: "inc64 n \<le> n + 1"
  by (simp add: inc64_def)

lemma ban_hit_bounds:
  assumes "ban_hit now count window ban_time bn = (armed, bn')"
  shows "bn_hits bn' \<le> bn_hits bn + 1"
    and "0 \<le> later \<Longrightarrow> later < bn_banned_until bn' \<Longrightarrow> count \<le> bn_hits bn + 1 \<or> later < bn_banned_until bn"
proof -
  let ?bn1 = "roll_window now window (retire_lapsed now bn)"
  have h: "bn_hits ?bn1 \<le> bn_hits bn" by (simp add: roll_window_def retire_lapsed_def)
  have u: "bn_banned_until ?bn1 \<in> {0, bn_banned_until bn}" by (simp add: roll_window_def retire_lapsed_def)
  have i: "inc64 (bn_hits ?bn1) \<le> bn_hits bn + 1" using h inc64_le [of "bn_hits ?bn1"] by linarith
  show "bn_hits bn' \<le> bn_hits bn + 1" using assms i by (auto simp: ban_hit_def Let_def split: if_splits)
  show "0 \<le> later \<Longrightarrow> later < bn_banned_until bn' \<Longrightarrow> count \<le> bn_hits bn + 1 \<or> later < bn_banned_until bn"
    using assms i u by (auto simp: ban_hit_def Let_def split: if_splits)
qed

text \<open>What recording a hit does to the records of all clients.\<close>

definition hit_on :: "nat \<Rightarrow> ngx_http_shield_ban_node_t option \<Rightarrow> ngx_http_shield_ban_node_t \<Rightarrow> bool" where
  "hit_on count old bn \<longleftrightarrow> bn_hits bn \<le> hits_of old + 1
     \<and> (\<forall>later \<ge> 0. later < bn_banned_until bn \<longrightarrow> count \<le> hits_of old + 1 \<or> (\<exists>bn0. old = Some bn0 \<and> later < bn_banned_until bn0))"

lemma hit_on_hit: "hit_on count (Some old) (snd (ban_hit now count window ban_time old))"
  using ban_hit_bounds [OF surjective_pairing] by (auto simp: hit_on_def hits_of_def)

lemma hit_on_new: "hit_on count None (snd (ban_hit now count window ban_time (ban_new_node h a now)))"
  using hit_on_hit [of count "ban_new_node h a now" now window ban_time]
  unfolding hit_on_def by (simp add: hits_of_def) (simp add: ban_new_node_def)

lemma record_locked_cases:
  assumes "ops_ok ops" and "ban_inv sh"
    and r: "ngx_http_shield_ban_record_locked ops sh h a now count window ban_time = Some (rc, sh')" and n: "ban_view sh' d = Some bn"
  obtains (same) "ban_view sh d = Some bn"
    | (new) "d = (h, a)" "ban_view sh d = None" "bn = snd (ban_hit now count window ban_time (ban_new_node h a now))"
    | (again) old where "d = (h, a)" "ban_view sh d = Some old" "bn = snd (ban_hit now count window ban_time old)"
proof (cases "ban_view sh (h, a)")
  case None
  obtain v where v: "forgets now window (ban_view sh) v"
      "ban_view sh' = v((h, a) \<mapsto> snd (ban_hit now count window ban_time (ban_new_node h a now))) \<or> ban_view sh' = v"
    using ban_record_new [OF assms(1,2) None, of now count window ban_time] r by auto
  have "v d = Some bn \<Longrightarrow> ban_view sh d = Some bn" using v(1) unfolding forgets_def by (metis option.distinct(1))
  then show thesis using v(2) n None same new by (auto split: if_splits)
next
  case (Some old)
  have "ban_view sh' = (ban_view sh)((h, a) \<mapsto> snd (ban_hit now count window ban_time old))"
    using ban_record_known [OF assms(2) Some, of ops now count window ban_time] r by auto
  then show thesis using n Some same again by (auto split: if_splits)
qed

text \<open>The record of a client after a hit was recorded: as before, or hit in the zone of the location.\<close>

definition charged :: "handler_env \<Rightarrow> ngx_http_shield_loc_conf_t \<Rightarrow> client \<Rightarrow> ngx_http_shield_ban_node_t option
    \<Rightarrow> ngx_http_shield_ban_node_t \<Rightarrow> bool" where
  "charged he slcf d old bn \<longleftrightarrow> bn = snd (ban_hit (he_time he) (lc_ban_count slcf) (lc_ban_window slcf) (lc_ban_time slcf)
     (case old of None \<Rightarrow> ban_new_node (fst d) (snd d) (he_time he) | Some bn0 \<Rightarrow> bn0))"

lemma charged_hit_on: "charged he slcf d old bn \<Longrightarrow> hit_on (lc_ban_count slcf) old bn"
  using hit_on_hit hit_on_new by (cases old) (auto simp: charged_def)

lemma record_view:
  assumes "ops_ok (he_ops he)" and "zones_ok zs" and "ngx_http_shield_ban_record he r slcf zs = Some zs'" and "record_of zs' y d = Some bn"
  shows "record_of zs y d = Some bn \<or> (\<exists>a. ngx_http_shield_ban_addr he r slcf = Some a \<and> d = (he_crc32 he a, a)
    \<and> lc_ban_zone slcf = PTR y \<and> charged he slcf d (record_of zs y d) bn)"
proof (cases "ngx_http_shield_ban_addr he r slcf")
  case None
  then show ?thesis using assms(3,4) by (simp add: ngx_http_shield_ban_record_def)
next
  case (Some a)
  obtain z sh rc sh' where z: "zone_of slcf zs = Some (z, sh)"
      "ngx_http_shield_ban_record_locked (he_ops he) sh (he_crc32 he a) a (he_time he) (lc_ban_count slcf) (lc_ban_window slcf) (lc_ban_time slcf)
        = Some (rc, sh')" "zs' = zs(z \<mapsto> sh')"
    using assms(3) Some by (auto simp: ngx_http_shield_ban_record_def split: option.splits)
  have sh: "zs z = Some sh" "lc_ban_zone slcf = PTR z" using z(1) by (simp_all add: zone_of_Some)
  show ?thesis
  proof (cases "y = z")
    case True
    then have v: "ban_view sh' d = Some bn" "record_of zs y d = ban_view sh d"
      using assms(4) sh(1) unfolding z(3) record_of_upd by (simp_all add: record_of_def)
    from assms(1) zones_ok_inv [OF assms(2) sh(1)] z(2) v(1) show ?thesis
      by (cases rule: record_locked_cases) (use v(2) Some sh(2) True in \<open>auto simp: charged_def\<close>)
  next
    case False
    then show ?thesis using assms(4) unfolding z(3) record_of_upd by simp
  qed
qed

section \<open>Decided attacks\<close>

fun settled :: "stage \<Rightarrow> bool" where
  "settled (Noted hit) = True"
| "settled (Counted hit) = True"
| "settled (Answered rc) = True"
| "settled _ = False"

definition attack_by :: "handler_env \<Rightarrow> bytes \<Rightarrow> nat \<Rightarrow> client \<Rightarrow> job \<Rightarrow> bool" where
  "attack_by hb spool z d j \<longleftrightarrow> \<not> job_clean (he_env hb) spool j \<and> lc_ban_zone (jb_conf j) = PTR z
     \<and> (\<exists>a. ngx_http_shield_ban_addr hb (jb_req j) (jb_conf j) = Some a \<and> d = (he_crc32 hb a, a))"

text \<open>The requests of a client that are attacks, charged to a zone, and decided.\<close>

definition attacks_of :: "handler_env \<Rightarrow> bytes \<Rightarrow> server \<Rightarrow> nat \<Rightarrow> client \<Rightarrow> nat set" where
  "attacks_of hb spool s z d = {i. \<exists>j. sv_jobs s i = Some j \<and> attack_by hb spool z d j \<and> settled (jb_stage j)}"

lemma attack_by_stage [simp]: "attack_by hb spool z d (j\<lparr>jb_stage := st\<rparr>) = attack_by hb spool z d j"
    "attack_by hb spool z d (with_ctx j c) = attack_by hb spool z d j"
  by (simp_all add: attack_by_def)

lemma attacks_move:
  "attacks_of hb spool (move s i j zs st) z d =
     (if attack_by hb spool z d j \<and> settled st then insert i (attacks_of hb spool s z d) else attacks_of hb spool s z d - {i})"
  by (auto simp: attacks_of_def split: if_splits)

lemma finite_attacks: "finite (dom (sv_jobs s)) \<Longrightarrow> finite (attacks_of hb spool s z d)"
  by (rule finite_subset [of _ "dom (sv_jobs s)"]) (auto simp: attacks_of_def)

text \<open>A job keeps its configuration, and a decided attack stays one.\<close>

definition step_keeps :: "server \<Rightarrow> server \<Rightarrow> bool" where
  "step_keeps s t \<longleftrightarrow> (\<forall>i j. sv_jobs s i = Some j \<longrightarrow> (\<exists>j'. sv_jobs t i = Some j' \<and> jb_req j' = jb_req j \<and> jb_conf j' = jb_conf j
     \<and> (settled (jb_stage j) \<longrightarrow> settled (jb_stage j'))))"

lemma keeps_move:
  "sv_jobs s i = None \<or> sv_jobs s i = Some j \<and> (settled (jb_stage j) \<longrightarrow> settled st) \<Longrightarrow> step_keeps s (move s i j zs st)"
  by (auto simp: step_keeps_def)

lemma keeps_move_ctx:
  "sv_jobs s i = Some j \<Longrightarrow> \<not> settled (jb_stage j) \<or> settled st \<Longrightarrow> step_keeps s (move (s\<lparr>sv_files := fs\<rparr>) i (with_ctx j c) zs st)"
  "sv_jobs s i = Some j \<Longrightarrow> \<not> settled (jb_stage j) \<or> settled st \<Longrightarrow> step_keeps s (move s i (with_ctx j c) zs st)"
  by (auto simp: step_keeps_def)

lemma step_keeps_jobs: "server_step hb spool s t \<Longrightarrow> step_keeps s t"
proof (induction rule: server_step.induct)
  case (report s i j hit he pool eff pool' c st)
  then show ?case using keeps_move_ctx(1) after_act_answers [OF report(5)] by fastforce
qed (simp_all add: keeps_move keeps_move_ctx)

lemma keeps_attacks: "step_keeps s t \<Longrightarrow> attacks_of hb spool s z d \<subseteq> attacks_of hb spool t z d"
  by (fastforce simp: step_keeps_def attacks_of_def attack_by_def job_clean_def)

lemma step_finite: "server_step hb spool s t \<Longrightarrow> finite (dom (sv_jobs s)) \<Longrightarrow> finite (dom (sv_jobs t))"
  by (erule server_step.cases) simp_all

section \<open>Bans take their count of attacks\<close>

definition banned_by :: "handler_env \<Rightarrow> bytes \<Rightarrow> server \<Rightarrow> nat \<Rightarrow> client \<Rightarrow> bool" where
  "banned_by hb spool s z d \<longleftrightarrow> (\<exists>i j. i \<in> attacks_of hb spool s z d \<and> sv_jobs s i = Some j
     \<and> lc_ban_count (jb_conf j) \<le> card (attacks_of hb spool s z d))"

definition counts_ok :: "handler_env \<Rightarrow> bytes \<Rightarrow> server \<Rightarrow> bool" where
  "counts_ok hb spool s \<longleftrightarrow> finite (dom (sv_jobs s))
     \<and> (\<forall>z d. hits_of (record_of (sv_zones s) z d) \<le> card (attacks_of hb spool s z d))
     \<and> (\<forall>z d later. 0 \<le> later \<longrightarrow> banned_in (sv_zones s) z d later \<longrightarrow> banned_by hb spool s z d)"

lemma counts_okD:
  assumes "counts_ok hb spool s"
  shows "finite (dom (sv_jobs s))" and "hits_of (record_of (sv_zones s) z d) \<le> card (attacks_of hb spool s z d)"
    and "record_of (sv_zones s) z d = Some bn \<Longrightarrow> later < bn_banned_until bn \<Longrightarrow> 0 \<le> later \<Longrightarrow> banned_by hb spool s z d"
proof -
  have "banned_in (sv_zones s) z d later \<Longrightarrow> 0 \<le> later \<Longrightarrow> banned_by hb spool s z d"
    using assms unfolding counts_ok_def by blast
  then show "record_of (sv_zones s) z d = Some bn \<Longrightarrow> later < bn_banned_until bn \<Longrightarrow> 0 \<le> later \<Longrightarrow> banned_by hb spool s z d"
    by (simp add: banned_in_def)
qed (use assms in \<open>unfold counts_ok_def, blast+\<close>)

lemma keeps_banned_by:
  assumes "step_keeps s t" and "finite (dom (sv_jobs t))" and "banned_by hb spool s z d"
  shows "banned_by hb spool t z d"
proof -
  obtain i j where i: "i \<in> attacks_of hb spool s z d" "sv_jobs s i = Some j" "lc_ban_count (jb_conf j) \<le> card (attacks_of hb spool s z d)"
    using assms(3) unfolding banned_by_def by blast
  obtain j' where "sv_jobs t i = Some j'" "jb_conf j' = jb_conf j" using assms(1) i(2) unfolding step_keeps_def by blast
  moreover note sub = keeps_attacks [OF assms(1), of hb spool z d]
  moreover have "card (attacks_of hb spool s z d) \<le> card (attacks_of hb spool t z d)"
    by (rule card_mono [OF finite_attacks [OF assms(2)] sub])
  ultimately show ?thesis unfolding banned_by_def using i by (intro exI [of _ i] exI [of _ j']) auto
qed

lemma counts_kept:
  assumes "counts_ok hb spool s" and "server_step hb spool s t" and same: "record_of (sv_zones t) = record_of (sv_zones s)"
  shows "counts_ok hb spool t"
proof -
  note k = step_keeps_jobs [OF assms(2)]
  have fin: "finite (dom (sv_jobs t))" using step_finite [OF assms(2)] assms(1) by (simp add: counts_ok_def)
  have "card (attacks_of hb spool s z d) \<le> card (attacks_of hb spool t z d)" for z d
    by (rule card_mono [OF finite_attacks [OF fin] keeps_attacks [OF k]])
  then have "hits_of (record_of (sv_zones t) z d) \<le> card (attacks_of hb spool t z d)" for z d
    using assms(1) unfolding counts_ok_def same by (meson le_trans)
  then show ?thesis using fin assms(1) keeps_banned_by [OF k fin] unfolding counts_ok_def banned_in_def same by blast
qed

lemma alike_addr: "alike hb he \<Longrightarrow> ngx_http_shield_ban_addr he r slcf = ngx_http_shield_ban_addr hb r slcf"
  by (simp add: alike_def ngx_http_shield_ban_addr_def ngx_http_shield_ban_peer_trusted_def Let_def split: conf_ptr.split)

text \<open>The step that records a hit: its own request is one more decided attack of the client it is charged to.\<close>

lemma charge_attack:
  assumes ok: "server_ok (he_env hb) spool s" and fin: "finite (dom (sv_jobs s))" and j: "sv_jobs s i = Some j" "jb_stage j = Found hit"
    and a: "alike hb he" "ngx_http_shield_ban_addr he (jb_req j) (jb_conf j) = Some a" "d = (he_crc32 he a, a)" "lc_ban_zone (jb_conf j) = PTR z"
  shows "attacks_of hb spool (move s i j zs (Noted hit)) z d = insert i (attacks_of hb spool s z d)"
    and "card (attacks_of hb spool (move s i j zs (Noted hit)) z d) = card (attacks_of hb spool s z d) + 1"
proof -
  have "\<not> job_clean (he_env hb) spool j" using server_okD(3) [OF ok j(1)] j(2) by (simp add: job_ok_def)
  then have "attack_by hb spool z d j" using a alike_addr [OF a(1)] by (simp add: attack_by_def alike_def)
  then show eq: "attacks_of hb spool (move s i j zs (Noted hit)) z d = insert i (attacks_of hb spool s z d)" by (simp add: attacks_move)
  have "i \<notin> attacks_of hb spool s z d" using j by (simp add: attacks_of_def)
  then show "card (attacks_of hb spool (move s i j zs (Noted hit)) z d) = card (attacks_of hb spool s z d) + 1"
    unfolding eq using finite_attacks [OF fin] by simp
qed

lemma counts_charge:
  assumes ok: "server_ok (he_env hb) spool s" and c: "counts_ok hb spool s" and j: "sv_jobs s i = Some j" "jb_stage j = Found hit"
    and a: "alike hb he" and ops: "ops_ok (he_ops he)"
    and r: "ngx_http_shield_ban_record he (jb_req j) (jb_conf j) (sv_zones s) = Some zs"
  shows "counts_ok hb spool (move s i j zs (Noted hit))"
proof -
  let ?t = "move s i j zs (Noted hit)"
  have fin: "finite (dom (sv_jobs s))" "finite (dom (sv_jobs ?t))" using c by (simp_all add: counts_ok_def)
  have keeps: "step_keeps s ?t" by (rule keeps_move) (simp add: j)
  have mono: "card (attacks_of hb spool s z d) \<le> card (attacks_of hb spool ?t z d)" for z d
    by (rule card_mono [OF finite_attacks [OF fin(2)] keeps_attacks [OF keeps]])
  note old = counts_okD(2) [OF c]
  note was = keeps_banned_by [OF keeps fin(2) counts_okD(3) [OF c]]
  have one: "bn_hits bn \<le> card (attacks_of hb spool ?t z d) \<and> (\<forall>later \<ge> 0. later < bn_banned_until bn \<longrightarrow> banned_by hb spool ?t z d)"
    if n: "record_of zs z d = Some bn" for z d bn
    using record_view [OF ops server_okD(1) [OF ok] r n]
  proof (elim disjE exE conjE)
    assume "record_of (sv_zones s) z d = Some bn"
    then show ?thesis using old [of z d] mono [of z d] was by (auto simp: hits_of_def)
  next
    fix b assume b: "ngx_http_shield_ban_addr he (jb_req j) (jb_conf j) = Some b" "d = (he_crc32 he b, b)" "lc_ban_zone (jb_conf j) = PTR z"
      and c: "charged he (jb_conf j) d (record_of (sv_zones s) z d) bn"
    note h = charged_hit_on [OF c]
    note ch = charge_attack [OF ok fin(1) j a b]
    have "banned_by hb spool ?t z d" if "lc_ban_count (jb_conf j) \<le> hits_of (record_of (sv_zones s) z d) + 1"
      unfolding banned_by_def using that old [of z d] ch
      by (intro exI [of _ i] exI [of _ "j\<lparr>jb_stage := Noted hit\<rparr>"]) auto
    moreover have "banned_by hb spool ?t z d" if "record_of (sv_zones s) z d = Some bn0" "later < bn_banned_until bn0" "0 \<le> later" for bn0 later
      by (rule was [OF that])
    moreover have "bn_hits bn \<le> card (attacks_of hb spool ?t z d)" using h old [of z d] ch(2) by (simp add: hit_on_def)
    ultimately show ?thesis using h unfolding hit_on_def by blast
  qed
  then show ?thesis using fin(2) by (auto simp: counts_ok_def hits_of_def banned_in_def split: option.splits)
qed

lemma step_counts:
  assumes ok: "server_ok (he_env hb) spool s" and c: "counts_ok hb spool s" and st: "server_step hb spool s t"
  shows "counts_ok hb spool t"
  using st
proof cases
  case (check i j he banned zs)
  have "record_of zs = record_of (sv_zones s)" by (rule is_banned_view [OF server_okD(1) [OF ok] check(7)])
  then show ?thesis by (intro counts_kept [OF c st]) (simp add: check(1))
next
  case (charge i j hit he zs)
  show ?thesis unfolding charge(1) by (rule counts_charge [OF ok c charge(2,3,5-7)])
next
  case (tally i j hit)
  then show ?thesis by (intro counts_kept [OF c st]) (simp add: count_view)
qed (intro counts_kept [OF c st], simp)+

end
