(* ===== verification/Server_Fit.thy ===== *)
theory Server_Fit
  imports Server_Bans
begin

text \<open>
  The records of the zones fit the machine: the address fits its field, the times are in the range of
  \<open>time_t\<close> and not negative, and the arithmetic on them is exact in 64 bits.
\<close>

section \<open>Time in 64 bits\<close>

definition time_in :: "time_t \<Rightarrow> bool" where
  "time_in t \<longleftrightarrow> 0 \<le> t \<and> t \<le> time_t_max"

text \<open>The clamped addition as the machine computes it, with the largest \<open>time_t\<close> made by a shift.\<close>

definition time_add_clamp64 :: "u64 \<Rightarrow> u64 \<Rightarrow> u64" where
  "time_add_clamp64 now delta =
     (let mx = push_bit (SIZEOF_TIME_T * 8 - 1) 1 - 1
      in if sint delta > sint (mx - now) then mx else now + delta)"

lemma time_t_max_val: "time_t_max = 9223372036854775807"
  by (simp add: time_t_max_def SIZEOF_TIME_T_def)

lemma mx64: "push_bit (SIZEOF_TIME_T * 8 - 1) 1 - 1 = (9223372036854775807 :: u64)"
  by (simp add: SIZEOF_TIME_T_def push_bit_eq_mult)

lemma sint_range: "- 9223372036854775808 \<le> sint (w :: u64)" "sint (w :: u64) \<le> 9223372036854775807"
  using sint_ge [of w] sint_lt [of w] by simp_all

lemma sint_of_int: "- 9223372036854775808 \<le> k \<Longrightarrow> k \<le> 9223372036854775807 \<Longrightarrow> sint (word_of_int k :: u64) = k"
  by (simp add: signed_of_int signed_take_bit_int_eq_self)

lemma sint_plus64:
  assumes "- 9223372036854775808 \<le> sint a + sint b" and "sint a + sint b \<le> 9223372036854775807"
  shows "sint (a + b :: u64) = sint a + sint b"
proof -
  have "a + b = word_of_int (sint a + sint b)" by simp
  then show ?thesis using sint_of_int [OF assms] by metis
qed

lemma sint_minus64:
  assumes "- 9223372036854775808 \<le> sint a - sint b" and "sint a - sint b \<le> 9223372036854775807"
  shows "sint (a - b :: u64) = sint a - sint b"
proof -
  have "a - b = word_of_int (sint a - sint b)" by simp
  then show ?thesis using sint_of_int [OF assms] by metis
qed

text \<open>From a time that is not negative the clamped addition is exact, whatever is added.\<close>

lemma time_add_clamp64_exact:
  assumes "0 \<le> sint now"
  shows "sint (time_add_clamp64 now delta) = ngx_http_shield_time_add_clamp (sint now) (sint delta)"
proof -
  have m: "sint (9223372036854775807 :: u64) = 9223372036854775807" using sint_of_int [of 9223372036854775807] by simp
  have d: "sint (9223372036854775807 - now) = 9223372036854775807 - sint now"
    using sint_minus64 [of 9223372036854775807 now] m assms sint_range [of now] by simp
  have "sint (now + delta) = sint now + sint delta" if "sint delta \<le> 9223372036854775807 - sint now"
    by (rule sint_plus64) (use that assms sint_range [of delta] in linarith)+
  then show ?thesis unfolding time_add_clamp64_def ngx_http_shield_time_add_clamp_def mx64 Let_def time_t_max_val by (simp add: m d)
qed

lemma time_in_sint: "time_in t \<Longrightarrow> sint (word_of_int t :: u64) = t"
  by (rule sint_of_int) (simp_all add: time_in_def time_t_max_val)

section \<open>Records\<close>

definition BAN_ADDR_SIZE :: nat where "BAN_ADDR_SIZE = 16"

definition node_fits :: "ngx_http_shield_ban_node_t \<Rightarrow> bool" where
  "node_fits bn \<longleftrightarrow> length (bn_addr bn) \<le> BAN_ADDR_SIZE \<and> time_in (bn_window_start bn) \<and> time_in (bn_banned_until bn) \<and> bn_hits bn < 2 ^ 64"

lemma clamp_in: "time_in now \<Longrightarrow> 0 \<le> delta \<Longrightarrow> time_in (ngx_http_shield_time_add_clamp now delta)"
  by (simp add: time_in_def ngx_http_shield_time_add_clamp_def)

lemma time_in_0: "time_in 0"
  by (simp add: time_in_def time_t_max_val)

lemma inc64_less: "inc64 n < 2 ^ 64"
  by (simp add: inc64_def)

lemma hit_fits:
  assumes "node_fits bn" and "time_in now" and "0 \<le> ban_time"
  shows "node_fits (snd (ban_hit now count window ban_time bn))"
proof -
  have "node_fits (roll_window now window (retire_lapsed now bn))"
    using assms(1,2) time_in_0 by (simp add: node_fits_def roll_window_def retire_lapsed_def)
  then show ?thesis using clamp_in [OF assms(2,3)] assms(2) inc64_less by (simp add: ban_hit_def node_fits_def Let_def)
qed

lemma new_node_fits: "time_in now \<Longrightarrow> length a \<le> BAN_ADDR_SIZE \<Longrightarrow> node_fits (ban_new_node h a now)"
  using time_in_0 by (simp add: node_fits_def ban_new_node_def)

lemma sockaddr_fits: "ngx_http_shield_ban_sockaddr_bytes sa = Some a \<Longrightarrow> length a \<le> BAN_ADDR_SIZE"
  by (cases sa) (auto simp: BAN_ADDR_SIZE_def)

lemma addr_fits: "ngx_http_shield_ban_addr he r slcf = Some a \<Longrightarrow> length a \<le> BAN_ADDR_SIZE"
  by (auto simp: ngx_http_shield_ban_addr_def Let_def sockaddr_fits split: if_splits option.splits)

section \<open>Zones of a server\<close>

definition records_fit :: "zones \<Rightarrow> bool" where
  "records_fit zs \<longleftrightarrow> (\<forall>z d bn. record_of zs z d = Some bn \<longrightarrow> node_fits bn)"

lemma record_fits:
  assumes "records_fit zs" and "ops_ok (he_ops he)" and "zones_ok zs" and "time_in (he_time he)"
    and t: "\<And>z. lc_ban_zone slcf = PTR z \<Longrightarrow> 0 \<le> lc_ban_time slcf"
    and r: "ngx_http_shield_ban_record he r slcf zs = Some zs'"
  shows "records_fit zs'"
  unfolding records_fit_def
proof (intro allI impI)
  fix z d bn assume n: "record_of zs' z d = Some bn"
  show "node_fits bn" using record_view [OF assms(2,3) r n]
  proof (elim disjE exE conjE)
    fix a assume a: "ngx_http_shield_ban_addr he r slcf = Some a" "d = (he_crc32 he a, a)" "lc_ban_zone slcf = PTR z"
      and c: "charged he slcf d (record_of zs z d) bn"
    have "node_fits (case record_of zs z d of None \<Rightarrow> ban_new_node (fst d) (snd d) (he_time he) | Some bn0 \<Rightarrow> bn0)"
      using assms(1,4) a new_node_fits addr_fits [OF a(1)] by (auto simp: records_fit_def split: option.split)
    then show ?thesis using c hit_fits assms(4) t [OF a(3)] by (simp add: charged_def)
  qed (use assms(1) in \<open>unfold records_fit_def, blast\<close>)
qed

lemma step_fits:
  assumes ok: "server_ok (he_env hb) spool s" and f: "records_fit (sv_zones s)" and st: "server_step hb spool s t" and c: "time_in (he_time hb)"
    and t: "\<And>i j z. sv_jobs s i = Some j \<Longrightarrow> lc_ban_zone (jb_conf j) = PTR z \<Longrightarrow> 0 \<le> lc_ban_time (jb_conf j)"
  shows "records_fit (sv_zones t)"
  using st
proof cases
  case (check i j he banned zs)
  then show ?thesis using f is_banned_view [OF server_okD(1) [OF ok] check(7)] by (simp add: records_fit_def)
next
  case (charge i j hit he zs)
  have "time_in (he_time he)" using charge(5) c by (simp add: alike_def clock_alike_def time_in_def)
  then show ?thesis unfolding charge(1) using record_fits [OF f charge(6) server_okD(1) [OF ok] _ t [OF charge(2)] charge(7)] by simp
next
  case (tally i j hit)
  then show ?thesis using f by (simp add: records_fit_def count_view)
qed (use f in simp_all)

end
