(* ===== verification/Server_Logs.thy ===== *)
theory Server_Logs
  imports Server
begin

text \<open>
  The log files of a server with many requests in progress.  A consumer reads a file line by line; what
  it relies on of the writer is the locale \<open>line_codec\<close>.  Every record in a file belongs to another
  answered attack, and all records before a short write are read back.
\<close>

section \<open>Reading a file of lines\<close>

fun lines_from :: "bytes \<Rightarrow> bytes \<Rightarrow> bytes list" where
  "lines_from acc [] = (if acc = [] then [] else [rev acc])"
| "lines_from acc (c # cs) = (if c = CHR 0x0A then rev acc # lines_from [] cs else lines_from (c # acc) cs)"

definition log_lines :: "bytes \<Rightarrow> bytes list" where
  "log_lines = lines_from []"

lemma lines_from_line: "CHR 0x0A \<notin> set l \<Longrightarrow> lines_from acc (l @ CHR 0x0A # rest) = (rev acc @ l) # lines_from [] rest"
  by (induction l arbitrary: acc) auto

lemma log_lines_line: "CHR 0x0A \<notin> set l \<Longrightarrow> log_lines (l @ CHR 0x0A # rest) = l # log_lines rest"
  by (simp add: log_lines_def lines_from_line)

text \<open>An encoding of values as lines that a decoder takes back.\<close>

locale line_codec =
  fixes enc :: "'a \<Rightarrow> bytes" and dec :: "bytes \<Rightarrow> 'a option"
  assumes dec_enc: "dec (enc x) = Some x"
    and one_line: "CHR 0x0A \<notin> set (enc x)"
begin

lemma lines_enc: "log_lines (concat (map (\<lambda>x. enc x @ [CHR 0x0A]) xs) @ rest) = map enc xs @ log_lines rest"
  by (induction xs) (simp_all add: log_lines_line one_line)

text \<open>A part of a line that ends in a newline is the whole line.\<close>

lemma whole_line:
  assumes "prefix c (enc x @ [CHR 0x0A])" and "suffix [CHR 0x0A] c"
  shows "c = enc x @ [CHR 0x0A]"
proof -
  obtain l where l: "c = l @ [CHR 0x0A]" using assms(2) by (auto simp: suffix_def)
  have "\<not> prefix c (enc x)" using one_line [of x] set_mono_prefix l by fastforce
  then show ?thesis using assms(1) by (simp add: prefix_snoc)
qed

lemma read_whole:
  assumes "list_all2 (\<lambda>x c. prefix c (enc x @ [CHR 0x0A])) xs cs" and "list_all (suffix [CHR 0x0A]) (take n cs)"
  shows "map dec (take n (log_lines (concat cs))) = map Some (take n xs)"
proof -
  have len: "length (take n xs) = length (take n cs)" using assms(1) by (simp add: list_all2_lengthD)
  have "take n cs = map (\<lambda>x. enc x @ [CHR 0x0A]) (take n xs)"
  proof (rule nth_equalityI)
    fix i assume i: "i < length (take n cs)"
    then have "prefix (take n cs ! i) (enc (take n xs ! i) @ [CHR 0x0A])" "suffix [CHR 0x0A] (take n cs ! i)"
      using assms len by (auto simp: list_all2_conv_all_nth list_all_length)
    then have "take n cs ! i = enc (take n xs ! i) @ [CHR 0x0A]" by (rule whole_line)
    then show "take n cs ! i = map (\<lambda>x. enc x @ [CHR 0x0A]) (take n xs) ! i" using i len by simp
  qed (use len in simp)
  then have "concat cs = concat (map (\<lambda>x. enc x @ [CHR 0x0A]) (take n xs)) @ concat (drop n cs)"
    by (metis append_take_drop_id concat_append)
  then have "log_lines (concat cs) = map enc (take n xs) @ log_lines (concat (drop n cs))" by (simp only: lines_enc)
  moreover have "n \<le> length xs \<or> log_lines (concat (drop n cs)) = []" using list_all2_lengthD [OF assms(1)]
    by (cases "n \<le> length cs") (simp_all add: log_lines_def)
  ultimately show ?thesis by (auto simp: dec_enc comp_def)
qed

end

interpretation json_log: line_codec print_json json_read
proof
  fix x :: json
  show "json_read (print_json x) = Some x" by (rule json_read_print)
  show "CHR 0x0A \<notin> set (print_json x)" using print_json_printable [of x] by (auto simp: printable_def list_all_iff)
qed

section \<open>Who is in the files\<close>

fun pending :: "stage \<Rightarrow> ngx_http_shield_hit_t option" where
  "pending (Found hit) = Some hit"
| "pending (Noted hit) = Some hit"
| "pending (Counted hit) = Some hit"
| "pending _ = None"

text \<open>The hits of the requests in progress are of enabled categories.\<close>

definition hits_true :: "server \<Rightarrow> bool" where
  "hits_true s \<longleftrightarrow> (\<forall>i j hit. sv_jobs s i = Some j \<longrightarrow> pending (jb_stage j) = Some hit \<longrightarrow> true_hit (lc_skip (jb_conf j)) hit)"

lemma hits_trueD: "hits_true s \<Longrightarrow> sv_jobs s i = Some j \<Longrightarrow> pending (jb_stage j) = Some hit \<Longrightarrow> true_hit (lc_skip (jb_conf j)) hit"
  unfolding hits_true_def by blast

lemma hits_true_move:
  assumes "hits_true s" and "\<And>hit. pending st = Some hit \<Longrightarrow> true_hit (lc_skip (jb_conf j)) hit"
  shows "hits_true (move (s\<lparr>sv_files := fs\<rparr>) i j zs st)"
  using assms by (auto simp: hits_true_def)

lemma resume_pending: "resume slcf r status = (c, st) \<Longrightarrow> pending st = None"
  using resume_answers [of slcf r status] by auto

lemma step_hits_true:
  assumes g: "globals_ok (e_globals (he_env hb))" and h: "hits_true s" and st: "server_step hb spool s t"
  shows "hits_true t"
proof -
  note mv = hits_true_move [OF h, where fs = "sv_files s", simplified]
  from st show ?thesis
  proof cases
    case (inspect i j he pool res pool' ctx_ok c st)
    have "true_hit (lc_skip (jb_conf (with_ctx j c))) hit" if "pending st = Some hit" for hit
      using that inspect(5,6) prebody_hit [OF g, of pool "jb_req j" "jb_conf j"] by (auto simp: after_prebody_def split: prod.splits if_splits)
    then show ?thesis unfolding inspect(1) by (rule mv)
  next
    case (body i j pool res pool' c st)
    have "true_hit (lc_skip (jb_conf (with_ctx j c))) hit" if "pending st = Some hit" for hit
      using that body(4,5) body_hit [OF g, of pool "jb_req j" "jb_conf j"] resume_pending
      by (auto simp: after_body_def split: prod.splits if_splits)
    then show ?thesis unfolding body(1) by (rule mv)
  next
    case (check i j he banned zs)
    show ?thesis unfolding check(1) by (rule mv) (simp add: after_check_def split: if_splits)
  next
    case (report i j hit he pool eff pool' c st)
    show ?thesis unfolding report(1) by (rule hits_true_move [OF h]) (use after_act_answers [OF report(6)] in auto)
  qed (auto intro!: mv dest: hits_trueD [OF h])
qed

text \<open>
  A byte string in a file and the request it reports: an answered attack on a location that logs there.
  What was written is the record of a true hit, or the front of it.
\<close>

definition written :: "handler_env \<Rightarrow> bytes \<Rightarrow> server \<Rightarrow> nat \<Rightarrow> nat \<Rightarrow> bytes \<Rightarrow> bool" where
  "written hb spool s fd i chunk \<longleftrightarrow> (\<exists>j rc le hit. sv_jobs s i = Some j \<and> jb_stage j = Answered rc \<and> \<not> job_clean (he_env hb) spool j
     \<and> lc_log (jb_conf j) = PTR fd \<and> true_hit (lc_skip (jb_conf j)) hit \<and> log_alike (he_log hb) le
     \<and> prefix chunk (log_line le (jb_req j) (jb_conf j) hit @ [CHR 0x0A]))"

definition files_ok :: "handler_env \<Rightarrow> bytes \<Rightarrow> server \<Rightarrow> bool" where
  "files_ok hb spool s \<longleftrightarrow> hits_true s \<and> (\<forall>fd. \<exists>ids. distinct ids \<and> list_all2 (written hb spool s fd) ids (sv_files s fd))"

text \<open>An answered request is done.\<close>

lemma step_answered:
  "server_step hb spool s t \<Longrightarrow> sv_jobs s i = Some j \<Longrightarrow> jb_stage j = Answered rc \<Longrightarrow> sv_jobs t i = Some j"
  by (erule server_step.cases) (auto split: if_splits)

lemma written_mono: "server_step hb spool s t \<Longrightarrow> written hb spool s fd i chunk \<Longrightarrow> written hb spool t fd i chunk"
  unfolding written_def using step_answered by blast

lemma all_written_mono:
  "server_step hb spool s t \<Longrightarrow> list_all2 (written hb spool s fd) ids cs \<Longrightarrow> list_all2 (written hb spool t fd) ids cs"
  by (erule list_all2_mono) (rule written_mono)

lemma log_append_cases:
  assumes "ngx_http_shield_write_log le pool r slcf hit = (eff, pool')"
  shows "log_append le slcf eff fs fd = fs fd
    \<or> lc_log slcf = PTR fd \<and> (\<exists>c. log_append le slcf eff fs fd = fs fd @ [c] \<and> prefix c (log_line le r slcf hit @ [CHR 0x0A]))"
proof (cases "lf_file eff")
  case (Some out)
  then have "out = log_line le r slcf hit @ [CHR 0x0A]" using write_log_file [of le pool r slcf hit out] assms by simp
  then have "prefix (take n out) (log_line le r slcf hit @ [CHR 0x0A])" for n by (simp only: take_is_prefix)
  then show ?thesis using Some by (auto simp: log_append_def split: conf_ptr.split write_result.split)
qed (simp add: log_append_def split: conf_ptr.split)

text \<open>The report adds its own request to the requests in the file, which had no record before.\<close>

lemma report_files:
  assumes ok: "server_ok (he_env hb) spool s" and h: "hits_true s" and st: "server_step hb spool s t"
    and j: "sv_jobs s i = Some j" "jb_stage j = Counted hit" and a: "alike hb he"
    and w: "ngx_http_shield_write_log (he_log he) pool (jb_req j) (jb_conf j) hit = (eff, pool')"
    and "after_act (jb_conf j) (jb_req j) (jb_ctx j) = (d, stg)"
    and t: "t = move (s\<lparr>sv_files := log_append (he_log he) (jb_conf j) eff (sv_files s)\<rparr>) i (with_ctx j d) (sv_zones s) stg"
    and ids: "distinct ids" "list_all2 (written hb spool s fd) ids (sv_files s fd)"
  shows "\<exists>ids. distinct ids \<and> list_all2 (written hb spool t fd) ids (sv_files t fd)"
  using log_append_cases [OF w, of "sv_files s" fd]
proof (elim disjE exE conjE)
  assume "log_append (he_log he) (jb_conf j) eff (sv_files s) fd = sv_files s fd"
  then show ?thesis using ids(1) all_written_mono [OF st ids(2)] by (auto simp: t)
next
  fix c assume fd: "lc_log (jb_conf j) = PTR fd"
    and c: "log_append (he_log he) (jb_conf j) eff (sv_files s) fd = sv_files s fd @ [c]"
      "prefix c (log_line (he_log he) (jb_req j) (jb_conf j) hit @ [CHR 0x0A])"
  have "\<not> job_clean (he_env hb) spool j" using server_okD(3) [OF ok j(1)] j(2) by (simp add: job_ok_def)
  moreover have "true_hit (lc_skip (jb_conf j)) hit" using hits_trueD [OF h j(1)] j(2) by simp
  moreover have "log_alike (he_log hb) (he_log he)" using a by (simp add: alike_def)
  moreover obtain rc where "stg = Answered rc" using after_act_answers [OF assms(8)] by blast
  ultimately have new: "written hb spool t fd i c" using fd c(2) unfolding written_def
    by (intro exI [of _ "j\<lparr>jb_ctx := d, jb_stage := Answered rc\<rparr>"] exI [of _ rc] exI [of _ "he_log he"] exI [of _ hit]) (simp add: t)
  have "i \<notin> set ids"
  proof
    assume "i \<in> set ids"
    then obtain x where "written hb spool s fd i x" using ids(2) by (auto simp: in_set_conv_nth list_all2_conv_all_nth)
    then show False using j by (auto simp: written_def)
  qed
  then show ?thesis using ids(1) all_written_mono [OF st ids(2)] new c(1)
    by (intro exI [of _ "ids @ [i]"]) (simp add: t list_all2_appendI)
qed

lemma step_files:
  assumes g: "globals_ok (e_globals (he_env hb))" and ok: "server_ok (he_env hb) spool s" and f: "files_ok hb spool s"
    and st: "server_step hb spool s t"
  shows "files_ok hb spool t"
proof -
  have h: "hits_true s" using f by (simp add: files_ok_def)
  have old: "\<exists>ids. distinct ids \<and> list_all2 (written hb spool t fd) ids (sv_files s fd)" for fd
    using f all_written_mono [OF st] unfolding files_ok_def by blast
  have "\<exists>ids. distinct ids \<and> list_all2 (written hb spool t fd) ids (sv_files t fd)" for fd
    using st
  proof cases
    case (report i j hit he pool eff pool' c stg)
    then show ?thesis using report_files [OF ok h st report(2-6,1)] f unfolding files_ok_def by blast
  qed (use old in simp_all)
  then show ?thesis using step_hits_true [OF g h st] by (simp add: files_ok_def)
qed

section \<open>What a consumer reads\<close>

text \<open>The JSON value of the record of a request.\<close>

definition reports :: "handler_env \<Rightarrow> bytes \<Rightarrow> server \<Rightarrow> nat \<Rightarrow> nat \<Rightarrow> json \<Rightarrow> bool" where
  "reports hb spool s fd i rec \<longleftrightarrow> (\<exists>j rc le hit. sv_jobs s i = Some j \<and> jb_stage j = Answered rc \<and> \<not> job_clean (he_env hb) spool j
     \<and> lc_log (jb_conf j) = PTR fd \<and> true_hit (lc_skip (jb_conf j)) hit \<and> rec = log_json le (jb_req j) (jb_conf j) hit)"

lemma log_alike_ok: "log_alike lb le \<Longrightarrow> log_env_ok lb \<Longrightarrow> log_env_ok le"
  by (simp add: log_alike_def log_env_ok_def)

lemma written_reports:
  assumes "log_env_ok (he_log hb)" and "plain_text (le_iso8601 (he_log hb))"
    and jobs: "\<And>j. sv_jobs s i = Some j \<Longrightarrow> plain_text (r_addr_text (jb_req j)) \<and> lc_status (jb_conf j) < 2 ^ 64"
    and "written hb spool s fd i c"
  shows "\<exists>rec. reports hb spool s fd i rec \<and> prefix c (print_json rec @ [CHR 0x0A])"
proof -
  obtain j rc le hit where w: "sv_jobs s i = Some j" "jb_stage j = Answered rc" "\<not> job_clean (he_env hb) spool j" "lc_log (jb_conf j) = PTR fd"
      "true_hit (lc_skip (jb_conf j)) hit" "log_alike (he_log hb) le" "prefix c (log_line le (jb_req j) (jb_conf j) hit @ [CHR 0x0A])"
    using assms(4) unfolding written_def by blast
  have "plain_text (le_iso8601 le)" using w(6) assms(2) by (simp add: log_alike_def)
  then have "log_line le (jb_req j) (jb_conf j) hit = print_json (log_json le (jb_req j) (jb_conf j) hit)"
    using log_line_json [OF log_alike_ok [OF w(6) assms(1)]] jobs [OF w(1)] true_hit_plain [OF w(5)] by blast
  moreover have "reports hb spool s fd i (log_json le (jb_req j) (jb_conf j) hit)" unfolding reports_def using w(1-5) by blast
  ultimately show ?thesis using w(7) by auto
qed

end
