(* ===== verification/Lifecycle.thy ===== *)
theory Lifecycle
  imports Server_Fit Server_Logs Commands
begin

text \<open>
  The life of a server from its start: the module is initialized, zones are initialized and initialized
  again on every reload, faults are armed in the test build, and requests arrive with configurations
  that the directives can produce and take their interleaved steps.  Nothing is assumed of the state:
  what holds of every state that is reached follows from the start.
\<close>

section \<open>Reachable states\<close>

text \<open>
  A zone is known by its segment.  On a reload nginx passes the context of the previous cycle to the
  initialization of a zone that is kept, and none to that of a new segment.
\<close>

definition with_zone :: "server \<Rightarrow> nat \<Rightarrow> ngx_http_shield_ban_shctx_t \<Rightarrow> server" where
  "with_zone s z sh = s\<lparr>sv_zones := (sv_zones s)(z \<mapsto> sh)\<rparr>"

definition conf_served :: "bool \<Rightarrow> slot_env \<Rightarrow> ngx_http_shield_loc_conf_t \<Rightarrow> bool" where
  "conf_served harness se slcf \<longleftrightarrow> (\<exists>c. effective harness se c \<and> same_conf c slcf)"

definition arrivals_served :: "bool \<Rightarrow> slot_env \<Rightarrow> server \<Rightarrow> server \<Rightarrow> bool" where
  "arrivals_served harness se s t \<longleftrightarrow>
     (\<forall>i j. sv_jobs s i = None \<longrightarrow> sv_jobs t i = Some j \<longrightarrow> conf_served harness se (jb_conf j))"

inductive serving :: "handler_env \<Rightarrow> bytes \<Rightarrow> bool \<Rightarrow> slot_env \<Rightarrow> server \<Rightarrow> bool" for hb spool harness se where
  boot: "ngx_http_shield_init md mr push g = (NGX_OK, e_globals (he_env hb)) \<Longrightarrow>
     serving hb spool harness se \<lparr>sv_zones = Map.empty, sv_jobs = Map.empty, sv_files = (\<lambda>_. [])\<rparr>"
| cycle: "serving hb spool harness se s \<Longrightarrow>
     ngx_http_shield_ban_init_zone harness (sv_zones s z) None slab log_ctx_ok = (NGX_OK, Some sh) \<Longrightarrow>
     serving hb spool harness se (with_zone s z sh)"
| arm: "serving hb spool harness se s \<Longrightarrow> harness \<Longrightarrow>
     ngx_shield_probe_fault_set (sv_zones s z) fault n = (NGX_OK, Some sh) \<Longrightarrow>
     serving hb spool harness se (with_zone s z sh)"
| request: "serving hb spool harness se s \<Longrightarrow> server_step hb spool s t \<Longrightarrow> arrivals_served harness se s t \<Longrightarrow>
     serving hb spool harness se t"

lemma with_zone_sel [simp]: "sv_zones (with_zone s z sh) = (sv_zones s)(z \<mapsto> sh)" "sv_jobs (with_zone s z sh) = sv_jobs s"
    "sv_files (with_zone s z sh) = sv_files s"
  by (simp_all add: with_zone_def)

section \<open>Zones\<close>

text \<open>Both ways to touch a zone from outside a request keep its invariant and its bans.\<close>

definition zone_refreshed :: "zones \<Rightarrow> nat \<Rightarrow> ngx_http_shield_ban_shctx_t \<Rightarrow> bool" where
  "zone_refreshed zs z sh \<longleftrightarrow> (case zs z of
      None \<Rightarrow> ban_inv sh \<and> ban_view sh = Map.empty
    | Some old \<Rightarrow> ban_view sh = ban_view old \<and> (ban_inv old \<longrightarrow> ban_inv sh))"

lemma cycle_refreshes:
  "ngx_http_shield_ban_init_zone harness (zs z) None slab ok = (NGX_OK, Some sh) \<Longrightarrow> zone_refreshed zs z sh"
proof (cases "zs z")
  case None
  assume i: "ngx_http_shield_ban_init_zone harness (zs z) None slab ok = (NGX_OK, Some sh)"
  then obtain mem where "slab = Some mem" "ok" using None
    by (auto simp: ngx_http_shield_ban_init_zone_def Let_def split: option.splits if_splits)
  then show ?thesis using None i init_zone_fresh [of harness mem sh] by (simp add: zone_refreshed_def)
qed (auto simp: zone_refreshed_def ngx_http_shield_ban_init_zone_def)

lemma fault_set_refreshes: "ngx_shield_probe_fault_set (zs z) fault n = (NGX_OK, Some sh) \<Longrightarrow> zone_refreshed zs z sh"
  by (auto simp: ngx_shield_probe_fault_set_def zone_refreshed_def ban_inv_def zone_ok_def in_use_def ban_view_def
      split: if_splits option.splits)

lemma refreshed_kept: "zones_ok zs \<Longrightarrow> zone_refreshed zs z sh \<Longrightarrow> zones_kept zs (zs(z \<mapsto> sh))"
  by (rule upd_kept) (auto simp: zones_ok_def zone_refreshed_def split: option.splits)

lemma refreshed_view: "zone_refreshed zs z sh \<Longrightarrow> record_of (zs(z \<mapsto> sh)) = record_of zs"
  by (auto simp: zone_refreshed_def record_of_def fun_eq_iff split: option.splits)

section \<open>Configurations and answers\<close>

lemma same_conf_ok: "same_conf c c' \<Longrightarrow> conf_ok c \<Longrightarrow> conf_ok c'"
  by (auto simp: same_conf_def conf_ok_def ban_policy_ok_def split: conf_ptr.split)

lemma served_conf_ok: "slots_ok se \<Longrightarrow> conf_served harness se slcf \<Longrightarrow> conf_ok slcf"
  using effective_conf_ok same_conf_ok unfolding conf_served_def by blast

text \<open>An answer declines, or is an error or a response of its own; it is never a success or a suspension.\<close>

definition answer_ok :: "ngx_rc \<Rightarrow> bool" where
  "answer_ok rc \<longleftrightarrow> rc = NGX_DECLINED \<or> rc = NGX_ERROR \<or> special_response rc"

definition stage_ok :: "stage \<Rightarrow> bool" where
  "stage_ok st \<longleftrightarrow> (\<forall>rc. st = Answered rc \<longrightarrow> answer_ok rc)"

lemma conf_status: "conf_ok c \<Longrightarrow> answer_ok (NGX_HTTP (lc_status c))"
  by (auto simp: answer_ok_def conf_ok_def status_ok_def special_response_def NGX_HTTP_SPECIAL_RESPONSE_def)

lemma stages_ok:
  assumes "conf_ok c"
  shows "stage_ok (after_check c banned)" and "after_prebody he r c ctx_ok res = (x, st) \<Longrightarrow> stage_ok st"
    and "after_body c r y res = (x, st) \<Longrightarrow> stage_ok st" and "after_act c r y = (x, st) \<Longrightarrow> stage_ok st"
proof -
  have f: "answer_ok (ngx_http_shield_fail c)"
    by (simp add: ngx_http_shield_fail_def answer_ok_def special_response_def NGX_HTTP_SPECIAL_RESPONSE_def NGX_HTTP_INTERNAL_SERVER_ERROR_def)
  have d: "answer_ok NGX_DECLINED" "answer_ok NGX_ERROR" "special_response rc \<Longrightarrow> answer_ok rc" for rc by (simp_all add: answer_ok_def)
  have v: "answer_ok (verdict c)" using conf_status [OF assms] d by (simp add: verdict_def)
  have re: "resume c r status = (x, st) \<Longrightarrow> answer_ok status \<Longrightarrow> stage_ok st" for status
    using d by (auto simp: resume_def handler_entry_def stage_ok_def split: if_splits)
  note facts = conf_status [OF assms] f d
  show "stage_ok (after_check c banned)" using facts by (simp add: stage_ok_def after_check_def)
  show "after_prebody he r c ctx_ok res = (x, st) \<Longrightarrow> stage_ok st"
    using facts by (auto simp: stage_ok_def after_prebody_def split: prod.splits if_splits)
  show "after_body c r y res = (x, st) \<Longrightarrow> stage_ok st"
    using re facts by (auto simp: stage_ok_def after_body_def split: prod.splits if_splits)
  show "after_act c r y = (x, st) \<Longrightarrow> stage_ok st"
    using re v by (auto simp: stage_ok_def after_act_def split: option.splits)
qed

definition jobs_ok :: "(ngx_http_shield_loc_conf_t \<Rightarrow> bool) \<Rightarrow> server \<Rightarrow> bool" where
  "jobs_ok P s \<longleftrightarrow> (\<forall>i j. sv_jobs s i = Some j \<longrightarrow> P (jb_conf j) \<and> stage_ok (jb_stage j))"

lemma jobs_ok_files [simp]: "jobs_ok P (s\<lparr>sv_files := fs\<rparr>) = jobs_ok P s"
  by (simp add: jobs_ok_def)

lemma jobs_ok_move: "jobs_ok P s \<Longrightarrow> P (jb_conf j) \<Longrightarrow> stage_ok st \<Longrightarrow> jobs_ok P (move s i j zs st)"
  by (auto simp: jobs_ok_def)

lemma jobs_ok_step: "jobs_ok P s \<Longrightarrow> sv_jobs s i = Some j \<Longrightarrow> (P (jb_conf j) \<Longrightarrow> stage_ok st) \<Longrightarrow> jobs_ok P (move s i j zs st)"
  by (rule jobs_ok_move) (auto simp: jobs_ok_def)

lemma jobs_ok_step_ctx:
  "jobs_ok P s \<Longrightarrow> sv_jobs s i = Some j \<Longrightarrow> (P (jb_conf j) \<Longrightarrow> stage_ok st) \<Longrightarrow> jobs_ok P (move s i (with_ctx j c) zs st)"
  by (rule jobs_ok_move) (auto simp: jobs_ok_def)

lemma stage_ok_open: "stage_ok Passed" "stage_ok (Noted hit)" "stage_ok (Counted hit)" "stage_ok (Answered NGX_DECLINED)"
  by (simp_all add: stage_ok_def answer_ok_def)

lemma step_jobs_ok:
  assumes "server_step hb spool s t" and "jobs_ok P s" and "arrivals_served harness se s t" and ok: "server_ok env spool s"
    and P: "\<And>c. P c \<Longrightarrow> conf_ok c" "\<And>c. conf_served harness se c \<Longrightarrow> P c"
  shows "jobs_ok P t"
  using assms(1)
proof cases
  case (arrive i slcf r)
  have "conf_served harness se slcf"
    using assms(3) [unfolded arrivals_served_def, rule_format, of i "\<lparr>jb_req = r, jb_conf = slcf, jb_ctx = None, jb_stage = Arrived\<rparr>"] arrive(1,2) by simp
  then show ?thesis unfolding arrive(1) using assms(2) P(2) by (intro jobs_ok_move) (simp_all add: stage_ok_def)
next
  case (early i j rc)
  have "rc = NGX_DECLINED" using enters_Some [OF early(4)] server_okD(3) [OF ok early(2)] early(3) by (simp add: job_ok_def)
  then show ?thesis unfolding early(1) using jobs_ok_step [OF assms(2) early(2)] stage_ok_open(4) by simp
next
  case (inspect i j he pool res pool' ctx_ok c st)
  then show ?thesis using jobs_ok_step_ctx [OF assms(2) inspect(2)] stages_ok(2) [OF P(1)] by blast
next
  case (body i j pool res pool' c st)
  then show ?thesis using jobs_ok_step_ctx [OF assms(2) body(2)] stages_ok(3) [OF P(1)] by blast
next
  case (report i j hit he pool eff pool' c st)
  have "jobs_ok P (s\<lparr>sv_files := log_append (he_log he) (jb_conf j) eff (sv_files s)\<rparr>)" using assms(2) by simp
  then show ?thesis unfolding report(1) by (rule jobs_ok_step_ctx) (use report(2,6) stages_ok(4) [OF P(1)] in auto)
qed (use stages_ok(1) [OF P(1)] stage_ok_open in \<open>blast intro!: jobs_ok_step [OF assms(2)]\<close>)+

section \<open>What holds of every reachable state\<close>

definition life_ok :: "handler_env \<Rightarrow> bytes \<Rightarrow> bool \<Rightarrow> slot_env \<Rightarrow> server \<Rightarrow> bool" where
  "life_ok hb spool harness se s \<longleftrightarrow> globals_ok (e_globals (he_env hb)) \<and> server_ok (he_env hb) spool s
     \<and> jobs_ok (conf_served harness se) s \<and> counts_ok hb spool s \<and> files_ok hb spool s
     \<and> (time_in (he_time hb) \<longrightarrow> records_fit (sv_zones s))"

lemma life_refresh:
  assumes "life_ok hb spool harness se s" and "zone_refreshed (sv_zones s) z sh"
  shows "life_ok hb spool harness se (with_zone s z sh)"
proof -
  have ok: "server_ok (he_env hb) spool s" using assms(1) by (simp add: life_ok_def)
  note k = refreshed_kept [OF server_okD(1) [OF ok] assms(2)]
  have "job_ok (he_env hb) spool ((sv_zones s)(z \<mapsto> sh)) j" if "sv_jobs s i = Some j" for i j
    using server_okD(3) [OF ok that] zone_ready_kept [OF k] by (auto simp: job_ok_def)
  then have "server_ok (he_env hb) spool (with_zone s z sh)" using k by (auto simp: server_ok_def zones_kept_def)
  moreover have "written hb spool (with_zone s z sh) = written hb spool s" by (simp add: written_def fun_eq_iff)
  then have "files_ok hb spool (with_zone s z sh)" using assms(1) by (simp add: life_ok_def files_ok_def hits_true_def)
  ultimately show ?thesis using assms(1) refreshed_view [OF assms(2)]
    by (simp add: life_ok_def jobs_ok_def counts_ok_def banned_in_def banned_by_def attacks_of_def records_fit_def)
qed

lemma serving_ok:
  assumes slots: "slots_ok se"
  shows "serving hb spool harness se s \<Longrightarrow> life_ok hb spool harness se s"
proof (induction rule: serving.induct)
  case (boot md mr push g)
  have "globals_ok (e_globals (he_env hb))" by (rule init_only_if [OF boot])
  then show ?case by (simp add: life_ok_def server_ok_def zones_ok_def jobs_ok_def counts_ok_def banned_in_def record_of_def hits_of_def
        files_ok_def hits_true_def records_fit_def)
next
  case (cycle s z slab log_ctx_ok sh)
  then show ?case using life_refresh cycle_refreshes by blast
next
  case (arm s z fault n sh)
  then show ?case using life_refresh fault_set_refreshes by blast
next
  case (request s t)
  note g = request.IH [unfolded life_ok_def, THEN conjunct1]
  have s: "server_ok (he_env hb) spool s" "jobs_ok (conf_served harness se) s" using request.IH by (simp_all add: life_ok_def)
  have "jobs_ok (conf_served harness se) t"
    by (rule step_jobs_ok [OF request.hyps(2) s(2) request.hyps(3) s(1) served_conf_ok [OF slots]])
  moreover have "counts_ok hb spool t" by (rule step_counts [OF s(1) _ request.hyps(2)]) (use request.IH in \<open>simp add: life_ok_def\<close>)
  moreover have "files_ok hb spool t" by (rule step_files [OF g s(1) _ request.hyps(2)]) (use request.IH in \<open>simp add: life_ok_def\<close>)
  moreover have "records_fit (sv_zones t)" if "time_in (he_time hb)"
  proof (rule step_fits [OF s(1) _ request.hyps(2) that])
    show "records_fit (sv_zones s)" using request.IH that by (simp add: life_ok_def)
    show "0 \<le> lc_ban_time (jb_conf j)" if "sv_jobs s i = Some j" "lc_ban_zone (jb_conf j) = PTR z" for i j z
      using s(2) that served_conf_ok [OF slots, of harness "jb_conf j"] by (auto simp: jobs_ok_def conf_ok_def ban_policy_ok_def)
  qed
  ultimately show ?case using server_step_ok [OF g s(1) request.hyps(2)] g by (simp add: life_ok_def)
qed

text \<open>
  What a consumer of a log file gets: the chunks in the file are records of different attacks, and the
  first ones are read back as long as they were written completely.
\<close>

lemma serving_log:
  assumes slots: "slots_ok se" and s: "serving hb spool harness se s"
    and le: "log_env_ok (he_log hb)" "plain_text (le_iso8601 (he_log hb))"
    and addr: "\<forall>i j. sv_jobs s i = Some j \<longrightarrow> plain_text (r_addr_text (jb_req j))"
  shows "\<exists>ids recs. distinct ids \<and> list_all2 (reports hb spool s fd) ids recs \<and> length recs = length (sv_files s fd)
    \<and> (\<forall>n. list_all (suffix [CHR 0x0A]) (take n (sv_files s fd)) \<longrightarrow>
         map json_read (take n (log_lines (concat (sv_files s fd)))) = map Some (take n recs))"
proof -
  have ok: "jobs_ok (conf_served harness se) s" "files_ok hb spool s" using serving_ok [OF slots s] by (simp_all add: life_ok_def)
  have st: "lc_status (jb_conf j) < 2 ^ 64" if "sv_jobs s i = Some j" for i j
    using ok(1) that served_conf_ok [OF slots, of harness "jb_conf j"] by (auto simp: jobs_ok_def conf_ok_def status_ok_def)
  obtain ids where ids: "distinct ids" "list_all2 (written hb spool s fd) ids (sv_files s fd)"
    using ok(2) unfolding files_ok_def by blast
  obtain recs where r: "list_all2 (reports hb spool s fd) ids recs" "list_all2 (\<lambda>x c. prefix c (print_json x @ [CHR 0x0A])) recs (sv_files s fd)"
    using list_all2_choice [OF ids(2), of "reports hb spool s fd" "\<lambda>x c. prefix c (print_json x @ [CHR 0x0A])"]
      written_reports [OF le] addr st by blast
  then show ?thesis using ids(1) json_log.read_whole [OF r(2)] list_all2_lengthD [OF r(2)] by blast
qed

text \<open>A client stays banned over a reload, and over the arming of a fault.\<close>

lemma cycle_keeps_bans:
  "ngx_http_shield_ban_init_zone harness (sv_zones s z) None slab ok = (NGX_OK, Some sh) \<Longrightarrow>
     banned_in (sv_zones (with_zone s z sh)) y d later \<longleftrightarrow> banned_in (sv_zones s) y d later"
  using refreshed_view [OF cycle_refreshes] by (simp add: banned_in_def)

section \<open>Every request is answered\<close>

text \<open>Steps of the requests in progress stay inside the reachable states, which have finitely many of them.\<close>

lemma step_same_jobs:
  "serving hb spool harness se s \<Longrightarrow> server_step hb spool s t \<Longrightarrow> dom (sv_jobs t) = dom (sv_jobs s) \<Longrightarrow> serving hb spool harness se t"
  by (rule serving.request) (auto simp: arrivals_served_def domIff)

lemma serving_finite: "serving hb spool harness se s \<Longrightarrow> finite (dom (sv_jobs s))"
proof (induction rule: serving.induct)
  case (request s t)
  then show ?case using step_finite [OF request.hyps(2)] by blast
qed simp_all

lemma quiet_serving:
  "(quiet_step hb spool ^^ n) s t \<Longrightarrow> serving hb spool harness se s \<Longrightarrow> serving hb spool harness se t"
proof (induction n arbitrary: t)
  case (Suc n)
  obtain u where u: "(quiet_step hb spool ^^ n) s u" "quiet_step hb spool u t" using Suc.prems(1) by auto
  have "serving hb spool harness se u" using Suc u(1) by blast
  then show ?case using step_same_jobs quiet_work [OF serving_finite u(2)] u(2) by (auto simp: quiet_step_def)
qed simp

lemma own_serving:
  "(own_step hb spool i ^^ n) s t \<Longrightarrow> serving hb spool harness se s \<Longrightarrow> serving hb spool harness se t"
proof (induction n arbitrary: t)
  case (Suc n)
  obtain u where u: "(own_step hb spool i ^^ n) s u" "own_step hb spool i u t" using Suc.prems(1) by auto
  then have "server_step hb spool u t" "dom (sv_jobs t) = dom (sv_jobs u)"
    by (auto simp: own_step_def split: if_splits)
  then show ?case using step_same_jobs Suc u(1) by blast
qed simp

text \<open>When no step is left but an arrival, every request has its answer.\<close>

lemma stuck_answered:
  assumes slots: "slots_ok se" and ops: "ops_ok (he_ops hb)" and s: "serving hb spool harness se s"
    and stuck: "\<nexists>u. quiet_step hb spool s u" and j: "sv_jobs s i = Some j"
  shows "\<exists>rc. jb_stage j = Answered rc"
proof (rule ccontr)
  assume "\<not> ?thesis"
  moreover have "server_ok (he_env hb) spool s" using serving_ok [OF slots s] by (simp add: life_ok_def)
  ultimately obtain u where u: "server_step hb spool s u" "closer s i u" using job_progress j ops by blast
  have "dom (sv_jobs u) = dom (sv_jobs s)" using closer_work [OF serving_finite [OF s] u(2)] by blast
  then have "\<not> arrives s u" by (auto simp: arrives_def dom_def)
  then show False using stuck u(1) by (auto simp: quiet_step_def)
qed

text \<open>The access phase of a worker stays inside the reachable states.\<close>

lemma run_of_present:
  assumes "server_run hb spool s t" and "serving hb spool harness se s" and "dom (sv_jobs t) = dom (sv_jobs s)"
  shows "serving hb spool harness se t"
  using assms
proof (induction rule: server_run.induct)
  case (step s t u)
  have "dom (sv_jobs s) \<subseteq> dom (sv_jobs t)" if "server_run hb spool s t" for s t
    using that by (induction rule: server_run.induct) (auto elim!: server_step.cases)
  then have d: "dom (sv_jobs s) \<subseteq> dom (sv_jobs t)" "dom (sv_jobs t) \<subseteq> dom (sv_jobs u)"
    using step.hyps run_one by blast+
  then have "dom (sv_jobs t) = dom (sv_jobs s)" "dom (sv_jobs u) = dom (sv_jobs t)" using step.prems(2) by auto
  then show ?case using step.IH step.prems(1) serving.request [OF _ step.hyps(2)] by (auto simp: arrivals_served_def domIff) blast
qed

end
