(* ===== verification/Life_Examples.thy ===== *)
theory Life_Examples
  imports Request_Properties Lifecycle
begin

text \<open>
  A server that was started and configured by directives, and three of its states: the zone just
  initialized, a clean request served, and an attack answered that bans its client and is in the log.
\<close>

section \<open>A location that logs, and bans at the first attack\<close>

definition ex_fresh_conf :: ngx_http_shield_loc_conf_t where
  "ex_fresh_conf = the (ngx_http_shield_create_loc_conf ex_conf_env)"

definition ex_logging_conf :: ngx_http_shield_loc_conf_t where
  "ex_logging_conf = snd (ngx_http_shield_log ex_conf_env ''s.json'' (ex_fresh_conf\<lparr>lc_mode := SHIELD_BLOCK\<rparr>))"

definition ex_ban_conf :: ngx_http_shield_loc_conf_t where
  "ex_ban_conf = snd (ngx_http_shield_merge_loc_conf ex_fresh_conf (snd (ngx_http_shield_ban ex_conf_env
     [''zone=b'', ''count=1'', ''window=60'', ''bantime=60''] ex_logging_conf)))"

lemma ex_log_directive:
  "ngx_http_shield_log ex_conf_env ''s.json'' (ex_fresh_conf\<lparr>lc_mode := SHIELD_BLOCK\<rparr>) = (CONF_OK, ex_logging_conf)"
  "ex_logging_conf = ex_fresh_conf\<lparr>lc_mode := SHIELD_BLOCK, lc_log := PTR 0, lc_syslog_peer := NULL_PTR\<rparr>"
  by (simp_all add: ex_logging_conf_def ngx_http_shield_log_def ex_fresh_conf_def ngx_http_shield_create_loc_conf_def ex_conf_env_def
      starts_with_def c_str_def)

lemma ex_ban_directive:
  "ngx_http_shield_ban ex_conf_env [''zone=b'', ''count=1'', ''window=60'', ''bantime=60''] ex_logging_conf
     = (CONF_OK, ex_logging_conf\<lparr>lc_ban_zone := PTR 7, lc_ban_count := 1, lc_ban_window := 60, lc_ban_time := 60,
          lc_ban_key := BAN_KEY_PEER, lc_ban_trusted := NULL_PTR\<rparr>)"
  by (simp add: ngx_http_shield_ban_def ex_log_directive ex_fresh_conf_def ngx_http_shield_create_loc_conf_def ex_conf_env_def ban_arg_def
      ban_args0_def starts_with_def c_str_def NGX_CONF_UNSET_def BAN_KEY_PEER_def BAN_KEY_FORWARDED_def Let_def)

lemma ex_ban_sel:
  "lc_mode ex_ban_conf = SHIELD_BLOCK" "lc_ban_zone ex_ban_conf = PTR 7" "lc_ban_count ex_ban_conf = 1" "lc_ban_window ex_ban_conf = 60"
  "lc_ban_time ex_ban_conf = 60" "lc_ban_key ex_ban_conf = BAN_KEY_PEER" "lc_status ex_ban_conf = 403" "lc_skip ex_ban_conf = 0"
  "lc_log ex_ban_conf = PTR 0" "lc_syslog_peer ex_ban_conf = NULL_PTR" "lc_log_disk_full_time ex_ban_conf = 0"
  unfolding ex_ban_conf_def ex_ban_directive
  unfolding ex_log_directive(2)
  by (simp_all add: ngx_http_shield_merge_loc_conf_def Let_def merge_ban_def merge_log_def
      ex_fresh_conf_def ngx_http_shield_create_loc_conf_def ex_conf_env_def merge_value_def SHIELD_BLOCK_def NGX_CONF_UNSET_UINT_def
      NGX_HTTP_FORBIDDEN_def)

lemma ex_ban_effective: "effective False ex_slots ex_ban_conf"
proof -
  let ?b = "\<lambda>c. \<lparr>bl_conf = c, bl_probe = NULL_PTR, bl_handler = None, bl_zones = []\<rparr>"
  let ?c1 = "ex_fresh_conf\<lparr>lc_mode := SHIELD_BLOCK\<rparr>"
  let ?vs = "[''zone=b'', ''count=1'', ''window=60'', ''bantime=60'']"
  have f: "ngx_http_shield_create_loc_conf ex_conf_env = Some ex_fresh_conf"
    by (simp add: ex_fresh_conf_def ngx_http_shield_create_loc_conf_def ex_conf_env_def)
  have m: "opened False ex_slots lvl (?b ex_fresh_conf)" for lvl by (rule opened.fresh [OF f])
  have "opened False ex_slots HTTP_SRV_CONF (?b ?c1)"
    by (rule opened.directive [OF m, where cmd = "\<lparr>cmd_name = ''shield'', cmd_levels = any_level, cmd_takes = CONF_TAKE1, cmd_set = SET_MODE\<rparr>"
          and vs = "[''block'']" and env = ex_conf_env])
      (simp_all add: ngx_http_shield_commands_def any_level_def set_conf_OK ngx_http_shield_mode_def c_str_def
        ex_fresh_conf_def ngx_http_shield_create_loc_conf_def ex_conf_env_def)
  then have "opened False ex_slots HTTP_SRV_CONF (?b ex_logging_conf)"
    by (rule opened.directive [where cmd = "\<lparr>cmd_name = ''shield_log'', cmd_levels = any_level, cmd_takes = CONF_TAKE1, cmd_set = SET_LOG\<rparr>"
          and vs = "[''s.json'']" and env = ex_conf_env])
      (simp_all add: ngx_http_shield_commands_def any_level_def set_conf_OK ex_log_directive(1))
  then have s: "opened False ex_slots HTTP_SRV_CONF (?b (snd (ngx_http_shield_ban ex_conf_env ?vs ex_logging_conf)))"
    by (rule opened.directive [where cmd = "\<lparr>cmd_name = ''shield_ban'', cmd_levels = any_level, cmd_takes = CONF_1MORE, cmd_set = SET_BAN\<rparr>"
          and vs = ?vs and env = ex_conf_env])
      (simp_all add: ngx_http_shield_commands_def any_level_def set_conf_OK ex_ban_directive)
  show ?thesis
    by (rule effective.server [OF m s]) (simp add: ex_ban_conf_def ngx_http_shield_merge_loc_conf_def Let_def)
qed

section \<open>The started server\<close>

definition ex_new_zone :: ngx_http_shield_ban_shctx_t where
  "ex_new_zone = ngx_http_shield_ban_shctx_init (raw_zone\<lparr>sh_rbtree := \<langle>\<rangle>, sh_nodes := Map.empty\<rparr>)"

definition ex_started :: server where
  "ex_started = \<lparr>sv_zones = [7 \<mapsto> ex_new_zone], sv_jobs = Map.empty, sv_files = (\<lambda>_. [])\<rparr>"

lemma ex_zone_started: "ngx_http_shield_ban_init_zone False None None (Some raw_zone) True = (NGX_OK, Some ex_new_zone)"
  by (simp add: ngx_http_shield_ban_init_zone_def ex_new_zone_def Let_def)

lemmas ex_new_zone_facts = init_zone_fresh [OF ex_zone_started]

abbreviation ex_serving :: "server \<Rightarrow> bool" where
  "ex_serving \<equiv> serving (ex_handler 1000) [] False ex_slots"

lemma ex_serving_started: "ex_serving ex_started"
proof -
  have "ngx_http_shield_init mem_all mem_all True plain_globals = (NGX_OK, e_globals (he_env (ex_handler 1000)))"
    by (subst init_globals) (simp_all add: mem_ok_def mem_all_def ex_states plain_globals_def)
  then have b: "ex_serving \<lparr>sv_zones = Map.empty, sv_jobs = Map.empty, sv_files = (\<lambda>_. [])\<rparr>" by (rule serving.boot)
  have "ex_serving (with_zone \<lparr>sv_zones = Map.empty, sv_jobs = Map.empty, sv_files = (\<lambda>_. [])\<rparr> 7 ex_new_zone)"
    by (rule serving.cycle [OF b, where slab = "Some raw_zone" and log_ctx_ok = True]) (simp add: ex_zone_started)
  then show ?thesis by (simp add: with_zone_def ex_started_def)
qed

text \<open>A request arrives and goes through the phase.\<close>

definition ex_life_job :: "bytes \<Rightarrow> stage \<Rightarrow> job" where
  "ex_life_job path st = \<lparr>jb_req = ex_req path, jb_conf = ex_ban_conf, jb_ctx = None, jb_stage = st\<rparr>"

definition ex_life_state :: req_state where
  "ex_life_state = \<lparr>rs_zones = [7 \<mapsto> ex_new_zone], rs_ctx = None, rs_pool = [], rs_conf = ex_ban_conf, rs_log = []\<rparr>"

lemma ex_life_sel: "rs_zones ex_life_state = [7 \<mapsto> ex_new_zone]" "rs_ctx ex_life_state = None" "rs_pool ex_life_state = []"
    "rs_conf ex_life_state = ex_ban_conf" "jb_req (ex_life_job path st) = ex_req path" "jb_conf (ex_life_job path st) = ex_ban_conf"
    "jb_ctx (ex_life_job path st) = None" "jb_stage (ex_life_job path st) = st"
  by (simp_all add: ex_life_state_def ex_life_job_def)

lemma ex_life_ok: "state_ok (ex_handler now) ex_life_state" "\<not> passes_by (ex_req path) ex_life_state"
  using fresh_ops_ok ex_new_zone_facts
  by (simp_all add: state_ok_def zones_ok_def zone_ready_def zone_of_def ex_life_sel ex_states ex_ban_sel passes_by_def ex_req_def
      SHIELD_BLOCK_def SHIELD_OFF_def)

definition ex_arrived :: "bytes \<Rightarrow> server" where
  "ex_arrived path = move ex_started 0 (ex_life_job path Arrived) (sv_zones ex_started) Arrived"

lemma ex_serving_arrived: "ex_serving (ex_arrived path)"
proof -
  have "server_step (ex_handler 1000) [] ex_started (ex_arrived path)"
    unfolding ex_arrived_def ex_life_job_def
    by (rule server_step.arrive) (simp_all add: ex_started_def zone_ready_def zone_of_def ex_ban_sel ex_files_read)
  moreover have "conf_served False ex_slots ex_ban_conf" using ex_ban_effective same_conf_refl unfolding conf_served_def by blast
  then have "arrivals_served False ex_slots ex_started (ex_arrived path)"
    by (auto simp: arrivals_served_def ex_arrived_def ex_started_def ex_life_sel split: if_splits)
  ultimately show ?thesis by (rule serving.request [OF ex_serving_started])
qed

definition ex_answered :: "bytes \<Rightarrow> ngx_rc option \<Rightarrow> zones \<Rightarrow> log_files \<Rightarrow> ngx_rc \<Rightarrow> server" where
  "ex_answered path c zs fs rc = move (ex_started\<lparr>sv_files := fs\<rparr>) 0 (with_ctx (ex_life_job path Arrived) c) zs (Answered rc)"

lemma ex_serving_answered:
  assumes "shield_phase (ex_handler 1000) (ex_req path) ex_life_state = Some (rc, st')"
  shows "ex_serving (ex_answered path (rs_ctx st') (rs_zones st') (phase_files (ex_handler 1000) ex_life_state st' (\<lambda>_. [])) rc)"
proof -
  have g: "globals_ok (e_globals (he_env (ex_handler 1000)))" using plain_globals_ok by (simp add: ex_states)
  let ?fs = "phase_files (ex_handler 1000) ex_life_state st' (sv_files (ex_arrived path))" and ?j = "(ex_life_job path Arrived)\<lparr>jb_stage := Arrived\<rparr>"
  have j: "job_at (ex_arrived path) 0 ?j (ex_req path) ex_life_state Arrived"
    by (simp add: job_at_def ex_arrived_def ex_started_def ex_life_sel)
  have "server_run (ex_handler 1000) [] (ex_arrived path) (move ((ex_arrived path)\<lparr>sv_files := ?fs\<rparr>) 0 (with_ctx ?j (rs_ctx st')) (rs_zones st') (Answered rc))"
    by (rule phase_run [OF g assms _ _ j]) (simp_all add: ex_states fresh_ops_ok ex_life_sel)
  then have "server_run (ex_handler 1000) [] (ex_arrived path) (ex_answered path (rs_ctx st') (rs_zones st') ?fs rc)"
    unfolding ex_arrived_def ex_answered_def move_move .
  then have "ex_serving (ex_answered path (rs_ctx st') (rs_zones st') ?fs rc)"
    by (rule run_of_present [OF _ ex_serving_arrived]) (auto simp: ex_answered_def ex_arrived_def)
  then show ?thesis by (simp add: ex_arrived_def ex_started_def)
qed

section \<open>A clean request and an attack\<close>

lemma ex_life_unbanned: "\<exists>sh. ban_check (ex_handler 1000) (ex_req path) ex_life_state = Some (False, [7 \<mapsto> sh]) \<and> sh = ex_new_zone"
  using ex_ban_addr [of ex_ban_conf]
  by (simp add: ban_check_def ngx_http_shield_ban_is_banned_def zone_of_def ex_life_sel ex_ban_sel ex_client
      ngx_http_shield_ban_is_banned_locked_def ngx_http_shield_ban_lookup_def ex_new_zone_def ngx_http_shield_ban_shctx_init_def)

lemma ex_life_served: "\<exists>c zs fs. ex_serving (ex_answered ''/A+b'' c zs fs NGX_DECLINED)"
proof -
  have g: "globals_ok (e_globals (he_env (ex_handler 1000)))" using plain_globals_ok by (simp add: ex_states)
  obtain sh where b: "ban_check (ex_handler 1000) (ex_req ''/A+b'') ex_life_state = Some (False, [7 \<mapsto> sh])" using ex_life_unbanned by blast
  have "\<not> ngx_http_shield_scannable_body ex_env (ex_req ''/A+b'')" by (simp add: ngx_http_shield_scannable_body_def ex_req_def)
  then obtain st' where "shield_phase (ex_handler 1000) (ex_req ''/A+b'') ex_life_state = Some (NGX_DECLINED, st')"
    using phase_clean [OF g _ ex_life_ok(2) _ b] ex_prebody_clean [of ex_ban_conf] by (auto simp: ex_life_sel ex_states ex_ban_sel)
  then show ?thesis using ex_serving_answered by blast
qed

lemma ex_first_hit: "\<exists>sh bn. ngx_http_shield_ban_record_locked (spine_ops fresh_slab) ex_new_zone 4 ex_addr 1000 1 60 60 = Some (NGX_OK, sh)
    \<and> ban_view sh (4, ex_addr) = Some bn \<and> bn_banned_until bn = 1060"
proof -
  have n: "ban_view ex_new_zone (4, ex_addr) = None" using ex_new_zone_facts by simp
  let ?hit = "ban_hit 1000 1 60 60 (ban_new_node 4 ex_addr 1000)"
  obtain rc sh v where r: "ngx_http_shield_ban_record_locked (spine_ops fresh_slab) ex_new_zone 4 ex_addr 1000 1 60 60 = Some (rc, sh)"
      "rc = NGX_OK \<and> ban_view sh = v((4, ex_addr) \<mapsto> snd ?hit) \<or> rc = NGX_ERROR"
    using ban_record_new [OF fresh_ops_ok, of ex_new_zone 4 ex_addr 1000 1 60 60] ex_new_zone_facts n by blast
  have "rc = NGX_OK" using r(1)
    by (auto simp: ngx_http_shield_ban_record_locked_def ngx_http_shield_ban_lookup_def ngx_http_shield_ban_expire_def ban_expire_loop.simps
        queue_last_def ngx_shield_slab_alloc_def ban_link_def ban_record_at_def ex_new_zone_def ngx_http_shield_ban_shctx_init_def
        spine_ops_def fresh_slab_def BAN_EXPIRE_SCAN_def BAN_EXPIRE_EVICT_def Let_def split: prod.splits)
  moreover have "bn_banned_until (snd ?hit) = 1060"
    by (simp add: ban_hit_def ban_new_node_def roll_window_def retire_lapsed_def inc64_def ngx_http_shield_time_add_clamp_def
        time_t_max_def SIZEOF_TIME_T_def Let_def)
  ultimately show ?thesis using r by auto
qed

lemma ex_life_hit:
  "ngx_http_shield_inspect_prebody ex_env [] (ex_req ''/.git/HEAD'') ex_ban_conf hit0 = ((NGX_OK, structural_hit NAME_DOTFILE CAT_DOTFILE ''uri''), [])"
  unfolding ngx_http_shield_inspect_prebody_def httpoxy_iff range_iff ctrl_char_iff dotfile_iff
  by (simp add: ex_req_def dot_segment_def WELL_KNOWN_def cat_skipped_def ex_ban_sel)

text \<open>The decision on the attack: the client is banned and its record is in the file of the location.\<close>

lemma ex_life_act:
  "\<exists>st'. ngx_http_shield_act (ex_handler 1000) (ex_req ''/.git/HEAD'') (structural_hit NAME_DOTFILE CAT_DOTFILE ''uri'') ex_life_state
       = Some (NGX_HTTP 403, st')
    \<and> banned_in (rs_zones st') 7 (4, ex_addr) 1050
    \<and> (\<exists>line. phase_files (ex_handler 1000) ex_life_state st' (\<lambda>_. []) 0 = [line @ [CHR 0x0A]])"
proof -
  let ?he = "ex_handler 1000" and ?r = "ex_req ''/.git/HEAD''" and ?hit = "structural_hit NAME_DOTFILE CAT_DOTFILE ''uri''"
  obtain sh bn where h: "ngx_http_shield_ban_record_locked (spine_ops fresh_slab) ex_new_zone 4 ex_addr 1000 1 60 60 = Some (NGX_OK, sh)"
      "ban_view sh (4, ex_addr) = Some bn" "bn_banned_until bn = 1060" using ex_first_hit by blast
  have rec: "ngx_http_shield_ban_record ?he ?r ex_ban_conf [7 \<mapsto> ex_new_zone] = Some [7 \<mapsto> sh]"
    using h(1) ex_ban_addr [of ex_ban_conf] by (simp add: ngx_http_shield_ban_record_def zone_of_def ex_ban_sel ex_client ex_states)
  let ?st' = "log_hit ?he ?r ?hit (ex_life_state\<lparr>rs_zones := ngx_http_shield_ban_count ex_ban_conf ?hit [7 \<mapsto> sh]\<rparr>)"
  have act: "ngx_http_shield_act ?he ?r ?hit ex_life_state = Some (NGX_HTTP 403, ?st')"
    by (simp add: ngx_http_shield_act_def rec ex_life_sel ex_ban_sel)
  have "rs_zones ?st' = ngx_http_shield_ban_count ex_ban_conf ?hit [7 \<mapsto> sh]" by (simp add: log_hit_keeps)
  then have b: "banned_in (rs_zones ?st') 7 (4, ex_addr) 1050"
    using h(2,3) by (simp add: banned_in_def count_view) (simp add: record_of_def)
  have "le_time (he_log ?he) = 1000" "le_write_fd (he_log ?he) = (\<lambda>out. Written (int (length out)))"
    by (simp_all add: ex_handler_def ex_log_def)
  then have "phase_files ?he ex_life_state ?st' (\<lambda>_. []) 0 = [log_line (he_log ?he) ?r ex_ban_conf ?hit @ [CHR 0x0A]]"
    by (simp add: phase_files_def act_record [OF act] ex_life_sel ngx_http_shield_write_log_def ex_ban_sel palloc_def log_file_def log_append_def)
  then show ?thesis using act b by blast
qed

lemma ex_life_banned: "\<exists>c zs fs. ex_serving (ex_answered ''/.git/HEAD'' c zs fs (NGX_HTTP 403)) \<and> banned_in zs 7 (4, ex_addr) 1050
    \<and> (\<exists>line. fs 0 = [line @ [CHR 0x0A]])"
proof -
  let ?he = "ex_handler 1000" and ?r = "ex_req ''/.git/HEAD''"
  obtain st' where a: "ngx_http_shield_act ?he ?r (structural_hit NAME_DOTFILE CAT_DOTFILE ''uri'') ex_life_state = Some (NGX_HTTP 403, st')"
      "banned_in (rs_zones st') 7 (4, ex_addr) 1050" "\<exists>line. phase_files ?he ex_life_state st' (\<lambda>_. []) 0 = [line @ [CHR 0x0A]]"
    using ex_life_act by blast
  have b: "ban_check ?he ?r ex_life_state = Some (False, rs_zones ex_life_state)" using ex_life_unbanned by (simp add: ex_life_sel)
  have st: "ex_life_state\<lparr>rs_zones := [7 \<mapsto> ex_new_zone], rs_pool := []\<rparr> = ex_life_state" by (simp add: ex_life_state_def)
  have "shield_phase ?he ?r ex_life_state = Some (NGX_HTTP 403, st')"
    unfolding shield_phase_def handler_first [OF ex_life_ok(2) ex_life_sel(2)] b
    by (simp add: handler_inspect_def Let_def ex_states ex_life_sel ex_life_hit st a(1))
  from ex_serving_answered [OF this] show ?thesis using a(2,3) by blast
qed

end
