(* ===== verification/Spec2Isabelle.thy ===== *)
theory Spec2Isabelle
  imports Scan_Properties Ban_Properties Request_Properties Report_Properties Life_Examples
begin

text \<open>
  Verification of the nginx shield module, the C program of this repository
  (\<open>src/ci/corpus/nginx-http-shield-module/src\<close>).

  \<^bold>\<open>The program.\<close>  An access-phase module that looks for attacks in HTTP requests.  At start-up it
  compiles a table of signatures and rules (\<open>ngx_http_shield_patterns.h\<close>) into two Aho-Corasick
  automata, one for the lower-cased raw bytes and one for the percent-decoded bytes
  (\<open>ngx_http_shield_scan.c\<close>).  For each main request the phase handler (\<open>ngx_http_shield_module.c\<close>)
  asks the ban engine whether the client is banned, runs structural checks and the scanner over the
  request target and the headers, and reads and scans the body where it is scannable.  A hit is charged to
  the client in the ban engine (\<open>ngx_http_shield_ban.c\<close>, a search tree, a queue and a slab in shared
  memory under one lock), counted, logged as a JSON record, and answered with a status in block mode.
  Two content handlers report the state of a zone: a status page and the probe of the test build
  (\<open>ngx_shield_probe_hooks.c\<close>).

  \<^bold>\<open>The theories.\<close>  In the order of the program:
  \<^item> Prelude: bytes, 64-bit masks, result codes, flattened arrays; the collections mask_simps, flat_simps.
    Json: JSON values with a printer and a reader that is its inverse, the specification of what the module
    writes by hand.
  \<^item> Patterns: the complete tables, row by row, with the category flags and masks, and the categories as a
    linear order by their enum values.
  \<^item> Ac_Build: \<open>ngx_http_shield_ac_build\<close> with its size checks, allocations, trie and breadth-first pass;
    Ac_Trie, Ac_Bfs and Ac_Correct prove it (locale prefix_set for the words of a trie, locale
    ac_automaton for what a finished automaton promises).
  \<^item> Scan: the scan of one buffer and of its two copies; Scan_Correct proves it equal to a plain search
    (locale shield_scanner on top of ac_automaton); Tables evaluates the compiled-in tables and interprets
    the locales on both automata.
  \<^item> Config: the location configuration, its creation and merge and the directive handlers; Commands: the
    command table and all configurations that sequences of directives on nested blocks can produce.
  \<^item> Request: structural checks, inspection of target, headers and body; Request_Correct proves what a
    decline means.  Log: the JSON record and its sinks, equal to a printed JSON value.
  \<^item> Ban: nodes, tree, queue, eviction with its cursor, recording; Ban_Tree and Ban_Correct prove the
    invariant and the effect of every operation on the map from clients to records; Ban_Service states the
    interface as the locale ban_service and interprets it on the engine; Ban_Reclaim treats eviction, complete in
    small zones, and the requests that starve it in larger ones;
    Ban_Table gives the abstract table and the refinement.
  \<^item> Handler: charged address, decision on a hit, handler, body callback, zone and module initialization;
    Handler_Correct, Handler_Verdict, Handler_Logs and Handler_Bans prove the phase: answers, the verdict
    on line, headers and body when nothing fails, log records, charges.  Status: the two reporting
    handlers, and the status page as a printed JSON value.
  \<^item> Server: requests of several workers as interleaved steps of an inductive relation, each locked
    section and each write to a log file one step, with invariant, progress measure, and the sequential
    phase as one schedule; a request carries its module context, the body handler records its verdict there
    and runs the phases again (resume), and both calls of the handler take their early returns from
    handler_entry; Server_Bans: how many attacks a ban takes on such a server; Server_Fit: the
    records of the zones and the clock arithmetic on them fit the machine types; Server_Logs: the log files
    as sequences of lines, over the locale line_codec for a record that prints as one line and reads back,
    interpreted on the JSON printer and reader.
  \<^item> Lifecycle: the states a server reaches from its start, by zone initialization and reload, armed faults,
    and requests with configurations the directives produce, and the invariant of all of them.
  \<^item> Examples, Scan_Examples and Life_Examples: concrete environments for the applications of the properties.
  \<^item> Scan_Properties, Ban_Properties, Request_Properties, Report_Properties and this theory: the
    properties.

  \<^bold>\<open>State and effects.\<close>  A C struct is a record with the same fields, a flag set or bit mask a 64-bit word,
  a byte string a list of characters.  The shared zone is a record with the tree, the queue, the cursor and
  a store from node addresses to nodes; reading an address that is not in the store is \<open>None\<close>, so every
  totality statement includes that no freed node is read.  Times are integers with the clamp written out,
  and Server_Fit shows the 64-bit code equal to it on every record that can arise; counters are natural
  numbers that wrap at 64 bits.  The request state holds zones, context, the outcomes
  of the coming pool allocations, the configuration with its two log throttles, and what was logged.

  \<^bold>\<open>What nginx provides\<close> is an argument: string comparison and search, lower-casing and percent-decoding
  (ngx_env, shield_globals), number formatting, clocks, writes (log_env, format_env), tree balancing and
  deletion and the slab (ngx_ops, with the hypotheses of ops_ok: a delete removes the node and keeps the
  order, a rebalance keeps it, an allocation is fresh), the address parser and the CIDR match, the answer to
  the body read (handler_env), the configuration parsers (conf_env, slot_env).

  \<^bold>\<open>What is shown.\<close>  The scanner reports exactly what a plain search reports, the least category at the
  earliest match, inside its tables; the build
  fails only for want of memory or table space.  The ban engine refines an abstract table, never reads freed
  memory, bans at exactly the configured hit, keeps a ban until it ends, evicts only stale records; its
  eviction is complete in small zones and can be starved in larger ones for as long as bans last.  The phase fails closed in block
  mode, blocks attacks in line, headers and body, serves clean requests without
  charging anyone, always answers, accounts every attack once, and cuts a repeat offender off whatever other
  clients do to the zone.  Every configuration the directives can produce is admissible.  Over the whole life of a
  server, under every interleaving, it stays fail closed, no client is banned for fewer attacks than a
  location asks for, and every request is answered: by its own steps at most six, and in every run without
  new arrivals that goes on until no step is left.  Log records and the status page are JSON that reads
  back to the values they report, inside their buffers, the status page also when the zone outgrows its buffer
  between the two locks; a log file is readable line by line whatever the
  workers interleave, up to the first write that was cut short.

  \<^bold>\<open>Bounds.\<close>  The breadth-first loop has fuel for as many states as the table holds; each dequeued state is
  a different one, so it never runs out.  The eviction loop ends by its two budgets (32 nodes examined, 4
  removed).  The file read loop ends because every read makes progress or is an error.  All other loops are
  structural.

  \<^bold>\<open>Not modelled.\<close>  The text of nginx's own error log lines; the rotation and colours of the red-black tree
  (nginx code) and the layout of the node struct they rely on; the registration of the probe hooks and of the
  module, which are tables nginx reads.  Of the repository outside the
  module: the ast-grep rules, which are data for a tool that is not here, the scripts that drive it, and the
  sample projects it is tested on.
\<close>

section \<open>The access phase\<close>

text \<open>
  C1: Block mode fails closed: a main request that the access phase lets through was inspected
  completely, with no structural violation and no attack in its line, its headers and the inspected
  part of its body, whatever allocation failed on the way.
\<close>

theorem block_fail_closed:
  assumes "globals_ok (e_globals (he_env he))" and "files_read spool r" and "r_main r"
    and "lc_mode (rs_conf st) = SHIELD_BLOCK" and "rs_ctx st = None"
    and "shield_phase he r st = Some (NGX_DECLINED, st')"
  shows "prebody_clean (he_env he) (rs_conf st) r
    \<and> (lc_body (rs_conf st) \<noteq> 0 \<longrightarrow> ngx_http_shield_scannable_body (he_env he) r \<longrightarrow>
         clean (he_env he) (lc_skip (rs_conf st) OR ngx_http_shield_no_body_mask)
           (body_prefix spool r (lc_max_body (rs_conf st))))"
  using phase_block [OF assms] by (simp add: inspected_clean_def)

lemma ex_globals_ok: "globals_ok (e_globals (he_env (ex_handler now)))"
  using plain_globals_ok by (simp add: ex_states)

lemma ex_ok: "state_ok (ex_handler now) (ex_state ex_conf bn)"
  by (rule ex_state_ok) (simp add: ex_confs)

lemma ex_body_none: "body_served file (ex_req path)" "\<not> special_response (he_read_body (ex_handler now))"
    "rs_log (ex_state slcf bn) = []"
  by (simp_all add: body_served_def ex_req_def ex_handler_def special_response_def ex_state_def)

theorem block_fail_closed_witness:
  "prebody_clean (he_env (ex_handler 1000)) ex_conf (ex_req ''/A+b'')"
proof -
  obtain st' where "shield_phase (ex_handler 1000) (ex_req ''/A+b'') (ex_state ex_conf ex_node) = Some (NGX_DECLINED, st')"
    using ex_served [of 1000 ex_conf] by (auto simp: ex_confs)
  from block_fail_closed [OF ex_globals_ok ex_files_read _ _ _ this] show ?thesis by (simp add: ex_states ex_confs)
qed

text \<open>
  C8: An attack is refused: in block mode, with memory available and a body that is received and can be
  read, the access phase answers a main request with an attack in its line, its headers or the inspected
  part of its body with the configured status.
\<close>

theorem attack_blocked:
  assumes "globals_ok (e_globals (he_env he))" and "state_ok he st" and "no_faults (rs_pool st)" and "body_served spool r"
    and "\<not> special_response (he_read_body he)" and "r_main r" and "lc_mode (rs_conf st) = SHIELD_BLOCK" and "rs_ctx st = None"
    and "\<not> (prebody_clean (he_env he) (rs_conf st) r
      \<and> (lc_body (rs_conf st) \<noteq> 0 \<longrightarrow> ngx_http_shield_scannable_body (he_env he) r \<longrightarrow>
           clean (he_env he) (lc_skip (rs_conf st) OR ngx_http_shield_no_body_mask)
             (body_prefix spool r (lc_max_body (rs_conf st)))))"
  shows "\<exists>st'. shield_phase he r st = Some (NGX_HTTP (lc_status (rs_conf st)), st') \<and> state_ok he st'"
proof (rule phase_refuses [OF assms(1,2) _ assms(6-8)])
  show "faultless he spool r st" using assms(3-5) by (simp add: faultless_def)
  show "\<not> inspected_clean he spool r (rs_conf st)" using assms(9) by (simp add: inspected_clean_def)
qed

text \<open>A request with a clean line whose body is an attack, half of it in memory and half in a file.\<close>

definition ex_post :: ngx_http_request_t where
  "ex_post = (ex_req ''/A+b'')\<lparr>r_chunked := True, r_body := Some [MemBuf ''q=;+UNION+'', FileBuf 1 8 (slow_reader ''xSELECT+1'')]\<rparr>"

lemma ex_post_served: "body_served ''xSELECT+1'' ex_post"
proof -
  have "serves_file (slow_reader ''xSELECT+1'') ''xSELECT+1''"
    using slow_reader_reads by (auto simp: serves_file_def slow_reader_def)
  then show ?thesis by (simp add: body_served_def ex_post_def)
qed

lemma union_attack: "table_attack MATCH_DECODED ngx_http_shield_no_body_mask (strlow_ascii (plus_to_space ''q=;+UNION+SELECT+1''))"
  by code_simp

lemma ex_post_attack: "\<not> clean ex_env (lc_skip ex_conf OR ngx_http_shield_no_body_mask) (body_prefix ''xSELECT+1'' ex_post (lc_max_body ex_conf))"
proof -
  have "body_prefix ''xSELECT+1'' ex_post (lc_max_body ex_conf) = ''q=;+UNION+SELECT+1''"
    by (simp add: body_prefix_def body_limit_def ex_post_def ex_req_def ex_conf_def)
  moreover have "lc_skip ex_conf OR ngx_http_shield_no_body_mask = ngx_http_shield_no_body_mask" by (simp add: ex_conf_def)
  ultimately show ?thesis using union_attack by (simp only: buffer_spec_None plain_copies ex_globals) simp
qed

lemma ex_post_body: "ngx_http_shield_scannable_body ex_env ex_post" "r_main ex_post" "lc_body ex_conf \<noteq> 0"
  by (simp_all add: ngx_http_shield_scannable_body_def ex_post_def ex_req_def ex_conf_def)




theorem attack_blocked_witness:
  "\<exists>st'. shield_phase (ex_handler 1000) ex_post (ex_state ex_conf ex_node) = Some (NGX_HTTP 403, st')"
proof -
  have "\<exists>st'. shield_phase (ex_handler 1000) ex_post (ex_state ex_conf ex_node) = Some (NGX_HTTP (lc_status ex_conf), st')
      \<and> state_ok (ex_handler 1000) st'"
    using attack_blocked [OF ex_globals_ok ex_ok _ ex_post_served ex_body_none(2), of ex_node 1000] ex_post_attack ex_post_body
    by (simp add: ex_states ex_confs)
  then show ?thesis by (auto simp: ex_confs)
qed

text \<open>
  C27: A clean request is served: with memory available and a body that is received and can be read, a
  request of a client that is not banned, with no violation in its line and headers and none in the
  inspected part of its body, passes in every mode; nothing is charged, no record and no counter of any
  zone changes, and nothing is logged.
\<close>

theorem clean_passes:
  assumes "globals_ok (e_globals (he_env he))" and "state_ok he st" and "no_faults (rs_pool st)" and "body_served spool r"
    and "\<not> special_response (he_read_body he)" and "\<not> passes_by r st" and "rs_ctx st = None" and "\<nexists>zs. ban_check he r st = Some (True, zs)"
    and "prebody_clean (he_env he) (rs_conf st) r"
    and "lc_body (rs_conf st) \<noteq> 0 \<longrightarrow> ngx_http_shield_scannable_body (he_env he) r \<longrightarrow>
           clean (he_env he) (lc_skip (rs_conf st) OR ngx_http_shield_no_body_mask)
             (body_prefix spool r (lc_max_body (rs_conf st)))"
  shows "\<exists>st'. shield_phase he r st = Some (NGX_DECLINED, st') \<and> rs_log st' = rs_log st \<and> dom (rs_zones st') = dom (rs_zones st)
    \<and> (\<forall>z sh sh'. rs_zones st z = Some sh \<longrightarrow> rs_zones st' z = Some sh' \<longrightarrow> ban_view sh' = ban_view sh
         \<and> sh_cat_hits sh' = sh_cat_hits sh \<and> sh_blocked sh' = sh_blocked sh \<and> sh_bans sh' = sh_bans sh)"
proof -
  obtain zs where b: "ban_check he r st = Some (False, zs)" using ban_check_total [OF assms(2), of r] assms(8) by (metis (full_types))
  have "faultless he spool r st" using assms(3-5) by (simp add: faultless_def)
  moreover have "inspected_clean he spool r (rs_conf st)" using assms(9,10) by (simp add: inspected_clean_def)
  ultimately obtain st' where "shield_phase he r st = Some (NGX_DECLINED, st')" "rs_zones st' = zs" "rs_log st' = rs_log st"
    using phase_verdict [OF assms(1,2) _ assms(6,7) b, of spool] by auto
  then show ?thesis using ban_check_uncharged [OF assms(2) b] by (auto simp: uncharged_def)
qed

text \<open>A counting client asks for a clean page: its record, with two hits, stays.\<close>

theorem clean_passes_witness:
  "\<exists>st' sh'. shield_phase (ex_handler 1000) (ex_req ''/A+b'') (ex_state ex_conf ex_node) = Some (NGX_DECLINED, st') \<and> rs_log st' = []
    \<and> rs_zones st' 7 = Some sh' \<and> ban_view sh' (4, ex_addr) = Some ex_node"
proof -
  have b: "\<nexists>zs. ban_check (ex_handler 1000) (ex_req ''/A+b'') (ex_state ex_conf ex_node) = Some (True, zs)"
    using ex_unbanned [of 1000 ex_conf "''/A+b''"] by (auto simp: ex_confs)
  have "\<not> ngx_http_shield_scannable_body ex_env (ex_req ''/A+b'')"
    by (simp add: ngx_http_shield_scannable_body_def ex_req_def)
  then obtain st' where p: "shield_phase (ex_handler 1000) (ex_req ''/A+b'') (ex_state ex_conf ex_node) = Some (NGX_DECLINED, st')"
      "rs_log st' = []" "dom (rs_zones st') = {7}"
      "\<forall>z sh sh'. rs_zones (ex_state ex_conf ex_node) z = Some sh \<longrightarrow> rs_zones st' z = Some sh' \<longrightarrow> ban_view sh' = ban_view sh"
    using clean_passes [OF ex_globals_ok ex_ok _ _ _ ex_main _ b, where spool = "[]"] ex_prebody_clean [of ex_conf] ex_body_none
    by (auto simp: ex_states ex_confs)
  obtain sh' where sh: "rs_zones st' 7 = Some sh'" using p(3) by blast
  then have "ban_view sh' (4, ex_addr) = Some ex_node" using p(4) [rule_format, of 7 "ex_zone ex_node" sh'] by (simp add: ex_states ex_zone_view ex_client)
  then show ?thesis using p(1,2) sh by blast
qed

text \<open>
  C28: Detect mode serves: the request goes on to the next handler unless the client is banned,
  nginx refused the body, or a request whose line and headers are clean and whose body was to be
  inspected found no memory for its context, the pool allocation after the first pass being refused.
\<close>

theorem detect_serves:
  assumes "globals_ok (e_globals (he_env he))" and "lc_mode (rs_conf st) = SHIELD_DETECT" and "rs_ctx st = None"
    and "shield_phase he r st = Some (rc, st')"
  shows "rc = NGX_DECLINED \<or> (\<exists>zs. ban_check he r st = Some (True, zs)) \<and> rc = NGX_HTTP (lc_status (rs_conf st))
    \<or> special_response (he_read_body he) \<and> rc = he_read_body he
    \<or> rc = NGX_ERROR \<and> lc_body (rs_conf st) \<noteq> 0 \<and> ngx_http_shield_scannable_body (he_env he) r
      \<and> prebody_clean (he_env he) (rs_conf st) r
      \<and> (\<exists>hit pool. ngx_http_shield_inspect_prebody (he_env he) (rs_pool st) r (rs_conf st) hit0 = ((NGX_DECLINED, hit), pool)
           \<and> \<not> fst (palloc pool))"
  using phase_detect [OF assms] by (auto simp: no_ctx_def split: prod.splits)

theorem detect_serves_witness:
  "\<exists>st'. shield_phase (ex_handler 1000) (ex_req ''/.git/HEAD'') (ex_state (ex_conf\<lparr>lc_mode := SHIELD_DETECT\<rparr>) ex_node)
     = Some (NGX_DECLINED, st')"
proof -
  let ?c = "ex_conf\<lparr>lc_mode := SHIELD_DETECT\<rparr>"
  have "state_ok (ex_handler 1000) (ex_state ?c ex_node)" by (rule ex_state_ok) (simp add: ex_confs)
  then obtain rc st' where p: "shield_phase (ex_handler 1000) (ex_req ''/.git/HEAD'') (ex_state ?c ex_node) = Some (rc, st')"
    using phase_total [where r = "ex_req ''/.git/HEAD''"] ex_states(2) by blast
  obtain zs where b: "ban_check (ex_handler 1000) (ex_req ''/.git/HEAD'') (ex_state ?c ex_node) = Some (False, zs)"
    using ex_unbanned [of 1000 ?c] by (auto simp: ex_confs)
  have "rc = NGX_DECLINED" using detect_serves [OF ex_globals_ok _ _ p] b ex_attack [of ?c]
    by (auto simp: ex_states special_response_def ex_confs)
  then show ?thesis using p by blast
qed

text \<open>
  C19: The phase never reads freed zone memory and always comes to an answer: from any well-formed
  state the handler, the body callback and the second call together return, the state stays
  well-formed and only the log throttles of the configuration change.
\<close>

theorem phase_safe:
  assumes "state_ok he st" and "rs_ctx st = None"
  shows "\<exists>rc st'. shield_phase he r st = Some (rc, st') \<and> state_ok he st'
    \<and> (\<exists>t u. rs_conf st' = (rs_conf st)\<lparr>lc_log_error_time := t, lc_log_disk_full_time := u\<rparr>)"
  using phase_total [OF assms, of r] unfolding same_conf_def .

theorem phase_safe_witness:
  "\<exists>rc st'. shield_phase (ex_handler 1000) (ex_req ''/.git/HEAD'') (ex_state ex_conf ex_node) = Some (rc, st')
    \<and> state_ok (ex_handler 1000) st' \<and> lc_mode (rs_conf st') = SHIELD_BLOCK"
  using phase_safe [OF ex_ok, of ex_node 1000 "ex_req ''/.git/HEAD''"] by (fastforce simp: ex_states ex_confs)

text \<open>
  C33: A location that the directives can configure answers with nothing but the five configurable
  statuses, the internal error of a failed inspection, the answer to a failed body read or the plain
  error of a failed allocation, or passes the request on.
\<close>

theorem answer_codes:
  assumes "slots_ok se" and "effective harness se (rs_conf st)" and "globals_ok (e_globals (he_env he))" and "rs_ctx st = None"
    and "shield_phase he r st = Some (rc, st')"
  shows "rc \<in> {NGX_DECLINED, NGX_ERROR} \<union> NGX_HTTP ` {403, 404, 419, 429, 444, 500}
    \<or> special_response (he_read_body he) \<and> rc = he_read_body he"
proof -
  have "status_ok (lc_status (rs_conf st))" using effective_conf_ok [OF assms(1,2)] by (simp add: conf_ok_def)
  then show ?thesis using phase_answers [OF assms(3-5)]
    by (auto simp: answers_def status_ok_def NGX_HTTP_INTERNAL_SERVER_ERROR_def)
qed

theorem answer_codes_witness:
  "\<exists>c rc st'. effective False ex_slots c \<and> shield_phase (ex_handler 1000) (ex_req ''/.git/HEAD'') (ex_state c ex_node) = Some (rc, st')
    \<and> rc \<in> {NGX_DECLINED, NGX_ERROR} \<union> NGX_HTTP ` {403, 404, 419, 429, 444, 500}"
proof -
  obtain c where c: "effective False ex_slots c" "lc_ban_zone c = NULL_PTR" using ex_effective by blast
  have "state_ok (ex_handler 1000) (ex_state c ex_node)" by (rule ex_state_ok) (simp add: c(2))
  then obtain rc st' where p: "shield_phase (ex_handler 1000) (ex_req ''/.git/HEAD'') (ex_state c ex_node) = Some (rc, st')"
    using phase_total [where r = "ex_req ''/.git/HEAD''"] ex_states(2) by blast
  have "effective False ex_slots (rs_conf (ex_state c ex_node))" using c(1) by (simp add: ex_states)
  from answer_codes [OF ex_slots_ok this ex_globals_ok _ p] have "rc \<in> {NGX_DECLINED, NGX_ERROR} \<union> NGX_HTTP ` {403, 404, 419, 429, 444, 500}"
    by (auto simp: ex_states special_response_def)
  then show ?thesis using c(1) p by blast
qed

section \<open>Charging and cutting off\<close>



text \<open>
  C5: A repeat offender is cut off: when an attack of a counting client, in the line, the headers or the
  inspected part of a body that can be read, reaches the count inside the window, and after it the zone
  only sees checks, counted hits, and recorded hits of other clients before the ban ends, in any order
  and number, then every request charged to the same address before the ban ends gets the configured
  status without any inspection, whatever it asks for.
\<close>

theorem offender_cut_off:
  assumes "globals_ok (e_globals (he_env he))" and "state_ok he st" and "faultless he spool r st"
    and "\<not> passes_by r st" and "rs_ctx st = None"
    and "lc_ban_zone (rs_conf st) = PTR z" and "rs_zones st z = Some sh"
    and "ngx_http_shield_ban_addr he r (rs_conf st) = Some a" and "ban_view sh (he_crc32 he a, a) = Some bn"
    and "bn_banned_until bn = 0" and "bn_window_start bn \<le> he_time he" and "he_time he < bn_window_start bn + lc_ban_window (rs_conf st)"
    and "0 \<le> he_time he" and "lc_ban_count (rs_conf st) \<le> bn_hits bn + 1" and "bn_hits bn + 1 < 2 ^ 64"
    and "\<not> inspected_clean he spool r (rs_conf st)"
    and "until = ngx_http_shield_time_add_clamp (he_time he) (lc_ban_time (rs_conf st))"
    and "list_all (spares (he_crc32 he a, a) until) xs"
  shows "\<exists>rc st' sh1 sh2. shield_phase he r st = Some (rc, st') \<and> rs_zones st' z = Some sh1 \<and> run_steps zone_step sh1 xs = Some sh2 \<and>
    (\<forall>he2 r2 st2. rs_zones st2 z = Some sh2 \<and> state_ok he2 st2 \<and> he_crc32 he2 = he_crc32 he \<and> rs_ctx st2 = None
       \<and> \<not> passes_by r2 st2 \<and> lc_ban_zone (rs_conf st2) = PTR z \<and> ngx_http_shield_ban_addr he2 r2 (rs_conf st2) = Some a
       \<and> he_time he2 < until \<longrightarrow>
       (\<exists>zs. shield_phase he2 r2 st2 = Some (NGX_HTTP (lc_status (rs_conf st2)), st2\<lparr>rs_zones := zs\<rparr>)))"
proof -
  let ?c = "(he_crc32 he a, a)"
  let ?bn = "snd (ban_hit (he_time he) (lc_ban_count (rs_conf st)) (lc_ban_window (rs_conf st)) (lc_ban_time (rs_conf st)) bn)"
  have until: "bn_banned_until ?bn = until" using ban_hit_arms [OF assms(10-12,14,15)] assms(17) by simp
  obtain sh0 where b: "ban_check he r st = Some (False, (rs_zones st)(z \<mapsto> sh0))" "ban_inv sh0" "ban_view sh0 = ban_view sh"
    using ban_check_zone [OF assms(2,6-8)] assms(9,10,13) by auto
  have ok: "state_ok he (st\<lparr>rs_zones := (rs_zones st)(z \<mapsto> sh0)\<rparr>)" using ban_check_total [OF assms(2), of r] b(1) by simp
  obtain hit p x rc st' y where act: "ngx_http_shield_act he r hit (st\<lparr>rs_zones := (rs_zones st)(z \<mapsto> sh0), rs_ctx := x, rs_pool := p\<rparr>) = Some (rc, st')"
      "shield_phase he r st = Some (rc, st'\<lparr>rs_ctx := y\<rparr>)"
    using phase_hit [OF assms(1,3-5) b(1) ok assms(16)] unfolding acted_on_def by blast
  have ok2: "state_ok he (st\<lparr>rs_zones := (rs_zones st)(z \<mapsto> sh0), rs_ctx := x, rs_pool := p\<rparr>)" using ok by (simp add: state_ok_def)
  obtain sh1 where s: "rs_zones st' z = Some sh1" "ban_view sh1 ?c = Some ?bn"
    using act_accounts [OF ok2 _ _ _ act(1), of z sh0 a] assms(6,8,9) b(3) by (auto simp: recorded_def Let_def)
  have "state_ok he st'" using act_total [OF ok2, of r hit] act(1) by auto
  then have "ban_inv sh1" using s(1) by (auto simp: state_ok_def zones_ok_def)
  then obtain sh2 where r: "run_steps zone_step sh1 xs = Some sh2" "ban_view sh2 ?c = Some ?bn"
    using zone_run_keeps [OF _ s(2)] assms(18) until by auto
  have "\<exists>zs. shield_phase he2 r2 st2 = Some (NGX_HTTP (lc_status (rs_conf st2)), st2\<lparr>rs_zones := zs\<rparr>)"
    if "rs_zones st2 z = Some sh2" "state_ok he2 st2" "he_crc32 he2 = he_crc32 he" "rs_ctx st2 = None" "\<not> passes_by r2 st2"
      "lc_ban_zone (rs_conf st2) = PTR z" "ngx_http_shield_ban_addr he2 r2 (rs_conf st2) = Some a" "he_time he2 < until" for he2 r2 st2
    using phase_banned [OF that(2,5,4,6,1,7), of ?bn] that(3,8) r(2) until by auto
  then show ?thesis using act(2) s(1) r(1)
    by (intro exI [of _ rc] exI [of _ "st'\<lparr>rs_ctx := y\<rparr>"] exI [of _ sh1] exI [of _ sh2]) simp
qed

text \<open>After the attack another client is hit and counted, and the offender asks for a clean page.\<close>

theorem offender_cut_off_witness:
  "\<exists>rc st' sh1 sh2 zs. shield_phase (ex_handler 1000) (ex_req ''/.git/HEAD'') (ex_state ex_conf ex_node) = Some (rc, st')
    \<and> rs_zones st' 7 = Some sh1
    \<and> run_steps zone_step sh1 [Engine (Hit (spine_ops fresh_slab) (5, ''abcd'') 1500 2 60 3600), Tally 3 True, Engine (Check (4, ex_addr) 1600)] = Some sh2
    \<and> shield_phase (ex_handler 2000) (ex_req ''/A+b'') ((ex_state ex_conf ex_node)\<lparr>rs_zones := [7 \<mapsto> sh2]\<rparr>)
        = Some (NGX_HTTP 403, (ex_state ex_conf ex_node)\<lparr>rs_zones := zs\<rparr>)"
proof -
  let ?st = "ex_state ex_conf ex_node" and ?r = "ex_req ''/.git/HEAD''"
  let ?xs = "[Engine (Hit (spine_ops fresh_slab) (5, ''abcd'') 1500 2 60 3600), Tally 3 True, Engine (Check (4, ex_addr) 1600)]"
  have t: "ngx_http_shield_time_add_clamp 1000 3600 = 4600"
    by (simp add: ngx_http_shield_time_add_clamp_def time_t_max_def SIZEOF_TIME_T_def)
  have "\<exists>rc st' sh1 sh2. shield_phase (ex_handler 1000) ?r ?st = Some (rc, st') \<and> rs_zones st' 7 = Some sh1 \<and> run_steps zone_step sh1 ?xs = Some sh2 \<and>
    (\<forall>he2 r2 st2. rs_zones st2 7 = Some sh2 \<and> state_ok he2 st2 \<and> he_crc32 he2 = he_crc32 (ex_handler 1000) \<and> rs_ctx st2 = None
       \<and> \<not> passes_by r2 st2 \<and> lc_ban_zone (rs_conf st2) = PTR 7 \<and> ngx_http_shield_ban_addr he2 r2 (rs_conf st2) = Some ex_addr
       \<and> he_time he2 < 4600 \<longrightarrow>
       (\<exists>zs. shield_phase he2 r2 st2 = Some (NGX_HTTP (lc_status (rs_conf st2)), st2\<lparr>rs_zones := zs\<rparr>)))"
    by (rule offender_cut_off [OF ex_globals_ok ex_ok, where spool = "[]" and sh = "ex_zone ex_node" and bn = ex_node])
      (use ex_ban_addr [of ex_conf] ex_attack [of ex_conf] ex_main [of ex_conf] ex_body_none fresh_ops_ok t in
        \<open>simp_all add: faultless_def inspected_clean_def ex_states ex_confs ex_zone_view ex_client\<close>, simp_all add: ex_node_def)
  then obtain rc st' sh1 sh2 where p: "shield_phase (ex_handler 1000) ?r ?st = Some (rc, st')" "rs_zones st' 7 = Some sh1"
      "run_steps zone_step sh1 ?xs = Some sh2" and later: "\<forall>he2 r2 st2. rs_zones st2 7 = Some sh2 \<and> state_ok he2 st2
       \<and> he_crc32 he2 = he_crc32 (ex_handler 1000) \<and> rs_ctx st2 = None
       \<and> \<not> passes_by r2 st2 \<and> lc_ban_zone (rs_conf st2) = PTR 7 \<and> ngx_http_shield_ban_addr he2 r2 (rs_conf st2) = Some ex_addr
       \<and> he_time he2 < 4600 \<longrightarrow>
       (\<exists>zs. shield_phase he2 r2 st2 = Some (NGX_HTTP (lc_status (rs_conf st2)), st2\<lparr>rs_zones := zs\<rparr>))" by blast
  have "state_ok (ex_handler 1000) st'" using phase_total [OF ex_ok [where now = 1000 and bn = ex_node] ex_states(2), where r = ?r] p(1) by auto
  then have "ban_inv sh1" using p(2) by (auto simp: state_ok_def zones_ok_def)
  then have "ban_inv sh2" using zone_run_inv [OF _ p(3)] fresh_ops_ok by simp
  then have ok2: "state_ok (ex_handler 2000) (?st\<lparr>rs_zones := [7 \<mapsto> sh2]\<rparr>)"
    using ex_ok [of 2000 ex_node] by (simp add: state_ok_def zones_ok_def ex_states ex_confs zone_ready_def zone_of_def)
  have "he_crc32 (ex_handler 2000) = he_crc32 (ex_handler 1000)" by (simp add: ex_handler_def)
  moreover have "\<not> passes_by (ex_req ''/A+b'') (?st\<lparr>rs_zones := [7 \<mapsto> sh2]\<rparr>)" using ex_main [of ex_conf] by (simp add: passes_by_def ex_states ex_confs)
  ultimately obtain zs where "shield_phase (ex_handler 2000) (ex_req ''/A+b'') (?st\<lparr>rs_zones := [7 \<mapsto> sh2]\<rparr>)
      = Some (NGX_HTTP 403, ?st\<lparr>rs_zones := zs\<rparr>)"
    using later [rule_format, of "?st\<lparr>rs_zones := [7 \<mapsto> sh2]\<rparr>" "ex_handler 2000" "ex_req ''/A+b''"] ok2 ex_ban_addr [of ex_conf]
    by (auto simp: ex_states ex_confs)
  then show ?thesis using p by blast
qed

section \<open>The life of a server\<close>

text \<open>
  C3: Block mode fails closed over the whole life of a server: from its start, with any configuration
  the directives can produce, over reloads and armed faults, and however the steps of the requests of all
  workers alternate, the zones stay well-formed, a decided request was declined, failed or got a response
  of its own, and a main request that block mode declined to stop was inspected completely and is clean.
\<close>

theorem concurrent_fail_closed:
  assumes "slots_ok se" and "serving hb spool harness se s" and "sv_jobs s i = Some j" and "jb_stage j = Answered rc"
  shows "zones_ok (sv_zones s) \<and> (rc = NGX_DECLINED \<or> rc = NGX_ERROR \<or> special_response rc)
    \<and> (rc = NGX_DECLINED \<longrightarrow> lc_mode (jb_conf j) = SHIELD_BLOCK \<longrightarrow> r_main (jb_req j) \<longrightarrow>
         prebody_clean (he_env hb) (jb_conf j) (jb_req j)
         \<and> (lc_body (jb_conf j) \<noteq> 0 \<longrightarrow> ngx_http_shield_scannable_body (he_env hb) (jb_req j) \<longrightarrow>
              clean (he_env hb) (lc_skip (jb_conf j) OR ngx_http_shield_no_body_mask)
                (body_prefix spool (jb_req j) (lc_max_body (jb_conf j)))))"
proof -
  have l: "life_ok hb spool harness se s" by (rule serving_ok [OF assms(1,2)])
  then have "server_ok (he_env hb) spool s" "stage_ok (jb_stage j)" using assms(3) by (auto simp: life_ok_def jobs_ok_def)
  then show ?thesis using assms(3,4) by (auto simp: server_ok_def job_ok_def job_clean_def stage_ok_def answer_ok_def)
qed

theorem concurrent_fail_closed_witness:
  "prebody_clean ex_env ex_ban_conf (ex_req ''/A+b'')"
proof -
  obtain c zs fs where "ex_serving (ex_answered ''/A+b'' c zs fs NGX_DECLINED)" using ex_life_served by blast
  from concurrent_fail_closed [OF ex_slots_ok this, of 0 "with_ctx (ex_life_job ''/A+b'' (Answered NGX_DECLINED)) c" NGX_DECLINED]
  show ?thesis by (simp add: ex_answered_def ex_life_job_def ex_ban_sel ex_states)
qed

text \<open>
  C4: A ban takes its count of attacks: whenever in the life of a server a client is banned in a zone,
  that client has sent attacks to locations of that zone, and at least as many as one of these locations
  asks for; no client is banned for clean requests, for the requests of others, or for fewer attacks.
\<close>

theorem bans_take_count:
  assumes "slots_ok se" and "serving hb spool harness se s" and "0 \<le> later" and "banned_in (sv_zones s) z d later"
  shows "\<exists>A i j. finite A \<and> i \<in> A \<and> sv_jobs s i = Some j \<and> 0 < lc_ban_count (jb_conf j) \<and> lc_ban_count (jb_conf j) \<le> card A
    \<and> (\<forall>k \<in> A. \<exists>j' a. sv_jobs s k = Some j' \<and> \<not> job_clean (he_env hb) spool j' \<and> lc_ban_zone (jb_conf j') = PTR z
         \<and> ngx_http_shield_ban_addr hb (jb_req j') (jb_conf j') = Some a \<and> d = (he_crc32 hb a, a))"
proof -
  have l: "life_ok hb spool harness se s" by (rule serving_ok [OF assms(1,2)])
  let ?A = "attacks_of hb spool s z d"
  have "counts_ok hb spool s" using l by (simp add: life_ok_def)
  then have c: "finite ?A" "banned_by hb spool s z d" using finite_attacks [OF counts_okD(1)] assms(3,4) unfolding counts_ok_def by blast+
  then obtain i j where i: "i \<in> ?A" "sv_jobs s i = Some j" "lc_ban_count (jb_conf j) \<le> card ?A" unfolding banned_by_def by blast
  have "conf_ok (jb_conf j)" using l i(2) served_conf_ok [OF assms(1)] by (auto simp: life_ok_def jobs_ok_def)
  moreover have A: "\<forall>k \<in> ?A. \<exists>j' a. sv_jobs s k = Some j' \<and> \<not> job_clean (he_env hb) spool j' \<and> lc_ban_zone (jb_conf j') = PTR z
      \<and> ngx_http_shield_ban_addr hb (jb_req j') (jb_conf j') = Some a \<and> d = (he_crc32 hb a, a)"
    by (auto simp: attacks_of_def attack_by_def)
  ultimately have "0 < lc_ban_count (jb_conf j)" using i(1,2) by (fastforce simp: conf_ok_def ban_policy_ok_def)
  then show ?thesis using c(1) i A by blast
qed

theorem bans_take_count_witness:
  "\<exists>s A. ex_serving s \<and> banned_in (sv_zones s) 7 (4, ex_addr) 1050 \<and> finite A \<and> 0 < card A
    \<and> (\<forall>k \<in> A. \<exists>j'. sv_jobs s k = Some j' \<and> \<not> job_clean ex_env [] j')"
proof -
  obtain c zs fs where z: "ex_serving (ex_answered ''/.git/HEAD'' c zs fs (NGX_HTTP 403))" "banned_in zs 7 (4, ex_addr) 1050"
    using ex_life_banned by blast
  let ?s = "ex_answered ''/.git/HEAD'' c zs fs (NGX_HTTP 403)"
  have b: "banned_in (sv_zones ?s) 7 (4, ex_addr) 1050" using z(2) by (simp add: ex_answered_def)
  from bans_take_count [OF ex_slots_ok z(1) zero_le_numeral b] show ?thesis
  proof (elim exE conjE)
    fix A i j assume A: "finite A" "0 < lc_ban_count (jb_conf j)" "lc_ban_count (jb_conf j) \<le> card A"
      "\<forall>k \<in> A. \<exists>j' a. sv_jobs ?s k = Some j' \<and> \<not> job_clean (he_env (ex_handler 1000)) [] j' \<and> lc_ban_zone (jb_conf j') = PTR 7
         \<and> ngx_http_shield_ban_addr (ex_handler 1000) (jb_req j') (jb_conf j') = Some a \<and> (4, ex_addr) = (he_crc32 (ex_handler 1000) a, a)"
    have "0 < card A" using A(2,3) by (rule less_le_trans)
    moreover have "\<forall>k \<in> A. \<exists>j'. sv_jobs ?s k = Some j' \<and> \<not> job_clean ex_env [] j'" using A(4) unfolding ex_states by blast
    ultimately show ?thesis using z(1) b A(1) by blast
  qed
qed

text \<open>
  C21: No request hangs: from every state in the life of a server, each request in progress gets to an
  answer by at most six steps of its own, each of which moves this request on and no other request,
  whatever the other requests, reloads and faults did to the zones before.
\<close>

theorem request_can_finish:
  fixes he :: handler_env
  assumes "slots_ok se" and "ops_ok (he_ops he)" and "serving he spool harness se s" and "sv_jobs s i = Some j"
  shows "\<exists>n t j' rc. n \<le> 6 \<and> (own_step he spool i ^^ n) s t \<and> serving he spool harness se t \<and> sv_jobs t = (sv_jobs s)(i \<mapsto> j')
    \<and> jb_stage j' = Answered rc \<and> jb_req j' = jb_req j \<and> jb_conf j' = jb_conf j"
proof -
  have "globals_ok (e_globals (he_env he))" "server_ok (he_env he) spool s" using serving_ok [OF assms(1,3)] by (simp_all add: life_ok_def)
  from own_run [OF this(1) assms(2) this(2) assms(4)] show ?thesis using own_serving [OF _ assms(3)] rank_le by (meson le_trans)
qed

theorem request_can_finish_witness:
  "\<exists>n t j' rc. n \<le> 6 \<and> (own_step (ex_handler 1000) [] 0 ^^ n) (ex_arrived ''/.git/HEAD'') t \<and> ex_serving t \<and> sv_jobs t 0 = Some j'
    \<and> jb_stage j' = Answered rc \<and> jb_req j' = ex_req ''/.git/HEAD''"
proof -
  let ?s = "ex_arrived ''/.git/HEAD''"
  have j: "sv_jobs ?s 0 = Some (ex_life_job ''/.git/HEAD'' Arrived)" by (simp add: ex_arrived_def ex_life_job_def)
  have ops: "ops_ok (he_ops (ex_handler 1000))" by (simp add: ex_states fresh_ops_ok)
  obtain n t j' rc where t: "n \<le> 6" "(own_step (ex_handler 1000) [] 0 ^^ n) ?s t" "ex_serving t" "sv_jobs t = (sv_jobs ?s)(0 \<mapsto> j')"
      "jb_stage j' = Answered rc" "jb_req j' = jb_req (ex_life_job ''/.git/HEAD'' Arrived)"
    using request_can_finish [OF ex_slots_ok ops ex_serving_arrived j] by blast
  have "sv_jobs t 0 = Some j'" by (simp add: t(4))
  then show ?thesis using t(1-3,5,6) ex_life_sel(5) by metis
qed

text \<open>
  C22: Every request is answered, under any scheduling: in the life of a server, a run in which no new
  request comes in has at most six steps per request in progress, also for the requests whose body is
  read and that enter the handler a second time, and when it cannot go on, every request has its answer.
\<close>

theorem server_terminates:
  fixes hb :: handler_env
  assumes "slots_ok se" and "ops_ok (he_ops hb)" and "serving hb spool harness se s" and "(quiet_step hb spool ^^ n) s t"
  shows "n \<le> 6 * card (dom (sv_jobs s)) \<and> dom (sv_jobs t) = dom (sv_jobs s)
    \<and> ((\<nexists>u. quiet_step hb spool t u) \<longrightarrow> (\<forall>i j. sv_jobs t i = Some j \<longrightarrow> (\<exists>rc. jb_stage j = Answered rc)))"
  using quiet_steps_work [OF assms(4) serving_finite [OF assms(3)]] work_le [of s]
    stuck_answered [OF assms(1,2) quiet_serving [OF assms(4,3)]] by auto

theorem server_terminates_witness:
  "\<exists>n t j rc. n \<le> 6 \<and> (quiet_step (ex_handler 1000) [] ^^ n) (ex_arrived ''/.git/HEAD'') t \<and> sv_jobs t 0 = Some j \<and> jb_stage j = Answered rc"
proof -
  let ?q = "quiet_step (ex_handler 1000) []" and ?s = "ex_arrived ''/.git/HEAD''"
  note all = server_terminates [OF ex_slots_ok _ ex_serving_arrived [of "''/.git/HEAD''"], unfolded ex_states, OF fresh_ops_ok]
  have d: "dom (sv_jobs ?s) = {0}" by (auto simp: ex_arrived_def ex_started_def)
  have "\<exists>n t. n \<le> 6 \<and> (?q ^^ n) ?s t \<and> (\<nexists>u. ?q t u)"
  proof (rule ccontr)
    assume no: "\<not> ?thesis"
    have "\<exists>t. (?q ^^ n) ?s t" for n
    proof (induction n)
      case (Suc n)
      then obtain t where t: "(?q ^^ n) ?s t" by blast
      then have "n \<le> 6" using all [OF t] d by simp
      then show ?case using no t by (metis relpowp_Suc_I)
    qed simp
    then obtain t where "(?q ^^ 7) ?s t" by blast
    from all [OF this] show False using d by simp
  qed
  then obtain n t where t: "n \<le> 6" "(?q ^^ n) ?s t" "\<nexists>u. ?q t u" by blast
  have "0 \<in> dom (sv_jobs t)" using all [OF t(2)] d by simp
  then show ?thesis using all [OF t(2)] t by blast
qed

text \<open>
  C23: The access phase of a single worker, with its second call after the body, is one schedule of the
  concurrent server: it leaves the zones, the context, the log files and the answer that a run of the
  request's own steps leaves.
\<close>

theorem phase_is_schedule:
  assumes "globals_ok (e_globals (he_env he))" and "ops_ok (he_ops he)" and "shield_phase he r st = Some (rc, st')"
    and "rs_ctx st = None" and "sv_zones s = rs_zones st" and "sv_jobs s i = Some j"
    and "jb_req j = r" and "jb_conf j = rs_conf st" and "jb_ctx j = None" and "jb_stage j = Arrived"
  shows "server_run he spool s \<lparr>sv_zones = rs_zones st', sv_jobs = (sv_jobs s)(i \<mapsto> j\<lparr>jb_ctx := rs_ctx st', jb_stage := Answered rc\<rparr>),
    sv_files = phase_files he st st' (sv_files s)\<rparr>"
proof -
  have j: "job_at s i j r st Arrived" using assms(4-10) by (simp add: job_at_def)
  show ?thesis using phase_run [OF assms(1,3,2,4) j, of spool] by (cases s) (simp add: move_def)
qed

definition ex_job :: "bytes \<Rightarrow> ngx_rc option \<Rightarrow> stage \<Rightarrow> job" where
  "ex_job path c st = \<lparr>jb_req = ex_req path, jb_conf = ex_conf, jb_ctx = c, jb_stage = st\<rparr>"

theorem phase_is_schedule_witness:
  "\<exists>c zs fs. server_run (ex_handler 1000) []
     \<lparr>sv_zones = [7 \<mapsto> ex_zone ex_node], sv_jobs = [0 \<mapsto> ex_job ''/.git/HEAD'' None Arrived], sv_files = (\<lambda>_. [])\<rparr>
     \<lparr>sv_zones = zs, sv_jobs = [0 \<mapsto> ex_job ''/.git/HEAD'' c (Answered (NGX_HTTP 403))], sv_files = fs\<rparr>"
proof -
  let ?s = "\<lparr>sv_zones = [7 \<mapsto> ex_zone ex_node], sv_jobs = [0 \<mapsto> ex_job ''/.git/HEAD'' None Arrived], sv_files = (\<lambda>_. [])\<rparr>"
  let ?st = "ex_state ex_conf ex_node" and ?r = "ex_req ''/.git/HEAD''"
  obtain st' where p: "shield_phase (ex_handler 1000) ?r ?st = Some (NGX_HTTP 403, st')"
    using phase_attack [OF ex_globals_ok ex_ok, of ex_node ?r] ex_attack [of ex_conf] by (auto simp: ex_states ex_confs)
  have "server_run (ex_handler 1000) [] ?s
      \<lparr>sv_zones = rs_zones st', sv_jobs = (sv_jobs ?s)(0 \<mapsto> (ex_job ''/.git/HEAD'' None Arrived)\<lparr>jb_ctx := rs_ctx st', jb_stage := Answered (NGX_HTTP 403)\<rparr>),
       sv_files = phase_files (ex_handler 1000) ?st st' (sv_files ?s)\<rparr>"
    by (rule phase_is_schedule [OF ex_globals_ok _ p]) (simp_all add: ex_states fresh_ops_ok ex_job_def)
  then show ?thesis by (auto simp: ex_states ex_job_def)
qed

text \<open>
  C13: A log file is a journal of attacks: over the whole life of a server, whatever writes fail or are
  cut short, the pieces in a log file belong to different requests, each an answered attack on a location
  that logs there, and a consumer that reads the file line by line gets back as JSON, in order, all
  records before the first one that was not written completely.
\<close>

theorem log_file_readable:
  assumes "slots_ok se" and "serving hb spool harness se s" and "log_env_ok (he_log hb)" and "plain_text (le_iso8601 (he_log hb))"
    and "\<forall>i j. sv_jobs s i = Some j \<longrightarrow> plain_text (r_addr_text (jb_req j))"
  shows "\<exists>ids recs. distinct ids \<and> length recs = length (sv_files s fd)
    \<and> list_all2 (\<lambda>i rec. \<exists>j rc le hit. sv_jobs s i = Some j \<and> jb_stage j = Answered rc \<and> \<not> job_clean (he_env hb) spool j
         \<and> lc_log (jb_conf j) = PTR fd \<and> true_hit (lc_skip (jb_conf j)) hit \<and> rec = log_json le (jb_req j) (jb_conf j) hit) ids recs
    \<and> (\<forall>n. list_all (suffix [CHR 0x0A]) (take n (sv_files s fd)) \<longrightarrow>
         map json_read (take n (log_lines (concat (sv_files s fd)))) = map Some (take n recs))"
proof -
  obtain ids recs where r: "distinct ids" "list_all2 (reports hb spool s fd) ids recs" "length recs = length (sv_files s fd)"
      "\<forall>n. list_all (suffix [CHR 0x0A]) (take n (sv_files s fd)) \<longrightarrow>
         map json_read (take n (log_lines (concat (sv_files s fd)))) = map Some (take n recs)"
    using serving_log [OF assms] by blast
  show ?thesis by (intro exI conjI, rule r(1), rule r(3), rule r(2) [unfolded reports_def], rule r(4))
qed

theorem log_file_readable_witness:
  "\<exists>s rec. ex_serving s \<and> map json_read (log_lines (concat (sv_files s 0))) = [Some rec]"
proof -
  obtain c zs fs line where z: "ex_serving (ex_answered ''/.git/HEAD'' c zs fs (NGX_HTTP 403))" "fs 0 = [line @ [CHR 0x0A]]"
    using ex_life_banned by blast
  let ?s = "ex_answered ''/.git/HEAD'' c zs fs (NGX_HTTP 403)"
  have f: "sv_files ?s 0 = [line @ [CHR 0x0A]]" using z(2) by (simp add: ex_answered_def)
  have l: "he_log (ex_handler 1000) = ex_log" by (simp add: ex_handler_def)
  have p: "plain_text (le_iso8601 ex_log)" "\<forall>i j. sv_jobs ?s i = Some j \<longrightarrow> plain_text (r_addr_text (jb_req j))"
    by (auto simp: ex_log_def plain_text_def ex_answered_def ex_started_def ex_life_sel ex_req_def split: if_splits)
  obtain recs where r: "length recs = 1" "\<forall>n. list_all (suffix [CHR 0x0A]) (take n (sv_files ?s 0)) \<longrightarrow>
      map json_read (take n (log_lines (concat (sv_files ?s 0)))) = map Some (take n recs)"
    using log_file_readable [OF ex_slots_ok z(1), where fd = 0, unfolded l, OF ex_log_ok p] f by auto
  obtain rec where rec: "recs = [rec]" using r(1) by (cases recs) auto
  let ?xs = "log_lines (concat (sv_files ?s 0))"
  have m: "map json_read (take 3 ?xs) = [Some rec]" using r(2) [rule_format, of 3] f rec by (simp add: suffix_def)
  then have "length (take 3 ?xs) = 1" by (metis length_map length_Cons list.size(3) One_nat_def)
  then have "take 3 ?xs = ?xs" by simp
  with m have w: "map json_read ?xs = [Some rec]" by (simp only:)
  show ?thesis by (intro exI conjI, rule z(1), rule w)
qed

section \<open>Machine arithmetic\<close>

text \<open>
  C15: The records of the zones fit the machine: over the whole life of a server whose clock is not before
  the epoch, every stored address fits its sixteen bytes, the hit counter is in range, and the time
  arithmetic of the engine on the record, the age of the window and the two clamped sums, is exact in
  64-bit signed integers for every clock reading and every duration.
\<close>

theorem ban_records_fit:
  assumes "slots_ok se" and "serving hb spool harness se s" and "time_in (he_time hb)" and "record_of (sv_zones s) z d = Some bn"
    and "time_in now" and "time_in delta"
  shows "length (bn_addr bn) \<le> BAN_ADDR_SIZE \<and> bn_hits bn < 2 ^ 64
    \<and> sint (word_of_int now - word_of_int (bn_window_start bn) :: u64) = now - bn_window_start bn
    \<and> sint (time_add_clamp64 (word_of_int (bn_window_start bn)) (word_of_int delta)) = ngx_http_shield_time_add_clamp (bn_window_start bn) delta
    \<and> sint (time_add_clamp64 (word_of_int now) (word_of_int delta)) = ngx_http_shield_time_add_clamp now delta
    \<and> sint (word_of_int (bn_banned_until bn) :: u64) = bn_banned_until bn"
proof -
  have fit: "node_fits bn"
    using serving_ok [OF assms(1,2)] assms(3,4) unfolding life_ok_def records_fit_def by blast
  then have t: "time_in (bn_window_start bn)" "time_in (bn_banned_until bn)" by (simp_all add: node_fits_def)
  note s = time_in_sint [OF t(1)] time_in_sint [OF t(2)] time_in_sint [OF assms(5)] time_in_sint [OF assms(6)]
  have "sint (word_of_int now - word_of_int (bn_window_start bn) :: u64) = now - bn_window_start bn"
    using sint_minus64 [of "word_of_int now" "word_of_int (bn_window_start bn)"] s t(1) assms(5) by (simp add: time_in_def time_t_max_val)
  moreover have "sint (time_add_clamp64 (word_of_int x) (word_of_int delta)) = ngx_http_shield_time_add_clamp x delta" if "time_in x" for x
    using time_add_clamp64_exact [of "word_of_int x" "word_of_int delta"] time_in_sint [OF that] s(4) that by (simp add: time_in_def)
  ultimately show ?thesis using fit t assms(5) s(2) by (simp add: node_fits_def)
qed

theorem ban_records_fit_witness:
  "\<exists>s bn. ex_serving s \<and> record_of (sv_zones s) 7 (4, ex_addr) = Some bn
    \<and> sint (time_add_clamp64 (word_of_int (bn_window_start bn)) (word_of_int time_t_max)) = ngx_http_shield_time_add_clamp (bn_window_start bn) time_t_max"
proof -
  obtain c zs fs where z: "ex_serving (ex_answered ''/.git/HEAD'' c zs fs (NGX_HTTP 403))" "banned_in zs 7 (4, ex_addr) 1050"
    using ex_life_banned by blast
  let ?s = "ex_answered ''/.git/HEAD'' c zs fs (NGX_HTTP 403)"
  obtain bn where bn: "record_of (sv_zones ?s) 7 (4, ex_addr) = Some bn"
    using z(2) by (auto simp: banned_in_def ex_answered_def split: option.splits)
  have "time_in (he_time (ex_handler 1000))" "time_in 1000" "time_in time_t_max"
    by (simp_all add: ex_handler_def time_in_def time_t_max_val)
  then show ?thesis using ban_records_fit [OF ex_slots_ok z(1) _ bn, of 1000 time_t_max] z(1) bn by blast
qed

end
